(* ===== verification/Prelude.thy ===== *)
theory Prelude
  imports Main "HOL-Library.Word" "HOL-Library.Monad_Syntax" "HOL-Library.Multiset"
begin

text \<open>
  Shared vocabulary of the development.

  \<^item> \<open>'a option\<close> is the result of kernel code that can stop the machine:
    \<open>None\<close> is a failed \<open>assert\<close> (\<^verbatim>\<open>shared/debug.h\<close> calls \<open>panic\<close>, which never
    returns) or an access the C code makes outside an object it owns.
  \<^item> \<open>uint32_t\<close> counters are natural numbers below \<open>2 ^ 32\<close>, with the wrap-around of
    \<open>++\<close> and \<open>--\<close> written out in \<open>u32_inc\<close> and \<open>u32_dec\<close>.
  \<^item> C arrays are functions on indices; every access the code makes is guarded in the model
    by the bound the code asserts or relies on.
  \<^item> The memory allocators (\<^verbatim>\<open>shared/malloc.c.h\<close>) appear through their answers: a \<open>heap\<close>
    is the sequence of addresses the successive calls return (0 is \<open>NULL\<close>), the number of
    calls made so far, the zones given back, and what a read of a word finds after the zone
    around it was given back (\<open>residue v\<close> where \<open>v\<close> was stored). Every theorem holds for every
    sequence of answers and every residue.
\<close>

named_theorems ring_simps \<open>unfolding rules of the index-ring operations\<close>
named_theorems mq_simps \<open>unfolding rules of the message-queue operations\<close>
named_theorems proc_simps \<open>unfolding rules of the process-table operations\<close>

subsection \<open>Assertions and unsigned counters\<close>

definition kassert :: "bool \<Rightarrow> unit option" where
  "kassert b = (if b then Some () else None)"

lemma kassert_simps [simp]:
  "kassert True = Some ()" "kassert False = None"
  by (simp_all add: kassert_def)

lemma kassert_eq_Some [simp]: "kassert b = Some u \<longleftrightarrow> b"
  by (simp add: kassert_def)

lemma kassert_eq_None [simp]: "kassert b = None \<longleftrightarrow> \<not> b"
  by (simp add: kassert_def)

lemma kassert_bind [simp]: "Option.bind (kassert b) f = (if b then f () else None)"
  by (simp add: kassert_def)

definition u32_inc :: "nat \<Rightarrow> nat" where
  "u32_inc n = (n + 1) mod 2 ^ 32"

definition u32_dec :: "nat \<Rightarrow> nat" where
  "u32_dec n = (n + (2 ^ 32 - 1)) mod 2 ^ 32"

lemma u32_inc_small [simp]: "n < 2 ^ 32 - 1 \<Longrightarrow> u32_inc n = Suc n"
  by (simp add: u32_inc_def)

lemma u32_dec_Suc [simp]: "n < 2 ^ 32 \<Longrightarrow> u32_dec (Suc n) = n"
proof -
  assume "n < 2 ^ 32"
  have "Suc n + (2 ^ 32 - 1) = n + 2 ^ 32" by simp
  then have "u32_dec (Suc n) = (n + 2 ^ 32) mod 2 ^ 32" by (simp only: u32_dec_def)
  also have "\<dots> = n" using \<open>n < 2 ^ 32\<close> by simp
  finally show ?thesis .
qed

lemma u32_dec_pos: "0 < n \<Longrightarrow> n \<le> 2 ^ 32 \<Longrightarrow> u32_dec n = n - 1"
  by (cases n) simp_all

lemma u32_dec_less: "0 < n \<Longrightarrow> u32_dec n < n"
proof (cases "n \<le> 2 ^ 32")
  case True
  then show "0 < n \<Longrightarrow> u32_dec n < n" by (simp add: u32_dec_pos)
next
  case False
  moreover have "u32_dec n < 2 ^ 32" by (simp add: u32_dec_def)
  ultimately show "0 < n \<Longrightarrow> u32_dec n < n" by linarith
qed

lemma u32_dec_zero: "u32_dec 0 = 4294967295"
  by (simp add: u32_dec_def)

subsection \<open>Words\<close>

lemma unat_bound: "unat (w :: 32 word) < 2 ^ 32"
  using unsigned_less [of w] by simp

lemma unat_drop_bit: "unat (drop_bit n (w :: 'a::len word)) = unat w div 2 ^ n"
proof -
  have "take_bit LENGTH('a) (unat w) = unat w" by (rule take_bit_nat_eq_self) (rule unsigned_less)
  then have "unat (drop_bit n w) = drop_bit n (unat w)" by (simp add: unsigned_drop_bit_eq)
  then show ?thesis by (simp only: drop_bit_eq_div)
qed

subsection \<open>Allocators\<close>

record heap =
  answers :: "nat \<Rightarrow> nat"
  calls :: nat
  freed :: "(nat \<times> nat) list"
  residue :: "int \<Rightarrow> int"

definition heap_alloc :: "heap \<Rightarrow> nat \<times> heap" where
  "heap_alloc h = (answers h (calls h), h\<lparr>calls := Suc (calls h)\<rparr>)"

definition heap_free :: "nat \<Rightarrow> nat \<Rightarrow> heap \<Rightarrow> heap" where
  "heap_free zone len h = h\<lparr>freed := (zone, len) # freed h\<rparr>"

text \<open>A heap whose calls all succeed, for the concrete instances.\<close>

definition ample_heap :: heap where
  "ample_heap = \<lparr>answers = (\<lambda>k. k + 1), calls = 0, freed = [], residue = (\<lambda>v. v)\<rparr>"

lemma ample_heap_simps [simp]: "answers ample_heap k = k + 1" "calls ample_heap = 0"
  by (simp_all add: ample_heap_def)

subsection \<open>Byte memory\<close>

text \<open>
  Memory is a function from addresses to bytes (numbers below 256). \<open>bytes_at\<close> reads a zone,
  \<open>store_bytes\<close> is the memory after a sequence of bytes was stored.
\<close>

type_synonym memory = "nat \<Rightarrow> nat"

definition bytes_at :: "memory \<Rightarrow> nat \<Rightarrow> nat \<Rightarrow> nat list" where
  "bytes_at m a n = map m [a..<a + n]"

definition store_bytes :: "nat \<Rightarrow> nat list \<Rightarrow> memory \<Rightarrow> memory" where
  "store_bytes s bs mem = (\<lambda>a. if s \<le> a \<and> a < s + length bs then bs ! (a - s) else mem a)"

lemma length_bytes_at [simp]: "length (bytes_at m a n) = n"
  by (simp add: bytes_at_def)

lemma nth_bytes_at [simp]: "i < n \<Longrightarrow> bytes_at m a n ! i = m (a + i)"
  by (simp add: bytes_at_def)

lemma bytes_at_0 [simp]: "bytes_at m a 0 = []"
  by (simp add: bytes_at_def)

lemma bytes_at_Suc: "bytes_at m a (Suc n) = m a # bytes_at m (Suc a) n"
  by (simp add: bytes_at_def upt_conv_Cons del: upt_Suc)

lemma bytes_at_snoc: "bytes_at m a (Suc n) = bytes_at m a n @ [m (a + n)]"
  by (simp add: bytes_at_def)

lemma bytes_at_add: "bytes_at m a (k + n) = bytes_at m a k @ bytes_at m (a + k) n"
  by (rule nth_equalityI) (auto simp: nth_append)

lemma bytes_at_cong: "(\<And>i. i < n \<Longrightarrow> m (a + i) = m' (b + i)) \<Longrightarrow> bytes_at m a n = bytes_at m' b n"
  by (rule nth_equalityI) auto

lemma bytes_at_eq_iff: "bytes_at m a n = bytes_at m' b n \<longleftrightarrow> (\<forall>i<n. m (a + i) = m' (b + i))"
  by (auto simp: list_eq_iff_nth_eq)

lemma store_bytes_Nil [simp]: "store_bytes s [] mem = mem"
  by (auto simp: store_bytes_def)

lemma store_bytes_Cons: "store_bytes s (b # bs) mem = store_bytes (Suc s) bs (mem(s := b))"
  by (auto simp: store_bytes_def fun_eq_iff nth_Cons' not_le less_Suc_eq_le)

lemma store_bytes_append:
  "store_bytes s (xs @ ys) mem = store_bytes (s + length xs) ys (store_bytes s xs mem)"
  by (induction xs arbitrary: s mem) (simp_all add: store_bytes_Cons)

lemma store_bytes_outside [simp]: "a < s \<or> s + length bs \<le> a \<Longrightarrow> store_bytes s bs mem a = mem a"
  by (auto simp: store_bytes_def)

lemma store_bytes_inside [simp]: "i < length bs \<Longrightarrow> store_bytes s bs mem (s + i) = bs ! i"
  by (simp add: store_bytes_def)

lemma bytes_at_store_bytes [simp]: "bytes_at (store_bytes s bs mem) s (length bs) = bs"
  by (rule nth_equalityI) auto

lemma bytes_at_store_disjoint:
  "a + n \<le> s \<or> s + length bs \<le> a \<Longrightarrow> bytes_at (store_bytes s bs mem) a n = bytes_at mem a n"
  by (rule bytes_at_cong) auto

text \<open>A word of memory, lowest byte first.\<close>

definition word_at :: "memory \<Rightarrow> nat \<Rightarrow> 32 word" where
  "word_at m a = of_nat (m a + 256 * m (a + 1) + 65536 * m (a + 2) + 16777216 * m (a + 3))"

definition word_bytes :: "32 word \<Rightarrow> nat list" where
  "word_bytes w = [unat w mod 256, unat w div 256 mod 256, unat w div 65536 mod 256, unat w div 16777216]"

lemma word_at_cong:
  assumes "\<forall>i<4. m' (a + i) = m (a + i)"
  shows "word_at m' a = word_at m a"
  using assms [rule_format, of 0] assms [rule_format, of 1] assms [rule_format, of 2] assms [rule_format, of 3]
  by (simp add: word_at_def)

lemma length_word_bytes [simp]: "length (word_bytes w) = 4"
  by (simp add: word_bytes_def)

lemma word_bytes_nonempty [simp]: "word_bytes w \<noteq> []"
  by (simp add: word_bytes_def)

lemma word_bytes_byte: "b \<in> set (word_bytes w) \<Longrightarrow> b < 256"
  using unat_bound [of w] by (auto simp: word_bytes_def less_mult_imp_div_less)

lemma word_of_bytes:
  "of_nat (unat w mod 256 + 256 * (unat w div 256 mod 256) + 65536 * (unat w div 65536 mod 256)
      + 16777216 * (unat w div 16777216)) = (w :: 32 word)"
proof -
  have d: "unat w div 65536 = unat w div 256 div 256" "unat w div 16777216 = unat w div 256 div 256 div 256"
    by (simp_all flip: div_mult2_eq)
  have "unat w mod 256 + 256 * (unat w div 256 mod 256) + 65536 * (unat w div 65536 mod 256)
      + 16777216 * (unat w div 16777216) = unat w"
    unfolding d using mod_mult_div_eq [of "unat w" 256] mod_mult_div_eq [of "unat w div 256" 256]
      mod_mult_div_eq [of "unat w div 256 div 256" 256]
    by linarith
  then show ?thesis by (simp del: of_nat_add of_nat_mult)
qed

lemma word_at_store [simp]: "word_at (store_bytes a (word_bytes w) m) a = w"
  using word_of_bytes [of w] by (simp add: word_at_def word_bytes_def store_bytes_def del: of_nat_add of_nat_mult)

lemma word_at_store_outside [simp]:
  "b + 4 \<le> a \<or> a + length bs \<le> b \<Longrightarrow> word_at (store_bytes a bs m) b = word_at m b"
  by (rule word_at_cong) auto

subsection \<open>Lists\<close>

fun remove_first_with :: "('a \<Rightarrow> bool) \<Rightarrow> 'a list \<Rightarrow> 'a list" where
  "remove_first_with P [] = []"
| "remove_first_with P (x # xs) = (if P x then xs else x # remove_first_with P xs)"

lemma remove_first_with_absent [simp]:
  "(\<And>x. x \<in> set xs \<Longrightarrow> \<not> P x) \<Longrightarrow> remove_first_with P xs = xs"
  by (induction xs) auto

lemma remove_first_with_split:
  "(\<And>x. x \<in> set as \<Longrightarrow> \<not> P x) \<Longrightarrow> P b \<Longrightarrow> remove_first_with P (as @ b # cs) = as @ cs"
  by (induction as) auto

lemma remove1_remove_first_with: "remove1 x xs = remove_first_with (\<lambda>y. y = x) xs"
  by (induction xs) auto

lemma set_remove_first_with_subset: "set (remove_first_with P xs) \<subseteq> set xs"
  by (induction xs) auto

lemma sorted_wrt_remove_first_with:
  "sorted_wrt R xs \<Longrightarrow> sorted_wrt R (remove_first_with P xs)"
  by (induction xs) (use set_remove_first_with_subset in fastforce)+

lemma length_remove_first_with:
  "length (remove_first_with P xs) = (if \<exists>x \<in> set xs. P x then length xs - 1 else length xs)"
proof (induction xs)
  case Nil
  then show ?case by simp
next
  case (Cons a xs)
  then show ?case
    by (cases xs) auto
qed

lemma distinct_remove_first_with: "distinct xs \<Longrightarrow> distinct (remove_first_with P xs)"
  by (induction xs) (use set_remove_first_with_subset in fastforce)+

lemma sorted_wrt_snoc: "sorted_wrt R (xs @ [x]) \<longleftrightarrow> sorted_wrt R xs \<and> (\<forall>y\<in>set xs. R y x)"
  by (simp add: sorted_wrt_append)

lemma image_mset_unchanged: "\<forall>x\<in>set xs. f x = x \<Longrightarrow> image_mset f (mset xs) = mset xs"
  by (induction xs) auto

end
