(* ===== verification/Ring.thy ===== *)
theory Ring
  imports Prelude
begin

text \<open>
  The index ring used three times by the kernel: the pool of free process identifiers
  (\<^verbatim>\<open>process.c\<close>), the pool of free queue identifiers and the buffer of each message queue
  (\<^verbatim>\<open>message_queue.c\<close>). A ring is an array, the index \<open>gi\<close> of the next element taken, the
  index \<open>pi\<close> of the next element stored, and \<open>INDEXES_LOCK_VALUE\<close> (-1) in \<open>gi\<close> when there is
  nothing to take, in \<open>pi\<close> when there is no room.

  \<open>bounded_fifo\<close> is the contract the clients rely on; \<open>lock_ring\<close> is the index discipline
  the C functions follow, and a \<open>sublocale\<close> proves that the discipline gives the contract.
  The components interpret \<open>lock_ring\<close> on their own operations.
\<close>

definition INDEXES_LOCK_VALUE :: int where
  "INDEXES_LOCK_VALUE = -1"

subsection \<open>The contract: a bounded first-in first-out container\<close>

locale bounded_fifo =
  fixes put :: "'s \<Rightarrow> 'a \<Rightarrow> 's option"
    and get :: "'s \<Rightarrow> ('a \<times> 's) option"
    and contents :: "'s \<Rightarrow> 'a list"
    and capacity :: "'s \<Rightarrow> nat"
    and invar :: "'s \<Rightarrow> bool"
  assumes contents_bound: "invar s \<Longrightarrow> length (contents s) \<le> capacity s"
    and put_room: "invar s \<Longrightarrow> length (contents s) < capacity s \<Longrightarrow>
      \<exists>s'. put s x = Some s' \<and> invar s' \<and> capacity s' = capacity s
        \<and> contents s' = contents s @ [x]"
    and put_full: "invar s \<Longrightarrow> length (contents s) = capacity s \<Longrightarrow> put s x = None"
    and get_some: "invar s \<Longrightarrow> contents s = x # xs \<Longrightarrow>
      \<exists>s'. get s = Some (x, s') \<and> invar s' \<and> capacity s' = capacity s \<and> contents s' = xs"
begin

primrec put_all :: "'s \<Rightarrow> 'a list \<Rightarrow> 's option" where
  "put_all s [] = Some s"
| "put_all s (x # xs) = Option.bind (put s x) (\<lambda>s'. put_all s' xs)"

primrec get_n :: "nat \<Rightarrow> 's \<Rightarrow> ('a list \<times> 's) option" where
  "get_n 0 s = Some ([], s)"
| "get_n (Suc n) s = Option.bind (get s) (\<lambda>(x, s').
     Option.bind (get_n n s') (\<lambda>(xs, s''). Some (x # xs, s'')))"

lemma put_all_room:
  "invar s \<Longrightarrow> length (contents s) + length xs \<le> capacity s \<Longrightarrow>
   \<exists>s'. put_all s xs = Some s' \<and> invar s' \<and> capacity s' = capacity s
     \<and> contents s' = contents s @ xs"
proof (induction xs arbitrary: s)
  case Nil
  then show ?case by simp
next
  case (Cons x xs)
  from Cons.prems obtain s1 where s1: "put s x = Some s1" "invar s1" "capacity s1 = capacity s"
    "contents s1 = contents s @ [x]"
    using put_room [of s x] by auto
  with Cons.prems have "length (contents s1) + length xs \<le> capacity s1" by simp
  from Cons.IH [OF s1(2) this] s1 show ?case by auto
qed

lemma get_n_contents:
  "invar s \<Longrightarrow> contents s = xs @ ys \<Longrightarrow>
   \<exists>s'. get_n (length xs) s = Some (xs, s') \<and> invar s' \<and> capacity s' = capacity s
     \<and> contents s' = ys"
proof (induction xs arbitrary: s)
  case Nil
  then show ?case by simp
next
  case (Cons x xs)
  from Cons.prems obtain s1 where s1: "get s = Some (x, s1)" "invar s1"
    "capacity s1 = capacity s" "contents s1 = xs @ ys"
    using get_some [of s x "xs @ ys"] by auto
  from Cons.IH [OF s1(2,4)] s1 show ?case by auto
qed

text \<open>What is put in comes out, in the order it was put in.\<close>

lemma put_all_get_n:
  assumes "invar s" "contents s = []" "length xs \<le> capacity s"
  shows "\<exists>s' s''. put_all s xs = Some s' \<and> get_n (length xs) s' = Some (xs, s'')
    \<and> contents s'' = []"
proof -
  from assms put_all_room [of s xs] obtain s' where s': "put_all s xs = Some s'" "invar s'"
    "contents s' = xs" by auto
  then show ?thesis using get_n_contents [of s' xs "[]"] by auto
qed

end

subsection \<open>Ring arithmetic\<close>

definition ring_list :: "(nat \<Rightarrow> 'a) \<Rightarrow> nat \<Rightarrow> int \<Rightarrow> nat \<Rightarrow> 'a list" where
  "ring_list buf cap gi n = map (\<lambda>i. buf ((nat gi + i) mod cap)) [0..<n]"

definition ring_ok :: "nat \<Rightarrow> int \<Rightarrow> int \<Rightarrow> nat \<Rightarrow> bool" where
  "ring_ok cap gi pi n \<longleftrightarrow> 0 < cap \<and> n \<le> cap
     \<and> (if n = cap then pi = INDEXES_LOCK_VALUE else 0 \<le> pi \<and> pi < int cap)
     \<and> (if n = 0 then gi = INDEXES_LOCK_VALUE \<or> gi = pi
        else 0 \<le> gi \<and> gi < int cap \<and> (n < cap \<longrightarrow> pi = int ((nat gi + n) mod cap)))"

lemma length_ring_list [simp]: "length (ring_list buf cap gi n) = n"
  by (simp add: ring_list_def)

lemma mod_less_distinct:
  assumes "(g :: nat) < cap" "i < cap" "j < cap" "(g + i) mod cap = (g + j) mod cap"
  shows "i = j"
proof -
  have *: "(g + k) mod cap = (if g + k < cap then g + k else g + k - cap)" if "k < cap" for k
    using assms(1) that by (simp add: mod_if)
  show ?thesis using assms * [of i] * [of j] by (auto split: if_splits)
qed

lemma int_succ_mod: "(int p + 1) mod int cap = int ((p + 1) mod cap)"
  by (simp add: zmod_int add.commute)

lemma ring_list_put:
  assumes "ring_ok cap gi pi n" "n < cap"
  shows "ring_list (buf(nat pi := x)) cap (if gi = INDEXES_LOCK_VALUE then pi else gi) (Suc n)
    = ring_list buf cap gi n @ [x]"
proof (cases "n = 0")
  case True
  with assms show ?thesis by (auto simp: ring_list_def ring_ok_def INDEXES_LOCK_VALUE_def)
next
  case False
  define g where "g = nat gi"
  from assms False have g: "g < cap" "gi = int g" "gi \<noteq> INDEXES_LOCK_VALUE"
    and p: "nat pi = (g + n) mod cap"
    by (auto simp: ring_ok_def g_def INDEXES_LOCK_VALUE_def)
  have "(g + i) mod cap \<noteq> (g + n) mod cap" if "i < n" for i
    using mod_less_distinct [of g cap i n] g that assms(2) by auto
  then show ?thesis using g p by (simp add: ring_list_def)
qed

lemma ring_ok_put:
  assumes "ring_ok cap gi pi n" "n < cap"
  defines "g' \<equiv> if gi = INDEXES_LOCK_VALUE then pi else gi"
  defines "q \<equiv> (pi + 1) mod int cap"
  shows "ring_ok cap g' (if q = g' then INDEXES_LOCK_VALUE else q) (Suc n)"
proof -
  from assms(1,2) obtain p where p: "pi = int p" "p < cap"
    by (auto simp: ring_ok_def elim: nonneg_int_cases)
  obtain g where g: "g' = int g" "g < cap" "p = (g + n) mod cap"
    using assms(1,2) p
    by (cases "n = 0") (auto simp: ring_ok_def g'_def INDEXES_LOCK_VALUE_def elim: nonneg_int_cases)
  have "q = int ((p + 1) mod cap)" by (simp only: q_def p(1) int_succ_mod)
  also have "(p + 1) mod cap = (g + Suc n) mod cap" by (simp add: g(3) mod_Suc_eq)
  finally have q: "q = int ((g + Suc n) mod cap)" .
  have "q = g' \<longleftrightarrow> Suc n = cap"
    using mod_less_distinct [of g cap "Suc n" 0] g assms(2) q
    by (cases "Suc n = cap") auto
  then show ?thesis using g q assms(2) by (simp add: ring_ok_def)
qed

lemma ring_list_get:
  assumes "ring_ok cap gi pi (Suc n)"
  shows "ring_list buf cap gi (Suc n) = buf (nat gi) # ring_list buf cap ((gi + 1) mod int cap) n"
proof -
  from assms obtain g where g: "gi = int g" "g < cap"
    by (auto simp: ring_ok_def elim: nonneg_int_cases)
  have *: "(gi + 1) mod int cap = int ((g + 1) mod cap)" by (simp only: g(1) int_succ_mod)
  have "((g + 1) mod cap + i) mod cap = (g + Suc i) mod cap" for i
    by (simp add: mod_add_left_eq)
  then have "ring_list buf cap ((gi + 1) mod int cap) n
      = map (\<lambda>i. buf ((g + Suc i) mod cap)) [0..<n]"
    by (simp add: ring_list_def *)
  also have "\<dots> = map (\<lambda>i. buf ((g + i) mod cap)) (map Suc [0..<n])"
    by (simp only: map_map o_def)
  finally show ?thesis
    using g by (simp add: ring_list_def upt_conv_Cons map_Suc_upt del: upt_Suc)
qed

lemma ring_ok_get:
  assumes "ring_ok cap gi pi (Suc n)"
  defines "p' \<equiv> if pi = INDEXES_LOCK_VALUE then gi else pi"
  defines "c \<equiv> (gi + 1) mod int cap"
  shows "ring_ok cap (if c = p' then INDEXES_LOCK_VALUE else c) p' n"
    and "n \<noteq> 0 \<Longrightarrow> c \<noteq> p'"
proof -
  from assms(1) obtain g where g: "gi = int g" "g < cap" "Suc n \<le> cap"
    by (auto simp: ring_ok_def elim: nonneg_int_cases)
  have p: "p' = int ((g + Suc n) mod cap)"
  proof (cases "Suc n = cap")
    case True
    with assms(1) have "pi = INDEXES_LOCK_VALUE" by (simp add: ring_ok_def)
    with True g show ?thesis by (simp add: p'_def del: add_Suc_right)
  next
    case False
    with assms(1) g show ?thesis by (auto simp: ring_ok_def p'_def INDEXES_LOCK_VALUE_def)
  qed
  have c: "c = int ((g + 1) mod cap)" by (simp only: c_def g(1) int_succ_mod)
  have "((g + 1) mod cap + n) mod cap = (g + Suc n) mod cap"
    by (simp add: mod_add_left_eq)
  moreover have eq: "(g + 1) mod cap = (g + Suc n) mod cap \<longleftrightarrow> n = 0"
    using mod_less_distinct [of "(g + 1) mod cap" cap 0 n] calculation g(3) by auto
  ultimately show "ring_ok cap (if c = p' then INDEXES_LOCK_VALUE else c) p' n"
    using c p g(3) by (simp add: ring_ok_def INDEXES_LOCK_VALUE_def)
  show "n \<noteq> 0 \<Longrightarrow> c \<noteq> p'" using c p eq by auto
qed

lemma ring_list_0 [simp]: "ring_list buf cap gi 0 = []"
  by (simp add: ring_list_def)

subsection \<open>The index discipline\<close>

text \<open>
  \<open>wf\<close> is what the count field of the component must satisfy for its \<open>++\<close> and \<open>--\<close> not to
  wrap; the other laws say what one call does to the array, to the two indices and to the
  number of stored elements.
\<close>

locale lock_ring =
  fixes put :: "'s \<Rightarrow> 'a \<Rightarrow> 's option"
    and get :: "'s \<Rightarrow> ('a \<times> 's) option"
    and buf :: "'s \<Rightarrow> nat \<Rightarrow> 'a"
    and gi :: "'s \<Rightarrow> int"
    and pi :: "'s \<Rightarrow> int"
    and cnt :: "'s \<Rightarrow> nat"
    and cap :: "'s \<Rightarrow> nat"
    and wf :: "'s \<Rightarrow> bool"
  assumes put_locked: "pi s = INDEXES_LOCK_VALUE \<Longrightarrow> put s x = None"
    and put_step: "wf s \<Longrightarrow> pi s \<noteq> INDEXES_LOCK_VALUE \<Longrightarrow> cnt s < cap s \<Longrightarrow>
      \<exists>s'. put s x = Some s' \<and> wf s' \<and> cap s' = cap s \<and> cnt s' = Suc (cnt s)
        \<and> buf s' = (buf s)(nat (pi s) := x)
        \<and> gi s' = (if gi s = INDEXES_LOCK_VALUE then pi s else gi s)
        \<and> pi s' = (let q = (pi s + 1) mod int (cap s)
            in if q = gi s' then INDEXES_LOCK_VALUE else q)"
    and get_step: "wf s \<Longrightarrow> gi s \<noteq> INDEXES_LOCK_VALUE \<Longrightarrow> 0 < cnt s \<Longrightarrow> cnt s \<le> cap s \<Longrightarrow>
      \<exists>s'. get s = Some (buf s (nat (gi s)), s') \<and> wf s' \<and> cap s' = cap s
        \<and> Suc (cnt s') = cnt s \<and> buf s' = buf s
        \<and> pi s' = (if pi s = INDEXES_LOCK_VALUE then gi s else pi s)
        \<and> gi s' = (let c = (gi s + 1) mod int (cap s)
            in if c = pi s' then INDEXES_LOCK_VALUE else c)"
begin

abbreviation ring_contents :: "'s \<Rightarrow> 'a list" where
  "ring_contents s \<equiv> ring_list (buf s) (cap s) (gi s) (cnt s)"

abbreviation ring_invar :: "'s \<Rightarrow> bool" where
  "ring_invar s \<equiv> wf s \<and> ring_ok (cap s) (gi s) (pi s) (cnt s)"

lemma put_appends:
  assumes "ring_invar s" "cnt s < cap s"
  shows "\<exists>s'. put s x = Some s' \<and> ring_invar s' \<and> cap s' = cap s
    \<and> ring_contents s' = ring_contents s @ [x]"
proof -
  from assms have ok: "wf s" "ring_ok (cap s) (gi s) (pi s) (cnt s)" "pi s \<noteq> INDEXES_LOCK_VALUE"
    by (auto simp: ring_ok_def INDEXES_LOCK_VALUE_def)
  from put_step [OF ok(1,3) assms(2), of x] obtain s' where s': "put s x = Some s'" "wf s'"
    "cap s' = cap s" "cnt s' = Suc (cnt s)" "buf s' = (buf s)(nat (pi s) := x)"
    "gi s' = (if gi s = INDEXES_LOCK_VALUE then pi s else gi s)"
    "pi s' = (let q = (pi s + 1) mod int (cap s) in if q = gi s' then INDEXES_LOCK_VALUE else q)"
    by blast
  have "ring_invar s'"
    using s' ring_ok_put [OF ok(2) assms(2)] by (simp add: Let_def)
  moreover have "ring_contents s' = ring_contents s @ [x]"
    by (simp only: s'(3-6) ring_list_put [OF ok(2) assms(2)])
  ultimately show ?thesis using s' by blast
qed

lemma get_takes:
  assumes "ring_invar s" "ring_contents s = x # xs"
  shows "\<exists>s'. get s = Some (x, s') \<and> ring_invar s' \<and> cap s' = cap s \<and> ring_contents s' = xs"
proof -
  from assms(2) have "length (ring_contents s) = Suc (length xs)" by simp
  then have n: "cnt s = Suc (length xs)" by simp
  from assms(1) n have ok: "wf s" "ring_ok (cap s) (gi s) (pi s) (Suc (length xs))"
    "gi s \<noteq> INDEXES_LOCK_VALUE" "cnt s \<le> cap s"
    by (auto simp: ring_ok_def INDEXES_LOCK_VALUE_def)
  from get_step [OF ok(1,3) _ ok(4)] n obtain s' where s':
    "get s = Some (buf s (nat (gi s)), s')" "wf s'" "cap s' = cap s" "cnt s' = length xs"
    "buf s' = buf s" "pi s' = (if pi s = INDEXES_LOCK_VALUE then gi s else pi s)"
    "gi s' = (let c = (gi s + 1) mod int (cap s) in if c = pi s' then INDEXES_LOCK_VALUE else c)"
    by auto
  have "ring_invar s'"
    using s' ring_ok_get(1) [OF ok(2)] by (simp add: Let_def)
  moreover have "buf s (nat (gi s)) = x \<and> ring_contents s' = xs"
    using s' ring_ok_get(2) [OF ok(2)] ring_list_get [OF ok(2), of "buf s"] assms(2) n
    by (cases xs) (auto simp: Let_def)
  ultimately show ?thesis using s' by auto
qed

end

sublocale lock_ring \<subseteq> fifo: bounded_fifo put get ring_contents cap ring_invar
proof unfold_locales
  fix s x xs
  show "length (ring_contents s) \<le> cap s" if "ring_invar s"
    using that by (simp add: ring_ok_def)
  show "\<exists>s'. put s x = Some s' \<and> ring_invar s' \<and> cap s' = cap s
      \<and> ring_contents s' = ring_contents s @ [x]"
    if "ring_invar s" "length (ring_contents s) < cap s"
    using put_appends that by simp
  show "put s x = None" if "ring_invar s" "length (ring_contents s) = cap s"
    using put_locked that by (simp add: ring_ok_def)
  show "\<exists>s'. get s = Some (x, s') \<and> ring_invar s' \<and> cap s' = cap s \<and> ring_contents s' = xs"
    if "ring_invar s" "ring_contents s = x # xs"
    using get_takes that by simp
qed

end
