(* ===== verification/Prio_Queue.thy ===== *)
theory Prio_Queue
  imports Prelude
begin

text \<open>
  The intrusive priority queue of \<^verbatim>\<open>shared/queue.h\<close>: a circular doubly linked list threaded
  through a \<open>link\<close> field of its elements, sorted by increasing priority from the list head,
  so that the element to serve is the one before the head.

  The macros are modelled on explicit link memory (\<open>links\<close>: the \<open>prev\<close> and \<open>next\<close> fields of
  the head and of every element, \<open>None\<close> for a null pointer). The list view that
  \<^verbatim>\<open>process.c\<close> relies on is given by \<open>queue_insert\<close>, \<open>remove1\<close>, \<open>last\<close> and \<open>butlast\<close>;
  the locale \<open>priority_queue\<close> is that interface, interpreted on the link memory and on
  plain lists.
\<close>

subsection \<open>Link memory and the macros\<close>

datatype 'a node = Head | Elem 'a

record 'a links =
  lprev :: "'a node \<Rightarrow> 'a node option"
  lnext :: "'a node \<Rightarrow> 'a node option"

definition LIST_HEAD_INIT :: "'a links" where
  "LIST_HEAD_INIT = \<lparr>lprev = (\<lambda>_. None)(Head \<mapsto> Head), lnext = (\<lambda>_. None)(Head \<mapsto> Head)\<rparr>"

text \<open>The search loop of \<open>queue_add\<close>; it follows \<open>next\<close> and need not end on a corrupted list.\<close>

partial_function (option) queue_scan ::
  "('a \<Rightarrow> int) \<Rightarrow> int \<Rightarrow> 'a links \<Rightarrow> 'a node \<Rightarrow> 'a node option" where
  "queue_scan prio p l cur = Option.bind (lnext l cur) (\<lambda>n.
     case n of Head \<Rightarrow> Some Head
     | Elem y \<Rightarrow> if prio y < p then queue_scan prio p l (Elem y) else Some (Elem y))"

definition link_queue_add :: "('a \<Rightarrow> int) \<Rightarrow> 'a \<Rightarrow> 'a links \<Rightarrow> 'a links option" where
  "link_queue_add prio x l = do {
     kassert (lprev l (Elem x) = None \<and> lnext l (Elem x) = None);
     cur \<leftarrow> queue_scan prio (prio x) l Head;
     let l = l\<lparr>lnext := (lnext l)(Elem x \<mapsto> cur)\<rparr>;
     let l = l\<lparr>lprev := (lprev l)(Elem x := lprev l cur)\<rparr>;
     pv \<leftarrow> lprev l cur;
     let l = l\<lparr>lnext := (lnext l)(pv \<mapsto> Elem x)\<rparr>;
     Some (l\<lparr>lprev := (lprev l)(cur \<mapsto> Elem x)\<rparr>)
   }"

definition link_queue_empty :: "'a links \<Rightarrow> bool" where
  "link_queue_empty l \<longleftrightarrow> lnext l Head = Some Head"

definition link_queue_out :: "'a links \<Rightarrow> ('a option \<times> 'a links) option" where
  "link_queue_out l = (if link_queue_empty l then Some (None, l) else do {
     ptr \<leftarrow> lprev l Head;
     pv \<leftarrow> lprev l ptr;
     let l = l\<lparr>lprev := (lprev l)(Head \<mapsto> pv)\<rparr>;
     let l = l\<lparr>lnext := (lnext l)(pv \<mapsto> Head)\<rparr>;
     let l = l\<lparr>lprev := (lprev l)(ptr := None)\<rparr>;
     let l = l\<lparr>lnext := (lnext l)(ptr := None)\<rparr>;
     case ptr of Head \<Rightarrow> None | Elem x \<Rightarrow> Some (Some x, l)
   })"

definition link_queue_del :: "'a \<Rightarrow> 'a links \<Rightarrow> 'a links option" where
  "link_queue_del x l = do {
     pv \<leftarrow> lprev l (Elem x);
     nx \<leftarrow> lnext l (Elem x);
     let l = l\<lparr>lnext := (lnext l)(pv \<mapsto> nx)\<rparr>;
     let l = l\<lparr>lprev := (lprev l)(nx \<mapsto> pv)\<rparr>;
     let l = l\<lparr>lnext := (lnext l)(Elem x := None)\<rparr>;
     Some (l\<lparr>lprev := (lprev l)(Elem x := None)\<rparr>)
   }"

definition link_queue_top :: "'a links \<Rightarrow> 'a option option" where
  "link_queue_top l = (if link_queue_empty l then Some None else do {
     ptr \<leftarrow> lprev l Head;
     case ptr of Head \<Rightarrow> None | Elem x \<Rightarrow> Some (Some x)
   })"

subsection \<open>The list view\<close>

fun queue_insert :: "('a \<Rightarrow> int) \<Rightarrow> 'a \<Rightarrow> 'a list \<Rightarrow> 'a list" where
  "queue_insert prio x [] = [x]"
| "queue_insert prio x (y # ys) =
     (if prio y < prio x then y # queue_insert prio x ys else x # y # ys)"

definition queue_add :: "('a \<Rightarrow> int) \<Rightarrow> 'a \<Rightarrow> 'a list \<Rightarrow> 'a list option" where
  "queue_add prio x q = (if x \<in> set q then None else Some (queue_insert prio x q))"

definition queue_del :: "'a \<Rightarrow> 'a list \<Rightarrow> 'a list option" where
  "queue_del x q = (if x \<in> set q then Some (remove1 x q) else None)"

definition queue_out :: "'a list \<Rightarrow> ('a option \<times> 'a list) option" where
  "queue_out q = Some (if q = [] then (None, []) else (Some (last q), butlast q))"

definition queue_top :: "'a list \<Rightarrow> 'a option option" where
  "queue_top q = Some (if q = [] then None else Some (last q))"

abbreviation prio_sorted :: "('a \<Rightarrow> int) \<Rightarrow> 'a list \<Rightarrow> bool" where
  "prio_sorted prio \<equiv> sorted_wrt (\<lambda>x y. prio x \<le> prio y)"

lemma set_queue_insert [simp]: "set (queue_insert prio x xs) = insert x (set xs)"
  by (induction xs) auto

lemma mset_queue_insert: "mset (queue_insert prio x xs) = add_mset x (mset xs)"
  by (induction xs) auto

lemma length_queue_insert [simp]: "length (queue_insert prio x xs) = Suc (length xs)"
  by (induction xs) auto

lemma queue_insert_not_Nil [simp]: "queue_insert prio x xs \<noteq> []"
  by (cases xs) auto

lemma distinct_queue_insert: "distinct (queue_insert prio x xs) \<longleftrightarrow> x \<notin> set xs \<and> distinct xs"
  by (induction xs) auto

lemma prio_sorted_queue_insert: "prio_sorted prio xs \<Longrightarrow> prio_sorted prio (queue_insert prio x xs)"
  by (induction xs) fastforce+

lemma queue_insert_split:
  "\<exists>as bs. xs = as @ bs \<and> queue_insert prio x xs = as @ x # bs
     \<and> (\<forall>a\<in>set as. prio a < prio x) \<and> (bs = [] \<or> prio x \<le> prio (hd bs))"
proof (induction xs)
  case Nil
  then show ?case by simp
next
  case (Cons y ys)
  show ?case
  proof (cases "prio y < prio x")
    case True
    from Cons obtain as bs where "ys = as @ bs" "queue_insert prio x ys = as @ x # bs"
      "\<forall>a\<in>set as. prio a < prio x" "bs = [] \<or> prio x \<le> prio (hd bs)" by auto
    with True show ?thesis by (intro exI [of _ "y # as"] exI [of _ bs]) simp
  next
    case False
    then show ?thesis by (intro exI [of _ "[]"] exI [of _ "y # ys"]) simp
  qed
qed

lemma prio_sorted_last:
  "prio_sorted prio xs \<Longrightarrow> y \<in> set xs \<Longrightarrow> prio y \<le> prio (last xs)"
  by (induction xs rule: rev_induct) (auto simp: sorted_wrt_append)

lemma queue_insert_front_unless_greater:
  "prio_sorted prio xs \<Longrightarrow> xs \<noteq> [] \<Longrightarrow> prio x \<le> prio (last xs) \<Longrightarrow>
   last (queue_insert prio x xs) = last xs"
  by (induction xs) (auto split: if_splits)

lemma queue_insert_new_front:
  "prio_sorted prio xs \<Longrightarrow> \<forall>y\<in>set xs. prio y < prio x \<Longrightarrow> queue_insert prio x xs = xs @ [x]"
  by (induction xs) auto

lemma filter_queue_insert:
  "prio_sorted prio xs \<Longrightarrow> filter (\<lambda>y. prio y = k) (queue_insert prio x xs)
    = (if prio x = k then [x] else []) @ filter (\<lambda>y. prio y = k) xs"
  by (induction xs) (auto simp: filter_empty_conv)

lemma length_fold_queue_insert:
  "length (fold (queue_insert prio) xs ys) = length xs + length ys"
  by (induction xs arbitrary: ys) auto

lemma fold_queue_insert_props:
  assumes "prio_sorted prio ys"
  shows "prio_sorted prio (fold (queue_insert prio) xs ys)"
    and "mset (fold (queue_insert prio) xs ys) = mset xs + mset ys"
    and "filter (\<lambda>y. prio y = k) (fold (queue_insert prio) xs ys)
      = rev (filter (\<lambda>y. prio y = k) xs) @ filter (\<lambda>y. prio y = k) ys"
  using assms
proof (induction xs arbitrary: ys)
  case Nil
  { case 1 then show ?case by simp }
  { case 2 then show ?case by simp }
  { case 3 then show ?case by simp }
next
  case (Cons x xs)
  { case 1 then show ?case by (simp add: Cons.IH prio_sorted_queue_insert) }
  { case 2 then show ?case by (simp add: Cons.IH prio_sorted_queue_insert mset_queue_insert) }
  { case 3 then show ?case by (simp add: Cons.IH prio_sorted_queue_insert filter_queue_insert) }
qed

text \<open>Adding elements one by one and reading the queue from its tail is a stable sort.\<close>

lemma rev_fold_queue_insert:
  "rev (fold (queue_insert prio) xs []) = sort_key (\<lambda>x. - prio x) xs"
proof (rule properties_for_sort_key [symmetric])
  let ?q = "fold (queue_insert prio) xs []"
  note props = fold_queue_insert_props [where prio = prio and ys = "[]" and xs = xs, simplified]
  show "mset (rev ?q) = mset xs" by (simp add: props(2))
  show "filter (\<lambda>x. - prio k = - prio x) (rev ?q) = filter (\<lambda>x. - prio k = - prio x) xs"
    if "k \<in> set (rev ?q)" for k
    using props(3) [of "prio k"] by (simp add: rev_filter [symmetric] eq_commute [of "prio k"])
  show "sorted (map (\<lambda>x. - prio x) (rev ?q))"
    using props(1) by (simp add: sorted_map sorted_wrt_rev)
qed

subsection \<open>Chains of links\<close>

fun chain :: "'a links \<Rightarrow> 'a node list \<Rightarrow> bool" where
  "chain l (a # b # p) \<longleftrightarrow> lnext l a = Some b \<and> lprev l b = Some a \<and> chain l (b # p)"
| "chain l _ \<longleftrightarrow> True"

definition queue_rep :: "'a links \<Rightarrow> 'a list \<Rightarrow> bool" where
  "queue_rep l xs \<longleftrightarrow> distinct xs \<and> chain l (Head # map Elem xs @ [Head])
     \<and> (\<forall>x. x \<notin> set xs \<longrightarrow> lprev l (Elem x) = None \<and> lnext l (Elem x) = None)"

lemma chain_append:
  "u \<noteq> [] \<Longrightarrow> w \<noteq> [] \<Longrightarrow>
   chain l (u @ w) \<longleftrightarrow> chain l u \<and> chain l w
     \<and> lnext l (last u) = Some (hd w) \<and> lprev l (hd w) = Some (last u)"
proof (induction u rule: induct_list012)
  case 1
  then show ?case by simp
next
  case (2 a)
  then show ?case by (cases w) auto
next
  case (3 a b p)
  then show ?case by auto
qed

lemma chain_upd_next [simp]:
  "a \<notin> set (butlast p) \<Longrightarrow> chain (l\<lparr>lnext := (lnext l)(a := v)\<rparr>) p = chain l p"
  by (induction l p rule: chain.induct) auto

lemma chain_upd_prev [simp]:
  "b \<notin> set (tl p) \<Longrightarrow> chain (l\<lparr>lprev := (lprev l)(b := v)\<rparr>) p = chain l p"
  by (induction l p rule: chain.induct) auto

lemma chain_fields: "lnext l = lnext l' \<Longrightarrow> lprev l = lprev l' \<Longrightarrow> chain l p = chain l' p"
  by (induction l p rule: chain.induct) auto

lemma queue_rep_LIST_HEAD_INIT: "queue_rep LIST_HEAD_INIT []"
  by (simp add: queue_rep_def LIST_HEAD_INIT_def)

text \<open>The search loop ends and stops at the first element whose priority is not smaller.\<close>

lemma queue_scan_chain:
  assumes "chain l (c # map Elem as @ w)" "\<forall>a\<in>set as. prio a < p" "w \<noteq> []"
    and "case hd w of Head \<Rightarrow> True | Elem y \<Rightarrow> p \<le> prio y"
  shows "queue_scan prio p l c = Some (hd w)"
  using assms
proof (induction as arbitrary: c)
  case Nil
  then obtain n w' where "w = n # w'" by (cases w) auto
  with Nil show ?case by (subst queue_scan.simps) (auto split: node.splits)
next
  case (Cons a as)
  from Cons.prems have "queue_scan prio p l (Elem a) = Some (hd w)"
    by (intro Cons.IH) auto
  with Cons.prems show ?case by (subst queue_scan.simps) auto
qed

text \<open>
  The three shapes of the chain around an element: before insertion, and with the element
  in place. \<open>head_part as\<close> ends with the predecessor, \<open>tail_part bs\<close> starts with the successor.
\<close>

abbreviation head_part :: "'a list \<Rightarrow> 'a node list" where
  "head_part as \<equiv> Head # map Elem as"

abbreviation tail_part :: "'a list \<Rightarrow> 'a node list" where
  "tail_part bs \<equiv> map Elem bs @ [Head]"

lemma tail_part_nonempty [simp]: "tail_part bs \<noteq> []"
  by simp

lemma pred_not_in_parts:
  assumes "distinct (as @ bs)"
  shows "last (head_part as) \<notin> set (butlast (head_part as))"
    and "last (head_part as) \<notin> set (butlast (tail_part bs))"
  using assms by (cases as rule: rev_cases; auto simp: butlast_append)+

lemma succ_not_in_parts:
  assumes "distinct (as @ bs)"
  shows "hd (tail_part bs) \<notin> set (tl (tail_part bs))"
    and "hd (tail_part bs) \<notin> set (tl (head_part as))"
  using assms by (cases bs; auto)+

lemma elem_not_in_parts:
  assumes "x \<notin> set (as @ bs)"
  shows "Elem x \<notin> set (head_part as)" "Elem x \<notin> set (tail_part bs)"
    and "Elem x \<noteq> last (head_part as)" "Elem x \<noteq> hd (tail_part bs)"
proof -
  show parts: "Elem x \<notin> set (head_part as)" "Elem x \<notin> set (tail_part bs)"
    using assms by auto
  show "Elem x \<noteq> last (head_part as)" using parts(1) last_in_set [of "head_part as"] by force
  show "Elem x \<noteq> hd (tail_part bs)" using parts(2) hd_in_set [of "tail_part bs"] by force
qed

lemma chain_parts:
  "chain l (Head # map Elem (as @ bs) @ [Head]) \<longleftrightarrow>
     chain l (head_part as) \<and> chain l (tail_part bs)
     \<and> lnext l (last (head_part as)) = Some (hd (tail_part bs))
     \<and> lprev l (hd (tail_part bs)) = Some (last (head_part as))"
  using chain_append [of "head_part as" "tail_part bs" l] by simp

lemma chain_parts_elem:
  "chain l (Head # map Elem (as @ x # bs) @ [Head]) \<longleftrightarrow>
     chain l (head_part as) \<and> chain l (tail_part bs)
     \<and> lnext l (last (head_part as)) = Some (Elem x) \<and> lprev l (Elem x) = Some (last (head_part as))
     \<and> lnext l (Elem x) = Some (hd (tail_part bs)) \<and> lprev l (hd (tail_part bs)) = Some (Elem x)"
proof -
  have "chain l (Elem x # tail_part bs) \<longleftrightarrow> chain l (tail_part bs)
      \<and> lnext l (Elem x) = Some (hd (tail_part bs)) \<and> lprev l (hd (tail_part bs)) = Some (Elem x)"
    using chain_append [of "[Elem x]" "tail_part bs" l] by auto
  then show ?thesis
    using chain_append [of "head_part as" "Elem x # tail_part bs" l] by auto
qed

lemma notin_butlast: "x \<notin> set p \<Longrightarrow> x \<notin> set (butlast p)"
  by (auto dest: in_set_butlastD)

lemma notin_tl: "x \<notin> set p \<Longrightarrow> x \<notin> set (tl p)"
  by (cases p) auto

lemma link_in:
  assumes "chain l (head_part as)" "chain l (tail_part bs)"
    and "distinct (as @ bs)" "x \<notin> set (as @ bs)"
  defines "pv \<equiv> last (head_part as)" and "nx \<equiv> hd (tail_part bs)"
  defines "l' \<equiv> l\<lparr>lnext := (lnext l)(Elem x \<mapsto> nx, pv \<mapsto> Elem x),
                   lprev := (lprev l)(Elem x \<mapsto> pv, nx \<mapsto> Elem x)\<rparr>"
  shows "chain l' (Head # map Elem (as @ x # bs) @ [Head])"
proof -
  note facts = pred_not_in_parts [OF assms(3), folded pv_def]
    succ_not_in_parts [OF assms(3), folded nx_def]
    elem_not_in_parts [OF assms(4), folded pv_def nx_def]
  have frame: "chain l' p = chain l p"
    if "Elem x \<notin> set p" "pv \<notin> set (butlast p)" "nx \<notin> set (tl p)" for p
  proof -
    let ?l1 = "l\<lparr>lnext := (lnext l)(Elem x \<mapsto> nx)\<rparr>"
    let ?l2 = "?l1\<lparr>lnext := (lnext ?l1)(pv \<mapsto> Elem x)\<rparr>"
    let ?l3 = "?l2\<lparr>lprev := (lprev ?l2)(Elem x \<mapsto> pv)\<rparr>"
    let ?l4 = "?l3\<lparr>lprev := (lprev ?l3)(nx \<mapsto> Elem x)\<rparr>"
    have "chain l' p = chain ?l4 p" by (simp add: l'_def)
    also have "\<dots> = chain ?l3 p" using that by (intro chain_upd_prev)
    also have "\<dots> = chain ?l2 p" using that by (intro chain_upd_prev notin_tl)
    also have "\<dots> = chain ?l1 p" using that by (intro chain_upd_next)
    also have "\<dots> = chain l p" using that by (intro chain_upd_next notin_butlast)
    finally show ?thesis .
  qed
  have "chain l' (head_part as)" "chain l' (tail_part bs)"
    using facts assms(1,2) frame [of "head_part as"] frame [of "tail_part bs"] by auto
  moreover have "lnext l' pv = Some (Elem x)" "lnext l' (Elem x) = Some nx"
    "lprev l' nx = Some (Elem x)" "lprev l' (Elem x) = Some pv"
    using facts(7,8) by (auto simp: l'_def)
  ultimately show ?thesis unfolding chain_parts_elem by (simp add: pv_def nx_def)
qed

lemma link_out:
  assumes "chain l (head_part as)" "chain l (tail_part bs)"
    and "distinct (as @ bs)" "x \<notin> set (as @ bs)"
  defines "pv \<equiv> last (head_part as)" and "nx \<equiv> hd (tail_part bs)"
  defines "l' \<equiv> l\<lparr>lnext := (lnext l)(pv \<mapsto> nx, Elem x := None),
                   lprev := (lprev l)(nx \<mapsto> pv, Elem x := None)\<rparr>"
  shows "chain l' (Head # map Elem (as @ bs) @ [Head])"
proof -
  note facts = pred_not_in_parts [OF assms(3), folded pv_def]
    succ_not_in_parts [OF assms(3), folded nx_def]
    elem_not_in_parts [OF assms(4), folded pv_def nx_def]
  have frame: "chain l' p = chain l p"
    if "Elem x \<notin> set p" "pv \<notin> set (butlast p)" "nx \<notin> set (tl p)" for p
  proof -
    let ?l1 = "l\<lparr>lnext := (lnext l)(pv \<mapsto> nx)\<rparr>"
    let ?l2 = "?l1\<lparr>lnext := (lnext ?l1)(Elem x := None)\<rparr>"
    let ?l3 = "?l2\<lparr>lprev := (lprev ?l2)(nx \<mapsto> pv)\<rparr>"
    let ?l4 = "?l3\<lparr>lprev := (lprev ?l3)(Elem x := None)\<rparr>"
    have "chain l' p = chain ?l4 p" by (simp add: l'_def)
    also have "\<dots> = chain ?l3 p" using that by (intro chain_upd_prev notin_tl)
    also have "\<dots> = chain ?l2 p" using that by (intro chain_upd_prev)
    also have "\<dots> = chain ?l1 p" using that by (intro chain_upd_next notin_butlast)
    also have "\<dots> = chain l p" using that by (intro chain_upd_next)
    finally show ?thesis .
  qed
  have "chain l' (head_part as)" "chain l' (tail_part bs)"
    using facts assms(1,2) frame [of "head_part as"] frame [of "tail_part bs"] by auto
  moreover have "lnext l' pv = Some nx" "lprev l' nx = Some pv"
    using facts(7,8) by (auto simp: l'_def)
  ultimately show ?thesis unfolding chain_parts by (simp add: pv_def nx_def)
qed

subsection \<open>The macros implement the list view\<close>

lemma link_queue_add_rep:
  assumes "queue_rep l xs" "x \<notin> set xs"
  shows "\<exists>l'. link_queue_add prio x l = Some l' \<and> queue_rep l' (queue_insert prio x xs)"
proof -
  obtain as bs where split: "xs = as @ bs" "queue_insert prio x xs = as @ x # bs"
    "\<forall>a\<in>set as. prio a < prio x" "bs = [] \<or> prio x \<le> prio (hd bs)"
    using queue_insert_split [of xs prio x] by blast
  let ?pv = "last (head_part as)" and ?nx = "hd (tail_part bs)"
  have parts: "chain l (head_part as)" "chain l (tail_part bs)" "lprev l ?nx = Some ?pv"
    and d: "distinct (as @ bs)" and nin: "x \<notin> set (as @ bs)"
    and free: "lprev l (Elem x) = None" "lnext l (Elem x) = None"
    and unused: "\<And>y. y \<notin> set xs \<Longrightarrow> lprev l (Elem y) = None \<and> lnext l (Elem y) = None"
    using assms chain_parts [of l as bs] by (auto simp: queue_rep_def split(1))
  have "queue_scan prio (prio x) l Head = Some ?nx"
    using assms(1) split by (intro queue_scan_chain [where as = as])
      (cases bs; auto simp: queue_rep_def)+
  then have "link_queue_add prio x l = Some (l
      \<lparr>lnext := (lnext l)(Elem x \<mapsto> ?nx, ?pv \<mapsto> Elem x),
       lprev := (lprev l)(Elem x \<mapsto> ?pv, ?nx \<mapsto> Elem x)\<rparr>)"
    using free parts(3) elem_not_in_parts(4) [OF nin]
    by (simp add: link_queue_add_def Let_def)
  moreover have "queue_rep (l\<lparr>lnext := (lnext l)(Elem x \<mapsto> ?nx, ?pv \<mapsto> Elem x),
       lprev := (lprev l)(Elem x \<mapsto> ?pv, ?nx \<mapsto> Elem x)\<rparr>) (as @ x # bs)"
    unfolding queue_rep_def
  proof (intro conjI allI impI)
    show "distinct (as @ x # bs)" using d nin by auto
  qed (use link_in [OF parts(1,2) d nin] in simp,
       (use unused split(1) last_in_set [of "head_part as"] hd_in_set [of "tail_part bs"] in force)+)
  ultimately show ?thesis using split(2) by auto
qed

lemma link_queue_del_rep:
  assumes "queue_rep l xs" "x \<in> set xs"
  shows "\<exists>l'. link_queue_del x l = Some l' \<and> queue_rep l' (remove1 x xs)"
proof -
  obtain as bs where split: "xs = as @ x # bs" and nin: "x \<notin> set (as @ bs)"
    and d: "distinct (as @ bs)" and rem: "remove1 x xs = as @ bs"
    using assms split_list [of x xs] by (force simp: queue_rep_def remove1_append)
  let ?pv = "last (head_part as)" and ?nx = "hd (tail_part bs)"
  have parts: "chain l (head_part as)" "chain l (tail_part bs)"
    "lnext l (Elem x) = Some ?nx" "lprev l (Elem x) = Some ?pv"
    and unused: "\<And>y. y \<notin> set xs \<Longrightarrow> lprev l (Elem y) = None \<and> lnext l (Elem y) = None"
    using assms chain_parts_elem [of l as x bs] by (auto simp: queue_rep_def split)
  have "link_queue_del x l = Some (l
      \<lparr>lnext := (lnext l)(?pv \<mapsto> ?nx, Elem x := None),
       lprev := (lprev l)(?nx \<mapsto> ?pv, Elem x := None)\<rparr>)"
    using parts(3,4) by (simp add: link_queue_del_def Let_def)
  moreover have "queue_rep (l\<lparr>lnext := (lnext l)(?pv \<mapsto> ?nx, Elem x := None),
       lprev := (lprev l)(?nx \<mapsto> ?pv, Elem x := None)\<rparr>) (as @ bs)"
    unfolding queue_rep_def
  proof (intro conjI allI impI)
    show "distinct (as @ bs)" by (rule d)
  qed (use link_out [OF parts(1,2) d nin] in simp,
       (use unused split last_in_set [of "head_part as"] hd_in_set [of "tail_part bs"] in force)+)
  ultimately show ?thesis using rem by auto
qed

lemma queue_rep_empty: "queue_rep l xs \<Longrightarrow> link_queue_empty l \<longleftrightarrow> xs = []"
  by (cases xs) (auto simp: queue_rep_def link_queue_empty_def)

lemma queue_rep_head_prev: "queue_rep l xs \<Longrightarrow> xs \<noteq> [] \<Longrightarrow> lprev l Head = Some (Elem (last xs))"
  using chain_parts [of l xs "[]"] by (simp add: queue_rep_def last_map)

text \<open>\<open>__queue_out\<close> unlinks the element before the head exactly as \<open>queue_del\<close> would.\<close>

lemma link_queue_out_is_del:
  assumes "queue_rep l xs" "xs \<noteq> []"
  shows "link_queue_out l = Option.bind (link_queue_del (last xs) l) (\<lambda>l'. Some (Some (last xs), l'))"
proof -
  from assms obtain as x where xs: "xs = as @ [x]" by (cases xs rule: rev_cases) auto
  have parts: "lprev l Head = Some (Elem x)" "lprev l (Elem x) = Some (last (head_part as))"
    "lnext l (Elem x) = Some Head"
    using assms chain_parts_elem [of l as x "[]"] by (auto simp: queue_rep_def xs)
  then show ?thesis using queue_rep_empty [OF assms(1)] assms(2)
    by (simp add: xs link_queue_out_def link_queue_del_def Let_def)
qed

subsection \<open>The interface the scheduler relies on\<close>

locale priority_queue =
  fixes add :: "('a \<Rightarrow> int) \<Rightarrow> 'a \<Rightarrow> 'q \<Rightarrow> 'q option"
    and del :: "'a \<Rightarrow> 'q \<Rightarrow> 'q option"
    and out :: "'q \<Rightarrow> ('a option \<times> 'q) option"
    and top_of :: "'q \<Rightarrow> 'a option option"
    and rep :: "'q \<Rightarrow> 'a list \<Rightarrow> bool"
  assumes add_new: "rep q xs \<Longrightarrow> x \<notin> set xs \<Longrightarrow>
      \<exists>q'. add prio x q = Some q' \<and> rep q' (queue_insert prio x xs)"
    and add_present: "rep q xs \<Longrightarrow> x \<in> set xs \<Longrightarrow> add prio x q = None"
    and del_present: "rep q xs \<Longrightarrow> x \<in> set xs \<Longrightarrow> \<exists>q'. del x q = Some q' \<and> rep q' (remove1 x xs)"
    and del_absent: "rep q xs \<Longrightarrow> x \<notin> set xs \<Longrightarrow> del x q = None"
    and out_empty: "rep q [] \<Longrightarrow> out q = Some (None, q)"
    and out_last: "rep q xs \<Longrightarrow> xs \<noteq> [] \<Longrightarrow>
      \<exists>q'. out q = Some (Some (last xs), q') \<and> rep q' (butlast xs)"
    and top_last: "rep q xs \<Longrightarrow> top_of q = Some (if xs = [] then None else Some (last xs))"
begin

text \<open>The element served is one of highest priority, and what is left stays sorted.\<close>

lemma out_highest:
  assumes "rep q xs" "prio_sorted prio xs" "xs \<noteq> []"
  shows "\<exists>x q'. out q = Some (Some x, q') \<and> top_of q = Some (Some x) \<and> x \<in> set xs
    \<and> (\<forall>y\<in>set xs. prio y \<le> prio x) \<and> rep q' (butlast xs)
    \<and> prio_sorted prio (butlast xs)"
proof -
  obtain q' where "out q = Some (Some (last xs), q')" "rep q' (butlast xs)"
    using out_last [OF assms(1,3)] by blast
  moreover have "prio_sorted prio (butlast xs)"
    using assms(2,3) by (cases xs rule: rev_cases) (auto simp: sorted_wrt_append)
  ultimately show ?thesis using assms prio_sorted_last [OF assms(2)] top_last [OF assms(1)] by auto
qed

primrec add_all :: "('a \<Rightarrow> int) \<Rightarrow> 'a list \<Rightarrow> 'q \<Rightarrow> 'q option" where
  "add_all prio [] q = Some q"
| "add_all prio (x # xs) q = Option.bind (add prio x q) (add_all prio xs)"

primrec drain :: "nat \<Rightarrow> 'q \<Rightarrow> ('a list \<times> 'q) option" where
  "drain 0 q = Some ([], q)"
| "drain (Suc n) q = Option.bind (out q) (\<lambda>(r, q'). case r of
     None \<Rightarrow> Some ([], q')
   | Some x \<Rightarrow> Option.bind (drain n q') (\<lambda>(xs, q''). Some (x # xs, q'')))"

lemma add_all_rep:
  "rep q ys \<Longrightarrow> distinct xs \<Longrightarrow> set xs \<inter> set ys = {} \<Longrightarrow>
   \<exists>q'. add_all prio xs q = Some q' \<and> rep q' (fold (queue_insert prio) xs ys)"
proof (induction xs arbitrary: q ys)
  case Nil
  then show ?case by simp
next
  case (Cons x xs)
  from Cons.prems obtain q1 where q1: "add prio x q = Some q1" "rep q1 (queue_insert prio x ys)"
    using add_new [of q ys x prio] by auto
  from Cons.prems Cons.IH [OF q1(2)] q1(1) show ?case by auto
qed

lemma drain_rep:
  "rep q xs \<Longrightarrow> \<exists>q'. drain (length xs) q = Some (rev xs, q') \<and> rep q' []"
proof (induction xs arbitrary: q rule: rev_induct)
  case Nil
  then show ?case by simp
next
  case (snoc x xs)
  obtain q1 where q1: "out q = Some (Some x, q1)" "rep q1 xs"
    using out_last [OF snoc.prems] by auto
  with snoc.IH [OF q1(2)] show ?case by auto
qed

text \<open>Draining serves decreasing priorities, in order of arrival among equals.\<close>

lemma add_all_drain:
  assumes "rep q []" "distinct xs"
  shows "\<exists>q' q''. add_all prio xs q = Some q'
    \<and> drain (length xs) q' = Some (sort_key (\<lambda>x. - prio x) xs, q'') \<and> rep q'' []"
proof -
  from add_all_rep [OF assms] obtain q' where q': "add_all prio xs q = Some q'"
    "rep q' (fold (queue_insert prio) xs [])" by auto
  from drain_rep [OF q'(2)] q'(1) show ?thesis
    by (simp add: length_fold_queue_insert rev_fold_queue_insert)
qed

end

subsection \<open>The two views are instances of the interface\<close>

interpretation lq: priority_queue link_queue_add link_queue_del link_queue_out link_queue_top queue_rep
proof unfold_locales
  fix l :: "'a links" and xs x prio
  show "\<exists>l'. link_queue_add prio x l = Some l' \<and> queue_rep l' (queue_insert prio x xs)"
    if "queue_rep l xs" "x \<notin> set xs"
    using that by (rule link_queue_add_rep)
  show "\<exists>l'. link_queue_del x l = Some l' \<and> queue_rep l' (remove1 x xs)"
    if "queue_rep l xs" "x \<in> set xs"
    using that by (rule link_queue_del_rep)
  show "link_queue_add prio x l = None" if rep: "queue_rep l xs" "x \<in> set xs"
  proof -
    from rep obtain as bs where "xs = as @ x # bs" by (auto dest: split_list)
    then have "lnext l (Elem x) = Some (hd (tail_part bs))"
      using rep(1) chain_parts_elem [of l as x bs] by (simp add: queue_rep_def)
    then show ?thesis by (simp add: link_queue_add_def)
  qed
  show "link_queue_del x l = None" if "queue_rep l xs" "x \<notin> set xs"
    using that by (simp add: queue_rep_def link_queue_del_def)
  show "link_queue_out l = Some (None, l)" if "queue_rep l []"
    using that queue_rep_empty by (auto simp: link_queue_out_def)
  show "\<exists>l'. link_queue_out l = Some (Some (last xs), l') \<and> queue_rep l' (butlast xs)"
    if rep: "queue_rep l xs" "xs \<noteq> []"
  proof -
    obtain as x where xs: "xs = as @ [x]" using rep(2) by (cases xs rule: rev_cases) auto
    moreover have "x \<notin> set as" using rep(1) xs by (auto simp: queue_rep_def)
    ultimately show ?thesis
      using link_queue_out_is_del [OF rep] link_queue_del_rep [OF rep(1), of x]
      by (auto simp: remove1_append)
  qed
  show "link_queue_top l = Some (if xs = [] then None else Some (last xs))" if "queue_rep l xs"
    using that queue_rep_empty [OF that] queue_rep_head_prev [OF that]
    by (auto simp: link_queue_top_def)
qed

interpretation vq: priority_queue queue_add queue_del queue_out queue_top "\<lambda>q xs. q = xs"
  by unfold_locales (auto simp: queue_add_def queue_del_def queue_out_def queue_top_def)

subsection \<open>Properties\<close>

text \<open>C32: the macros of \<^verbatim>\<open>queue.h\<close> on well-formed links: \<open>queue_add\<close> inserts before the
  first element whose priority is not smaller and refuses an element already linked,
  \<open>queue_del\<close> takes the element out and refuses an unlinked one, \<open>queue_out\<close> and \<open>queue_top\<close>
  give the element before the head, \<open>NULL\<close> on an empty queue; the links stay well formed.\<close>

theorem queue_macros_refine_lists:
  assumes "queue_rep l xs"
  shows "(case queue_add prio x xs of
        None \<Rightarrow> link_queue_add prio x l = None
      | Some ys \<Rightarrow> \<exists>l'. link_queue_add prio x l = Some l' \<and> queue_rep l' ys)
    \<and> (case queue_del x xs of
        None \<Rightarrow> link_queue_del x l = None
      | Some ys \<Rightarrow> \<exists>l'. link_queue_del x l = Some l' \<and> queue_rep l' ys)
    \<and> (\<exists>l'. link_queue_out l = Some (fst (the (queue_out xs)), l') \<and> queue_rep l' (snd (the (queue_out xs))))
    \<and> link_queue_top l = queue_top xs"
proof -
  have "\<exists>l'. link_queue_out l = Some (fst (the (queue_out xs)), l') \<and> queue_rep l' (snd (the (queue_out xs)))"
    using lq.out_empty [of l] lq.out_last [of l xs] assms by (cases "xs = []") (auto simp: queue_out_def)
  moreover have "case queue_add prio x xs of None \<Rightarrow> link_queue_add prio x l = None
      | Some ys \<Rightarrow> \<exists>l'. link_queue_add prio x l = Some l' \<and> queue_rep l' ys"
    using lq.add_present [OF assms] lq.add_new [OF assms] by (simp add: queue_add_def)
  moreover have "case queue_del x xs of None \<Rightarrow> link_queue_del x l = None
      | Some ys \<Rightarrow> \<exists>l'. link_queue_del x l = Some l' \<and> queue_rep l' ys"
    using lq.del_present [OF assms] lq.del_absent [OF assms] by (simp add: queue_del_def)
  ultimately show ?thesis using lq.top_last [OF assms] by (simp add: queue_top_def)
qed

theorem queue_macros_refine_lists_witness:
  "\<exists>l :: nat links. queue_rep l [4] \<and> link_queue_top l = Some (Some 4)
    \<and> (\<exists>l'. link_queue_add int 9 l = Some l' \<and> queue_rep l' [4, 9]) \<and> link_queue_add int 4 l = None"
proof -
  obtain l :: "nat links" where l: "queue_rep l [4]"
    using link_queue_add_rep [OF queue_rep_LIST_HEAD_INIT, of "4::nat" int] by auto
  with queue_macros_refine_lists [OF l, of int 9] queue_macros_refine_lists [OF l, of int 4]
  show ?thesis by (auto simp: queue_add_def queue_top_def)
qed

text \<open>elements added to an empty queue and then taken out one by one come out by decreasing
  priority, first come first served among equal priorities: the queue is a stable sort.\<close>

theorem queue_drain_stable_sort:
  assumes "distinct xs"
  shows "\<exists>l' l''. lq.add_all prio xs LIST_HEAD_INIT = Some l'
    \<and> lq.drain (length xs) l' = Some (sort_key (\<lambda>x. - prio x) xs, l'') \<and> link_queue_empty l''"
  using lq.add_all_drain [OF queue_rep_LIST_HEAD_INIT assms, of prio] queue_rep_empty by blast

theorem queue_drain_stable_sort_witness:
  "\<exists>l' l''. lq.add_all (\<lambda>n. int (n mod 10)) [11, 23, 31, 42::nat] LIST_HEAD_INIT = Some l'
    \<and> lq.drain 4 l' = Some ([23, 42, 11, 31], l'')"
proof -
  have sorted: "sort_key (\<lambda>n. - int (n mod 10)) [11, 23, 31, 42::nat] = [23, 42, 11, 31]"
    and len: "length [11, 23, 31, 42::nat] = 4" and d: "distinct [11, 23, 31, 42::nat]"
    by (simp_all add: sort_key_def)
  from queue_drain_stable_sort [OF d, of "\<lambda>n. int (n mod 10)"] show ?thesis
    unfolding sorted len by blast
qed

end
