(* ===== verification/Message_Queue.thy ===== *)
theory Message_Queue
  imports Ring
begin

text \<open>
  The data structures of \<^verbatim>\<open>kernel/message_queue.c\<close>: the list of processes blocked on a queue
  (\<open>process_queue_t\<close>), the circular message buffer (\<open>message_queue_t\<close>), the table of queues
  with its pool of free identifiers, and the operations on them that need no scheduler:
  creation, counting and the two notifications \<^verbatim>\<open>process.c\<close> sends. The primitives that block
  and wake processes are in \<open>Ipc\<close>.

  The doubly linked list of blocked processes is a HOL list from \<open>first\<close> to \<open>last\<close> beside the
  separate \<open>size\<close> counter of the code. The message field of a blocked receiver, which the
  code leaves uninitialised, is 0.
\<close>

definition NBQUEUE :: nat where "NBQUEUE = 64"

definition PROCESS_TABLE_MAX_SIZE :: nat where "PROCESS_TABLE_MAX_SIZE = 512"

definition MESSAGE_QUEUE_BUFFER_MAX_SIZE :: int where "MESSAGE_QUEUE_BUFFER_MAX_SIZE = 536870911"

record process_node_content_t =
  c_pid :: int
  c_message :: int
  c_destination :: nat
  c_priority :: int

record process_queue_t =
  pq_nodes :: "process_node_content_t list"
  pq_size :: nat

record message_queue_t =
  buffer :: nat
  buffer_cells :: "nat \<Rightarrow> int"
  nb_messages :: nat
  mq_size :: nat
  message_consume_index :: int
  message_produce_index :: int
  locked_processes :: "process_queue_t option"

record message_queue_table_t =
  mq_data :: "nat \<Rightarrow> message_queue_t"
  fids :: "nat \<Rightarrow> int"
  fids_consume_index :: int
  fids_release_index :: int
  mq_current_size :: nat
  reset_releases :: "nat \<Rightarrow> bool"

definition empty_message_queue :: message_queue_t where
  "empty_message_queue = \<lparr>buffer = 0, buffer_cells = (\<lambda>_. 0), nb_messages = 0, mq_size = 0,
     message_consume_index = 0, message_produce_index = 0, locked_processes = None\<rparr>"

text \<open>The table is a global of static storage, zeroed before the kernel runs.\<close>

definition message_queue_table :: message_queue_table_t where
  "message_queue_table = \<lparr>mq_data = (\<lambda>_. empty_message_queue), fids = (\<lambda>_. 0), fids_consume_index = 0,
     fids_release_index = 0, mq_current_size = 0, reset_releases = (\<lambda>_. False)\<rparr>"

subsection \<open>The list of blocked processes\<close>

definition process_queue_create :: process_queue_t where
  "process_queue_create = \<lparr>pq_nodes = [], pq_size = 0\<rparr>"

text \<open>The loop of \<open>process_queue_add_on_priority\<close>, which walks from \<open>last\<close> towards \<open>first\<close>.\<close>

fun insert_from_last ::
  "process_node_content_t \<Rightarrow> process_node_content_t list \<Rightarrow> process_node_content_t list" where
  "insert_from_last c [] = [c]"
| "insert_from_last c (x # xs) =
     (if c_priority x > c_priority c then c # x # xs else x # insert_from_last c xs)"

definition process_queue_add_on_priority ::
  "process_queue_t \<Rightarrow> process_node_content_t \<Rightarrow> heap \<Rightarrow> (process_queue_t \<times> heap) option" where
  "process_queue_add_on_priority q c h = do {
     let (new, h) = heap_alloc h;
     kassert (new \<noteq> 0);
     Some (q\<lparr>pq_nodes := rev (insert_from_last c (rev (pq_nodes q))),
             pq_size := u32_inc (pq_size q)\<rparr>, h)
   }"

definition process_queue_remove_first_with_pid ::
  "process_queue_t \<Rightarrow> int \<Rightarrow> process_node_content_t option \<times> process_queue_t" where
  "process_queue_remove_first_with_pid q p =
     (case find (\<lambda>c. c_pid c = p) (pq_nodes q) of
        Some c \<Rightarrow> (Some c, q\<lparr>pq_nodes := remove_first_with (\<lambda>c. c_pid c = p) (pq_nodes q),
                            pq_size := u32_dec (pq_size q)\<rparr>)
      | None \<Rightarrow> (None, q))"

definition process_queue_remove_first ::
  "process_queue_t \<Rightarrow> (process_node_content_t \<times> process_queue_t) option" where
  "process_queue_remove_first q =
     (case pq_nodes q of
        [] \<Rightarrow> None
      | c # cs \<Rightarrow> Some (c, q\<lparr>pq_nodes := cs, pq_size := u32_dec (pq_size q)\<rparr>))"

subsection \<open>The message buffer\<close>

definition message_queue_register :: "message_queue_t \<Rightarrow> int \<Rightarrow> message_queue_t option" where
  "message_queue_register q message = do {
     kassert (message_produce_index q \<noteq> INDEXES_LOCK_VALUE);
     let q = q\<lparr>buffer_cells := (buffer_cells q)(nat (message_produce_index q) := message)\<rparr>;
     let q = (if message_consume_index q = INDEXES_LOCK_VALUE
              then q\<lparr>message_consume_index := message_produce_index q\<rparr> else q);
     kassert (mq_size q \<noteq> 0);
     let q = q\<lparr>message_produce_index := (message_produce_index q + 1) mod int (mq_size q)\<rparr>;
     let q = (if message_produce_index q = message_consume_index q
              then q\<lparr>message_produce_index := INDEXES_LOCK_VALUE\<rparr> else q);
     Some (q\<lparr>nb_messages := u32_inc (nb_messages q)\<rparr>)
   }"

definition message_queue_unregister :: "message_queue_t \<Rightarrow> (int \<times> message_queue_t) option" where
  "message_queue_unregister q = do {
     kassert (message_consume_index q \<noteq> INDEXES_LOCK_VALUE);
     let message = buffer_cells q (nat (message_consume_index q));
     let q = (if message_produce_index q = INDEXES_LOCK_VALUE
              then q\<lparr>message_produce_index := message_consume_index q\<rparr> else q);
     kassert (mq_size q \<noteq> 0);
     let q = q\<lparr>message_consume_index := (message_consume_index q + 1) mod int (mq_size q)\<rparr>;
     let q = (if message_consume_index q = message_produce_index q
              then q\<lparr>message_consume_index := INDEXES_LOCK_VALUE\<rparr> else q);
     Some (message, q\<lparr>nb_messages := u32_dec (nb_messages q)\<rparr>)
   }"

subsection \<open>The table of queues\<close>

definition message_queue_table_register ::
  "message_queue_table_t \<Rightarrow> (int \<times> message_queue_table_t) option" where
  "message_queue_table_register t = do {
     kassert (fids_consume_index t \<noteq> INDEXES_LOCK_VALUE);
     let fid = fids t (nat (fids_consume_index t));
     let t = (if fids_release_index t = INDEXES_LOCK_VALUE
              then t\<lparr>fids_release_index := fids_consume_index t\<rparr> else t);
     let t = t\<lparr>fids_consume_index := (fids_consume_index t + 1) mod int NBQUEUE\<rparr>;
     let t = (if fids_consume_index t = fids_release_index t
              then t\<lparr>fids_consume_index := INDEXES_LOCK_VALUE\<rparr> else t);
     Some (fid, t\<lparr>mq_current_size := u32_inc (mq_current_size t)\<rparr>)
   }"

definition message_queue_table_unregister ::
  "message_queue_table_t \<Rightarrow> int \<Rightarrow> message_queue_table_t option" where
  "message_queue_table_unregister t fid = do {
     kassert (fids_release_index t \<noteq> INDEXES_LOCK_VALUE);
     let t = t\<lparr>fids := (fids t)(nat (fids_release_index t) := fid)\<rparr>;
     let t = (if fids_consume_index t = INDEXES_LOCK_VALUE
              then t\<lparr>fids_consume_index := fids_release_index t\<rparr> else t);
     let t = t\<lparr>fids_release_index := (fids_release_index t + 1) mod int NBQUEUE\<rparr>;
     let t = (if fids_release_index t = fids_consume_index t
              then t\<lparr>fids_release_index := INDEXES_LOCK_VALUE\<rparr> else t);
     Some (t\<lparr>mq_current_size := u32_dec (mq_current_size t)\<rparr>)
   }"

definition message_queues_init :: "message_queue_table_t \<Rightarrow> message_queue_table_t" where
  "message_queues_init t = t\<lparr>
     mq_data := (\<lambda>i. if i < NBQUEUE then empty_message_queue else mq_data t i),
     fids := (\<lambda>i. if i < NBQUEUE then int i else fids t i),
     reset_releases := (\<lambda>j. if j < PROCESS_TABLE_MAX_SIZE then False else reset_releases t j),
     fids_consume_index := 0,
     fids_release_index := INDEXES_LOCK_VALUE,
     mq_current_size := 0\<rparr>"

text \<open>
  One queue of \<open>message_queues_notify_priority_changed\<close>: the blocked entry of the process is
  taken out and put back with the new priority. (The code then reads the \<open>next\<close> field of the
  entry it has freed; a process has at most one entry, so the rest of its walk finds nothing.)
\<close>

definition process_queue_change_priority ::
  "process_queue_t \<Rightarrow> int \<Rightarrow> int \<Rightarrow> heap \<Rightarrow> (process_queue_t \<times> heap) option" where
  "process_queue_change_priority q p new_priority h =
     (case process_queue_remove_first_with_pid q p of
        (None, q') \<Rightarrow> Some (q', h)
      | (Some c, q') \<Rightarrow> process_queue_add_on_priority q' (c\<lparr>c_priority := new_priority\<rparr>) h)"

fun notify_priority_loop ::
  "int \<Rightarrow> int \<Rightarrow> nat list \<Rightarrow> message_queue_table_t \<Rightarrow> heap \<Rightarrow> (message_queue_table_t \<times> heap) option"
  where
  "notify_priority_loop p np [] t h = Some (t, h)"
| "notify_priority_loop p np (i # is) t h =
     (if mq_size (mq_data t i) > 0 then do {
        lp \<leftarrow> locked_processes (mq_data t i);
        (lp, h) \<leftarrow> process_queue_change_priority lp p np h;
        notify_priority_loop p np is
          (t\<lparr>mq_data := (mq_data t)(i := (mq_data t i)\<lparr>locked_processes := Some lp\<rparr>)\<rparr>) h
      } else notify_priority_loop p np is t h)"

definition message_queues_notify_priority_changed ::
  "int \<Rightarrow> int \<Rightarrow> message_queue_table_t \<Rightarrow> heap \<Rightarrow> (message_queue_table_t \<times> heap) option" where
  "message_queues_notify_priority_changed p new_priority t h =
     notify_priority_loop p new_priority [0..<NBQUEUE] t h"

fun notify_killed_loop ::
  "int \<Rightarrow> nat list \<Rightarrow> message_queue_table_t \<Rightarrow> message_queue_table_t option" where
  "notify_killed_loop p [] t = Some t"
| "notify_killed_loop p (i # is) t =
     (if mq_size (mq_data t i) > 0 then do {
        lp \<leftarrow> locked_processes (mq_data t i);
        let lp = snd (process_queue_remove_first_with_pid lp p);
        notify_killed_loop p is
          (t\<lparr>mq_data := (mq_data t)(i := (mq_data t i)\<lparr>locked_processes := Some lp\<rparr>)\<rparr>)
      } else notify_killed_loop p is t)"

definition message_queues_notify_processus_killed ::
  "int \<Rightarrow> message_queue_table_t \<Rightarrow> message_queue_table_t option" where
  "message_queues_notify_processus_killed p t = notify_killed_loop p [0..<NBQUEUE] t"

subsection \<open>Creation and counting\<close>

definition pcreate ::
  "int \<Rightarrow> message_queue_table_t \<Rightarrow> heap \<Rightarrow> (int \<times> message_queue_table_t \<times> heap) option" where
  "pcreate cnt t h =
     (if cnt < 1 \<or> mq_current_size t \<ge> NBQUEUE \<or> cnt > MESSAGE_QUEUE_BUFFER_MAX_SIZE
      then Some (-1, t, h)
      else do {
        (fid, t) \<leftarrow> message_queue_table_register t;
        let (buf, h) = heap_alloc h;
        let q = (mq_data t (nat fid))\<lparr>buffer := buf\<rparr>;
        let t = t\<lparr>mq_data := (mq_data t)(nat fid := q)\<rparr>;
        if buf = 0 then do {
          t \<leftarrow> message_queue_table_unregister t fid;
          Some (-1, t, h)
        } else do {
          let (lp, h) = heap_alloc h;
          kassert (lp \<noteq> 0);
          let q = q\<lparr>mq_size := nat cnt, locked_processes := Some process_queue_create\<rparr>;
          Some (fid, t\<lparr>mq_data := (mq_data t)(nat fid := q)\<rparr>, h)
        }
      })"

definition valid_fid :: "int \<Rightarrow> message_queue_table_t \<Rightarrow> bool" where
  "valid_fid fid t \<longleftrightarrow> \<not> (fid < 0 \<or> fid \<ge> int NBQUEUE \<or> buffer (mq_data t (nat fid)) = 0)"

definition pcount_value :: "message_queue_t \<Rightarrow> int option" where
  "pcount_value q = do {
     lp \<leftarrow> locked_processes q;
     Some (if nb_messages q = 0 then - int (pq_size lp)
           else int (nb_messages q) + int (pq_size lp))
   }"

lemmas mq_defs [mq_simps] =
  message_queue_register_def message_queue_unregister_def
  message_queue_table_register_def message_queue_table_unregister_def

subsection \<open>The buffer and the identifier pool are rings\<close>

interpretation mbuf: lock_ring message_queue_register message_queue_unregister buffer_cells
  message_consume_index message_produce_index nb_messages mq_size
  "\<lambda>q. int (mq_size q) \<le> MESSAGE_QUEUE_BUFFER_MAX_SIZE"
  by unfold_locales
    (auto simp: mq_simps Let_def MESSAGE_QUEUE_BUFFER_MAX_SIZE_def u32_dec_pos)

interpretation fidpool: lock_ring message_queue_table_unregister message_queue_table_register fids
  fids_consume_index fids_release_index "\<lambda>t. NBQUEUE - mq_current_size t" "\<lambda>_. NBQUEUE"
  "\<lambda>t. mq_current_size t \<le> NBQUEUE"
  by unfold_locales (auto simp: mq_simps Let_def NBQUEUE_def u32_dec_pos)

subsection \<open>Blocked processes are served by priority\<close>

abbreviation by_priority :: "process_node_content_t list \<Rightarrow> bool" where
  "by_priority \<equiv> sorted_wrt (\<lambda>x y. c_priority x \<ge> c_priority y)"

definition pq_ok :: "process_queue_t \<Rightarrow> bool" where
  "pq_ok q \<longleftrightarrow> pq_size q = length (pq_nodes q) \<and> length (pq_nodes q) \<le> PROCESS_TABLE_MAX_SIZE
     \<and> by_priority (pq_nodes q)"

lemma mset_insert_from_last: "mset (insert_from_last c xs) = add_mset c (mset xs)"
  by (induction xs) auto

lemma set_insert_from_last [simp]: "set (insert_from_last c xs) = insert c (set xs)"
  by (induction xs) auto

lemma length_insert_from_last [simp]: "length (insert_from_last c xs) = Suc (length xs)"
  by (induction xs) auto

lemma sorted_insert_from_last:
  "sorted_wrt (\<lambda>x y. c_priority x \<le> c_priority y) xs \<Longrightarrow>
   sorted_wrt (\<lambda>x y. c_priority x \<le> c_priority y) (insert_from_last c xs)"
  by (induction xs) fastforce+

lemma by_priority_add:
  "by_priority xs \<Longrightarrow> by_priority (rev (insert_from_last c (rev xs)))"
  using sorted_insert_from_last [of "rev xs" c] by (simp add: sorted_wrt_rev)

lemma process_queue_create_ok [simp]: "pq_ok process_queue_create"
  by (simp add: pq_ok_def process_queue_create_def)

lemma process_queue_add_ok:
  assumes "pq_ok q" "process_queue_add_on_priority q c h = Some (q', h')"
    and "length (pq_nodes q) < PROCESS_TABLE_MAX_SIZE"
  shows "pq_ok q' \<and> mset (pq_nodes q') = add_mset c (mset (pq_nodes q))"
  using assms
  by (auto simp: process_queue_add_on_priority_def pq_ok_def Let_def by_priority_add
      mset_insert_from_last PROCESS_TABLE_MAX_SIZE_def split: prod.splits if_splits)

lemma process_queue_remove_first_ok:
  assumes "pq_ok q" "process_queue_remove_first q = Some (c, q')"
  shows "pq_ok q' \<and> pq_nodes q = c # pq_nodes q' \<and> (\<forall>x\<in>set (pq_nodes q'). c_priority x \<le> c_priority c)"
  using assms
  by (auto simp: process_queue_remove_first_def pq_ok_def PROCESS_TABLE_MAX_SIZE_def
      split: list.splits)

lemma process_queue_remove_pid_ok:
  assumes "pq_ok q" "process_queue_remove_first_with_pid q p = (r, q')"
  shows "pq_ok q' \<and> pq_nodes q' = remove_first_with (\<lambda>c. c_pid c = p) (pq_nodes q)
    \<and> r = find (\<lambda>c. c_pid c = p) (pq_nodes q)"
proof (cases "find (\<lambda>c. c_pid c = p) (pq_nodes q)")
  case None
  then have "\<not> (\<exists>c\<in>set (pq_nodes q). c_pid c = p)" by (auto simp: find_None_iff)
  with assms None show ?thesis
    by (auto simp: process_queue_remove_first_with_pid_def)
next
  case (Some c)
  then have "\<exists>c\<in>set (pq_nodes q). c_pid c = p" by (auto simp: find_Some_iff)
  moreover from this have "pq_nodes q \<noteq> []" by auto
  ultimately show ?thesis
    using assms Some
    by (auto simp: process_queue_remove_first_with_pid_def pq_ok_def length_remove_first_with
        sorted_wrt_remove_first_with u32_dec_pos PROCESS_TABLE_MAX_SIZE_def)
qed

subsection \<open>Well-formed queues and tables\<close>

text \<open>The messages a queue holds, oldest first, and the free queue identifiers, next first.\<close>

definition messages :: "message_queue_t \<Rightarrow> int list" where
  "messages q = ring_list (buffer_cells q) (mq_size q) (message_consume_index q) (nb_messages q)"

definition buffer_ok :: "message_queue_t \<Rightarrow> bool" where
  "buffer_ok q \<longleftrightarrow> int (mq_size q) \<le> MESSAGE_QUEUE_BUFFER_MAX_SIZE
     \<and> ring_ok (mq_size q) (message_consume_index q) (message_produce_index q) (nb_messages q)"

definition free_fids :: "message_queue_table_t \<Rightarrow> int list" where
  "free_fids t = ring_list (fids t) NBQUEUE (fids_consume_index t) (NBQUEUE - mq_current_size t)"

definition fids_ok :: "message_queue_table_t \<Rightarrow> bool" where
  "fids_ok t \<longleftrightarrow> mq_current_size t \<le> NBQUEUE
     \<and> ring_ok NBQUEUE (fids_consume_index t) (fids_release_index t) (NBQUEUE - mq_current_size t)"

lemmas mbuf_put = mbuf.fifo.put_room [folded messages_def buffer_ok_def]
lemmas mbuf_get = mbuf.fifo.get_some [folded messages_def buffer_ok_def]
lemmas fid_put = fidpool.fifo.put_room [folded free_fids_def fids_ok_def]
lemmas fid_get = fidpool.fifo.get_some [folded free_fids_def fids_ok_def]

lemma length_messages [simp]: "length (messages q) = nb_messages q"
  by (simp add: messages_def)

lemma length_free_fids [simp]: "length (free_fids t) = NBQUEUE - mq_current_size t"
  by (simp add: free_fids_def)

definition mq_inv :: "message_queue_t \<Rightarrow> bool" where
  "mq_inv q \<longleftrightarrow>
     (if buffer q = 0 then nb_messages q = 0 \<and> mq_size q = 0 \<and> message_consume_index q = 0
        \<and> message_produce_index q = 0 \<and> locked_processes q = None
      else buffer_ok q \<and> (\<exists>lp. locked_processes q = Some lp \<and> pq_ok lp
        \<and> (pq_nodes lp \<noteq> [] \<longrightarrow> nb_messages q = 0 \<or> nb_messages q = mq_size q)))"

definition mqt_inv :: "message_queue_table_t \<Rightarrow> bool" where
  "mqt_inv t \<longleftrightarrow> fids_ok t \<and> distinct (free_fids t)
     \<and> (\<forall>fid \<in> set (free_fids t). 0 \<le> fid \<and> fid < int NBQUEUE)
     \<and> (\<forall>i < NBQUEUE. mq_inv (mq_data t i)
          \<and> (buffer (mq_data t i) = 0 \<longleftrightarrow> int i \<in> set (free_fids t)))"

lemma mq_inv_empty [simp]: "mq_inv empty_message_queue"
  by (simp add: mq_inv_def empty_message_queue_def)

lemma free_fids_init: "free_fids (message_queues_init t) = map int [0..<NBQUEUE]"
  by (simp add: free_fids_def ring_list_def message_queues_init_def)

lemma mqt_inv_init: "mqt_inv (message_queues_init t)"
proof -
  have "fids_ok (message_queues_init t)"
    by (simp add: fids_ok_def ring_ok_def message_queues_init_def INDEXES_LOCK_VALUE_def NBQUEUE_def)
  moreover have "mq_data (message_queues_init t) i = empty_message_queue" if "i < NBQUEUE" for i
    using that by (simp add: message_queues_init_def)
  moreover have "buffer empty_message_queue = 0" by (simp add: empty_message_queue_def)
  ultimately show ?thesis
    by (auto simp: mqt_inv_def free_fids_init distinct_map)
qed

subsection \<open>Queue creation\<close>

lemma table_register_frame:
  "message_queue_table_register t = Some (fid, t') \<Longrightarrow>
   mq_data t' = mq_data t \<and> reset_releases t' = reset_releases t"
  by (auto simp: mq_simps Let_def split: if_splits)

lemma table_unregister_frame:
  "message_queue_table_unregister t fid = Some t' \<Longrightarrow>
   mq_data t' = mq_data t \<and> reset_releases t' = reset_releases t"
  by (auto simp: mq_simps Let_def split: if_splits)

lemma ring_fields_mq_data [simp]:
  "free_fids (t\<lparr>mq_data := d\<rparr>) = free_fids t" "fids_ok (t\<lparr>mq_data := d\<rparr>) = fids_ok t"
  by (simp_all add: free_fids_def fids_ok_def)

lemma table_register_mq_data:
  "message_queue_table_unregister (t\<lparr>mq_data := d\<rparr>) fid
    = map_option (\<lambda>t'. t'\<lparr>mq_data := d\<rparr>) (message_queue_table_unregister t fid)"
  by (simp add: mq_simps Let_def)

lemma mqt_inv_register:
  assumes "mqt_inv t" "mq_current_size t < NBQUEUE"
  obtains fid fs t' where "message_queue_table_register t = Some (fid, t')"
    "free_fids t = fid # fs" "free_fids t' = fs" "fids_ok t'" "mq_data t' = mq_data t"
    "0 \<le> fid" "fid < int NBQUEUE" "buffer (mq_data t (nat fid)) = 0"
proof -
  have "length (free_fids t) > 0" using assms(2) by simp
  then obtain fid fs where fs: "free_fids t = fid # fs" by (cases "free_fids t") auto
  from fid_get [of t fid fs] assms(1) fs obtain t' where
    t': "message_queue_table_register t = Some (fid, t')" "fids_ok t'" "free_fids t' = fs"
    by (auto simp: mqt_inv_def)
  from assms(1) fs have "0 \<le> fid" "fid < int NBQUEUE" by (auto simp: mqt_inv_def)
  moreover from this assms(1) fs have "buffer (mq_data t (nat fid)) = 0"
    by (auto simp: mqt_inv_def dest: spec [of _ "nat fid"])
  ultimately show ?thesis using that t' fs table_register_frame [OF t'(1)] by blast
qed

lemma mqt_inv_unused_empty:
  assumes "mqt_inv t" "i < NBQUEUE" "buffer (mq_data t i) = 0"
  shows "(mq_data t i)\<lparr>buffer := 0\<rparr> = mq_data t i" and "nb_messages (mq_data t i) = 0"
    and "message_consume_index (mq_data t i) = 0" "message_produce_index (mq_data t i) = 0"
proof -
  from assms have "mq_inv (mq_data t i)" by (auto simp: mqt_inv_def)
  then show "nb_messages (mq_data t i) = 0"
    "message_consume_index (mq_data t i) = 0" "message_produce_index (mq_data t i) = 0"
    using assms(3) by (auto simp: mq_inv_def)
  show "(mq_data t i)\<lparr>buffer := 0\<rparr> = mq_data t i" using assms(3) by (cases "mq_data t i") simp
qed

text \<open>A created queue is fresh, empty, of the requested size, and the only one that changes.\<close>

lemma pcreate_ok:
  assumes inv: "mqt_inv t" and cnt: "1 \<le> n" "n \<le> MESSAGE_QUEUE_BUFFER_MAX_SIZE"
    and room: "mq_current_size t < NBQUEUE"
    and mem: "answers h (calls h) \<noteq> 0" "answers h (Suc (calls h)) \<noteq> 0"
  obtains fid t' h' where "pcreate n t h = Some (fid, t', h')" "mqt_inv t'"
    "0 \<le> fid" "fid < int NBQUEUE" "buffer (mq_data t (nat fid)) = 0"
    "valid_fid fid t'" "messages (mq_data t' (nat fid)) = []" "int (mq_size (mq_data t' (nat fid))) = n"
    "locked_processes (mq_data t' (nat fid)) = Some process_queue_create"
    "\<And>i. i \<noteq> nat fid \<Longrightarrow> mq_data t' i = mq_data t i"
proof -
  from mqt_inv_register [OF inv room] obtain fid fs t1 where
    t1: "message_queue_table_register t = Some (fid, t1)" "free_fids t = fid # fs"
      "free_fids t1 = fs" "fids_ok t1" "mq_data t1 = mq_data t"
      "0 \<le> fid" "fid < int NBQUEUE" "buffer (mq_data t (nat fid)) = 0" .
  let ?i = "nat fid"
  have i: "?i < NBQUEUE" "int ?i = fid" using t1(6,7) by auto
  define q where "q = (mq_data t ?i)\<lparr>buffer := answers h (calls h), mq_size := nat n,
    locked_processes := Some process_queue_create\<rparr>"
  define t' where "t' = t1\<lparr>mq_data := (mq_data t)(?i := q)\<rparr>"
  have pc: "pcreate n t h = Some (fid, t', h\<lparr>calls := Suc (Suc (calls h))\<rparr>)"
    using cnt room mem t1(1,5)
    by (simp add: pcreate_def heap_alloc_def Let_def q_def t'_def)
  note empty = mqt_inv_unused_empty [OF inv i(1) t1(8)]
  have q: "mq_inv q" "buffer q \<noteq> 0" "messages q = []"
    using mem cnt empty
    by (auto simp: mq_inv_def q_def buffer_ok_def ring_ok_def process_queue_create_def pq_ok_def
        messages_def)
  have "mqt_inv t'" unfolding mqt_inv_def
  proof (intro conjI)
    show "fids_ok t'" "distinct (free_fids t')" "\<forall>f\<in>set (free_fids t'). 0 \<le> f \<and> f < int NBQUEUE"
      using t1 inv by (auto simp: t'_def mqt_inv_def)
    have "fid \<notin> set fs" using inv t1(2) by (auto simp: mqt_inv_def)
    then have "j \<noteq> ?i \<Longrightarrow> int j \<in> set fs \<longleftrightarrow> int j \<in> set (free_fids t)" for j
      using t1(2) i(2) by auto
    then show "\<forall>j<NBQUEUE. mq_inv (mq_data t' j)
        \<and> (buffer (mq_data t' j) = 0 \<longleftrightarrow> int j \<in> set (free_fids t'))"
      using inv t1(3) q(1,2) \<open>fid \<notin> set fs\<close> i(2) by (auto simp: t'_def mqt_inv_def)
  qed
  then show ?thesis
    using that [OF pc] t1(6-8) q cnt(1) by (simp add: t'_def q_def valid_fid_def)
qed

text \<open>When the buffer cannot be allocated the identifier goes back to the pool.\<close>

lemma pcreate_no_memory:
  assumes inv: "mqt_inv t" and cnt: "1 \<le> n" "n \<le> MESSAGE_QUEUE_BUFFER_MAX_SIZE"
    and room: "mq_current_size t < NBQUEUE" and mem: "answers h (calls h) = 0"
  obtains t' h' where "pcreate n t h = Some (-1, t', h')" "mqt_inv t'"
    "mq_data t' = mq_data t" "set (free_fids t') = set (free_fids t)"
proof -
  from mqt_inv_register [OF inv room] obtain fid fs t1 where
    t1: "message_queue_table_register t = Some (fid, t1)" "free_fids t = fid # fs"
      "free_fids t1 = fs" "fids_ok t1" "mq_data t1 = mq_data t"
      "0 \<le> fid" "fid < int NBQUEUE" "buffer (mq_data t (nat fid)) = 0" .
  have i: "nat fid < NBQUEUE" using t1(6,7) by auto
  have "length fs < NBQUEUE" using t1(2) length_free_fids [of t] by simp
  then obtain t2 where t2: "message_queue_table_unregister t1 fid = Some t2" "fids_ok t2"
    "free_fids t2 = fs @ [fid]"
    using fid_put [of t1 fid] t1(3,4) by auto
  have d: "mq_data t2 = mq_data t" using table_unregister_frame [OF t2(1)] t1(5) by simp
  have "(mq_data t)(nat fid := (mq_data t (nat fid))\<lparr>buffer := 0\<rparr>) = mq_data t"
    using mqt_inv_unused_empty(1) [OF inv i t1(8)] by simp
  then have "pcreate n t h = Some (-1, t2, h\<lparr>calls := Suc (calls h)\<rparr>)"
    using cnt room mem t1(1,5) t2(1) d
    by (simp add: pcreate_def heap_alloc_def Let_def table_register_mq_data)
  moreover have "mqt_inv t2" using inv t1(2) t2 d by (auto simp: mqt_inv_def)
  ultimately show ?thesis using that d t1(2) t2(3) by auto
qed

subsection \<open>Notifications from the process table\<close>

definition mq_drop_pid :: "int \<Rightarrow> message_queue_t \<Rightarrow> message_queue_t" where
  "mq_drop_pid p q = q\<lparr>locked_processes :=
     map_option (\<lambda>lp. snd (process_queue_remove_first_with_pid lp p)) (locked_processes q)\<rparr>"

definition mq_nodes :: "message_queue_t \<Rightarrow> process_node_content_t list" where
  "mq_nodes q = (case locked_processes q of None \<Rightarrow> [] | Some lp \<Rightarrow> pq_nodes lp)"

lemma mq_inv_size_pos: "mq_inv q \<Longrightarrow> 0 < mq_size q \<longleftrightarrow> buffer q \<noteq> 0"
  by (auto simp: mq_inv_def buffer_ok_def ring_ok_def split: if_splits)

lemma mq_inv_locked: "mq_inv q \<Longrightarrow> 0 < mq_size q \<Longrightarrow> \<exists>lp. locked_processes q = Some lp \<and> pq_ok lp"
  by (auto simp: mq_inv_def split: if_splits)

lemma buffer_ok_locked [simp]: "buffer_ok (q\<lparr>locked_processes := x\<rparr>) = buffer_ok q"
  by (simp add: buffer_ok_def)

lemma messages_locked [simp]: "messages (q\<lparr>locked_processes := x\<rparr>) = messages q"
  by (simp add: messages_def)

lemma mq_inv_drop_pid:
  assumes "mq_inv q" "buffer q \<noteq> 0"
  shows "mq_inv (mq_drop_pid p q)"
    and "mq_nodes (mq_drop_pid p q) = remove_first_with (\<lambda>c. c_pid c = p) (mq_nodes q)"
proof -
  from assms obtain lp where lp: "locked_processes q = Some lp" "pq_ok lp" "buffer_ok q"
    "pq_nodes lp \<noteq> [] \<longrightarrow> nb_messages q = 0 \<or> nb_messages q = mq_size q"
    by (auto simp: mq_inv_def)
  obtain r lp' where r: "process_queue_remove_first_with_pid lp p = (r, lp')" by force
  note ok = process_queue_remove_pid_ok [OF lp(2) r]
  have "pq_nodes lp' \<noteq> [] \<Longrightarrow> pq_nodes lp \<noteq> []" using ok by auto
  then show "mq_inv (mq_drop_pid p q)" using assms lp r ok by (auto simp: mq_inv_def mq_drop_pid_def)
  show "mq_nodes (mq_drop_pid p q) = remove_first_with (\<lambda>c. c_pid c = p) (mq_nodes q)"
    using lp r ok by (simp add: mq_drop_pid_def mq_nodes_def)
qed

lemma notify_killed_loop_result:
  "distinct is \<Longrightarrow> \<forall>i\<in>set is. mq_inv (mq_data t i) \<Longrightarrow>
   notify_killed_loop p is t = Some (t\<lparr>mq_data := (\<lambda>j.
     if j \<in> set is \<and> 0 < mq_size (mq_data t j) then mq_drop_pid p (mq_data t j) else mq_data t j)\<rparr>)"
proof (induction "is" arbitrary: t)
  case Nil
  then show ?case by simp
next
  case (Cons i "is")
  show ?case
  proof (cases "0 < mq_size (mq_data t i)")
    case True
    with Cons.prems mq_inv_locked obtain lp where lp: "locked_processes (mq_data t i) = Some lp"
      by force
    let ?t = "t\<lparr>mq_data := (mq_data t)(i := mq_drop_pid p (mq_data t i))\<rparr>"
    have "notify_killed_loop p (i # is) t = notify_killed_loop p is ?t"
      using True lp by (simp add: mq_drop_pid_def)
    also have "\<dots> = Some (?t\<lparr>mq_data := (\<lambda>j. if j \<in> set is \<and> 0 < mq_size (mq_data ?t j)
        then mq_drop_pid p (mq_data ?t j) else mq_data ?t j)\<rparr>)"
      using Cons.prems by (intro Cons.IH) auto
    finally show ?thesis using True Cons.prems(1) by (auto simp: fun_eq_iff intro!: arg_cong2 [where f = mq_data_update])
  next
    case False
    have "notify_killed_loop p (i # is) t = Some (t\<lparr>mq_data := (\<lambda>j.
        if j \<in> set is \<and> 0 < mq_size (mq_data t j) then mq_drop_pid p (mq_data t j) else mq_data t j)\<rparr>)"
      using False Cons by simp
    with False show ?thesis by (auto simp: fun_eq_iff intro!: arg_cong2 [where f = mq_data_update])
  qed
qed

lemma notify_killed_ok:
  assumes "mqt_inv t"
  obtains t' where "message_queues_notify_processus_killed p t = Some t'" "mqt_inv t'"
    "\<And>i. i < NBQUEUE \<Longrightarrow> mq_nodes (mq_data t' i) = remove_first_with (\<lambda>c. c_pid c = p) (mq_nodes (mq_data t i))"
    "\<And>i. i < NBQUEUE \<Longrightarrow> messages (mq_data t' i) = messages (mq_data t i)"
proof -
  define t' where "t' = t\<lparr>mq_data := (\<lambda>j. if j \<in> set [0..<NBQUEUE] \<and> 0 < mq_size (mq_data t j)
    then mq_drop_pid p (mq_data t j) else mq_data t j)\<rparr>"
  have inv: "mq_inv (mq_data t i)" if "i < NBQUEUE" for i using assms that by (simp add: mqt_inv_def)
  then have "message_queues_notify_processus_killed p t = Some t'"
    unfolding message_queues_notify_processus_killed_def t'_def
    by (intro notify_killed_loop_result) auto
  moreover have "mq_inv (mq_data t' i) \<and> buffer (mq_data t' i) = buffer (mq_data t i)
      \<and> mq_nodes (mq_data t' i) = remove_first_with (\<lambda>c. c_pid c = p) (mq_nodes (mq_data t i))
      \<and> messages (mq_data t' i) = messages (mq_data t i)"
    if i: "i < NBQUEUE" for i
  proof (cases "0 < mq_size (mq_data t i)")
    case True
    with mq_inv_size_pos [OF inv [OF i]] mq_inv_drop_pid [OF inv [OF i]] i show ?thesis
      by (simp add: t'_def) (simp add: mq_drop_pid_def)
  next
    case False
    with mq_inv_size_pos [OF inv [OF i]] have "buffer (mq_data t i) = 0" by simp
    with inv [OF i] have "mq_nodes (mq_data t i) = []" by (simp add: mq_inv_def mq_nodes_def)
    with False i inv show ?thesis by (simp add: t'_def)
  qed
  moreover from this have "mqt_inv t'" using assms by (simp add: mqt_inv_def t'_def)
  ultimately show ?thesis using that by blast
qed

text \<open>A change of priority moves the blocked entry and keeps the list sorted.\<close>

lemma process_queue_change_priority_ok:
  assumes "pq_ok q" "process_queue_change_priority q p np h = Some (q', h')"
    and "distinct (map c_pid (pq_nodes q))"
  shows "pq_ok q' \<and> mset (pq_nodes q')
    = image_mset (\<lambda>c. if c_pid c = p then c\<lparr>c_priority := np\<rparr> else c) (mset (pq_nodes q))"
proof (cases "find (\<lambda>c. c_pid c = p) (pq_nodes q)")
  case None
  then have no: "\<forall>c\<in>set (pq_nodes q). c_pid c \<noteq> p" by (auto simp: find_None_iff)
  with assms None have "q' = q"
    by (simp add: process_queue_change_priority_def process_queue_remove_first_with_pid_def)
  moreover have "image_mset (\<lambda>c. if c_pid c = p then c\<lparr>c_priority := np\<rparr> else c) (mset (pq_nodes q))
      = mset (pq_nodes q)"
    using no by (intro image_mset_unchanged) auto
  ultimately show ?thesis using assms(1) by simp
next
  case (Some c)
  obtain q1 where q1: "process_queue_remove_first_with_pid q p = (Some c, q1)"
    using Some by (simp add: process_queue_remove_first_with_pid_def)
  note ok = process_queue_remove_pid_ok [OF assms(1) q1]
  from Some obtain as bs where ab: "pq_nodes q = as @ c # bs" "c_pid c = p"
    "\<forall>x\<in>set as. c_pid x \<noteq> p"
    by (auto simp: find_Some_iff) (metis id_take_nth_drop in_set_conv_nth length_take min.absorb4 nth_take)
  with assms(3) have bs: "\<forall>x\<in>set bs. c_pid x \<noteq> p" by (force simp: image_iff)
  have n1: "pq_nodes q1 = as @ bs"
    using ok ab remove_first_with_split [of as "\<lambda>c. c_pid c = p" c bs] by simp
  have "process_queue_add_on_priority q1 (c\<lparr>c_priority := np\<rparr>) h = Some (q', h')"
    using assms(2) q1 by (simp add: process_queue_change_priority_def)
  moreover have "pq_ok q1" using ok by blast
  moreover have "length (pq_nodes q1) < PROCESS_TABLE_MAX_SIZE"
    using n1 ab(1) assms(1) by (simp add: pq_ok_def)
  ultimately have
    "pq_ok q' \<and> mset (pq_nodes q') = add_mset (c\<lparr>c_priority := np\<rparr>) (mset as + mset bs)"
    using process_queue_add_ok n1 by fastforce
  moreover have same: "image_mset (\<lambda>c. if c_pid c = p then c\<lparr>c_priority := np\<rparr> else c) (mset xs) = mset xs"
    if "\<forall>x\<in>set xs. c_pid x \<noteq> p" for xs
    using that by (intro image_mset_unchanged) auto
  ultimately show ?thesis using ab same [OF ab(3)] same [OF bs] by simp
qed

lemma process_queue_change_priority_total:
  assumes "answers h (calls h) \<noteq> 0"
  shows "\<exists>q' h'. process_queue_change_priority q p np h = Some (q', h') \<and> answers h' = answers h"
  using assms
  by (auto simp: process_queue_change_priority_def process_queue_add_on_priority_def heap_alloc_def
      Let_def split: prod.splits option.splits)

text \<open>One queue before and after a process it may block changed priority.\<close>

definition mq_priority_changed :: "int \<Rightarrow> int \<Rightarrow> message_queue_t \<Rightarrow> message_queue_t \<Rightarrow> bool" where
  "mq_priority_changed p np q q' \<longleftrightarrow> mq_inv q' \<and> buffer q' = buffer q \<and> messages q' = messages q
     \<and> mset (mq_nodes q')
       = image_mset (\<lambda>c. if c_pid c = p then c\<lparr>c_priority := np\<rparr> else c) (mset (mq_nodes q))"

lemma mq_priority_changed_step:
  assumes "mq_inv q" "locked_processes q = Some lp" "distinct (map c_pid (mq_nodes q))"
    and "process_queue_change_priority lp p np h = Some (lp', h')"
  shows "mq_priority_changed p np q (q\<lparr>locked_processes := Some lp'\<rparr>)"
proof -
  from assms(1,2) have b: "buffer q \<noteq> 0" "buffer_ok q" "pq_ok lp"
    "pq_nodes lp \<noteq> [] \<longrightarrow> nb_messages q = 0 \<or> nb_messages q = mq_size q"
    by (auto simp: mq_inv_def split: if_splits)
  from process_queue_change_priority_ok [OF b(3) assms(4)] assms(2,3)
  have ok: "pq_ok lp'" "mset (pq_nodes lp')
      = image_mset (\<lambda>c. if c_pid c = p then c\<lparr>c_priority := np\<rparr> else c) (mset (pq_nodes lp))"
    by (simp_all add: mq_nodes_def)
  have "mset (pq_nodes lp') = {#} \<longleftrightarrow> mset (pq_nodes lp) = {#}"
    unfolding ok(2) by (simp only: image_mset_is_empty_iff)
  then have "pq_nodes lp' = [] \<longleftrightarrow> pq_nodes lp = []" by simp
  then have "mq_inv (q\<lparr>locked_processes := Some lp'\<rparr>)"
    using ok(1) b by (simp add: mq_inv_def)
  with ok(2) assms(2) show ?thesis by (simp add: mq_priority_changed_def mq_nodes_def)
qed

lemma mq_priority_changed_unused:
  assumes "mq_inv q" "mq_size q = 0"
  shows "mq_priority_changed p np q q"
proof -
  have "buffer q = 0" using assms mq_inv_size_pos [of q] by simp
  with assms(1) have "locked_processes q = None" by (simp add: mq_inv_def)
  with assms(1) show ?thesis by (simp add: mq_priority_changed_def mq_nodes_def)
qed

lemma notify_priority_loop_result:
  assumes "distinct is" "\<forall>i\<in>set is. mq_inv (mq_data t i) \<and> distinct (map c_pid (mq_nodes (mq_data t i)))"
    and "\<forall>k. answers h k \<noteq> 0"
  shows "\<exists>d h'. notify_priority_loop p np is t h = Some (t\<lparr>mq_data := d\<rparr>, h')
    \<and> (\<forall>i\<in>set is. mq_priority_changed p np (mq_data t i) (d i))
    \<and> (\<forall>i. i \<notin> set is \<longrightarrow> d i = mq_data t i)"
  using assms
proof (induction "is" arbitrary: t h)
  case Nil
  then show ?case by (intro exI [of _ "mq_data t"]) simp
next
  case (Cons i "is")
  let ?q = "mq_data t i"
  show ?case
  proof (cases "0 < mq_size ?q")
    case True
    with Cons.prems(2) mq_inv_locked obtain lp where lp: "locked_processes ?q = Some lp" by force
    obtain lp' h1 where h1: "process_queue_change_priority lp p np h = Some (lp', h1)"
      "answers h1 = answers h"
      using process_queue_change_priority_total Cons.prems(3) by blast
    let ?t = "t\<lparr>mq_data := (mq_data t)(i := ?q\<lparr>locked_processes := Some lp'\<rparr>)\<rparr>"
    have "\<exists>d h'. notify_priority_loop p np is ?t h1 = Some (?t\<lparr>mq_data := d\<rparr>, h')
        \<and> (\<forall>j\<in>set is. mq_priority_changed p np (mq_data ?t j) (d j))
        \<and> (\<forall>j. j \<notin> set is \<longrightarrow> d j = mq_data ?t j)"
      using Cons.prems h1(2) by (intro Cons.IH) auto
    then obtain d h' where d: "notify_priority_loop p np is ?t h1 = Some (?t\<lparr>mq_data := d\<rparr>, h')"
      "\<forall>j\<in>set is. mq_priority_changed p np (mq_data ?t j) (d j)"
      "\<forall>j. j \<notin> set is \<longrightarrow> d j = mq_data ?t j" by blast
    moreover have "mq_priority_changed p np ?q (d i)"
      using d(3) Cons.prems(1,2) mq_priority_changed_step [OF _ lp _ h1(1)] by simp
    moreover have "\<forall>j\<in>set is. mq_priority_changed p np (mq_data t j) (d j)"
    proof
      fix j assume "j \<in> set is"
      with Cons.prems(1) have "j \<noteq> i" by auto
      with d(2) \<open>j \<in> set is\<close> show "mq_priority_changed p np (mq_data t j) (d j)" by force
    qed
    ultimately show ?thesis using True lp h1(1) by (intro exI [of _ d] exI [of _ h']) auto
  next
    case False
    with Cons.prems have "mq_priority_changed p np ?q ?q" by (simp add: mq_priority_changed_unused)
    with False Cons.prems Cons.IH [of t h] show ?thesis by (auto 0 4)
  qed
qed

lemma notify_priority_ok:
  assumes "mqt_inv t" "\<forall>i<NBQUEUE. distinct (map c_pid (mq_nodes (mq_data t i)))"
    and "\<forall>k. answers h k \<noteq> 0"
  obtains t' h' where "message_queues_notify_priority_changed p np t h = Some (t', h')" "mqt_inv t'"
    "\<And>i. i < NBQUEUE \<Longrightarrow> mq_priority_changed p np (mq_data t i) (mq_data t' i)"
proof -
  have "\<exists>d h'. notify_priority_loop p np [0..<NBQUEUE] t h = Some (t\<lparr>mq_data := d\<rparr>, h')
    \<and> (\<forall>i\<in>set [0..<NBQUEUE]. mq_priority_changed p np (mq_data t i) (d i))
    \<and> (\<forall>i. i \<notin> set [0..<NBQUEUE] \<longrightarrow> d i = mq_data t i)"
    using assms by (intro notify_priority_loop_result) (auto simp: mqt_inv_def)
  then obtain d h' where d: "notify_priority_loop p np [0..<NBQUEUE] t h = Some (t\<lparr>mq_data := d\<rparr>, h')"
    "\<And>i. i < NBQUEUE \<Longrightarrow> mq_priority_changed p np (mq_data t i) (d i)"
    by auto
  moreover have "mqt_inv (t\<lparr>mq_data := d\<rparr>)"
    using assms(1) d(2) by (simp add: mqt_inv_def mq_priority_changed_def)
  ultimately show ?thesis using that by (simp add: message_queues_notify_priority_changed_def)
qed

subsection \<open>Properties\<close>

text \<open>\<open>message_queues_init\<close> establishes the invariant of the queue table, with all 64
  identifiers free and no queue open.\<close>

theorem message_queues_init_invariant:
  "mqt_inv (message_queues_init t) \<and> free_fids (message_queues_init t) = map int [0..<NBQUEUE]
    \<and> (\<forall>i. i < NBQUEUE \<longrightarrow> \<not> valid_fid (int i) (message_queues_init t))"
  by (simp add: mqt_inv_init free_fids_init valid_fid_def)
     (simp add: message_queues_init_def empty_message_queue_def)

theorem message_queues_init_invariant_witness:
  "(5::nat) < NBQUEUE \<and> \<not> valid_fid 5 (message_queues_init message_queue_table)"
  using message_queues_init_invariant [of message_queue_table] by (auto simp: NBQUEUE_def dest: spec [of _ 5])

text \<open>\<open>pcreate\<close> with a count in range, a free identifier and memory: the result is an unused
  identifier, its queue is open, empty, of the requested size with nobody blocked, the other
  queues are untouched and the invariant is kept.\<close>

theorem pcreate_success:
  assumes "mqt_inv t" "1 \<le> n" "n \<le> MESSAGE_QUEUE_BUFFER_MAX_SIZE" "mq_current_size t < NBQUEUE"
    and "answers h (calls h) \<noteq> 0" "answers h (Suc (calls h)) \<noteq> 0"
  shows "\<exists>fid t' h'. pcreate n t h = Some (fid, t', h') \<and> mqt_inv t'
    \<and> \<not> valid_fid fid t \<and> valid_fid fid t'
    \<and> messages (mq_data t' (nat fid)) = [] \<and> int (mq_size (mq_data t' (nat fid))) = n
    \<and> pcount_value (mq_data t' (nat fid)) = Some 0
    \<and> (\<forall>i. i \<noteq> nat fid \<longrightarrow> mq_data t' i = mq_data t i)"
proof -
  obtain fid t' h' where r: "pcreate n t h = Some (fid, t', h')" "mqt_inv t'"
    "0 \<le> fid" "fid < int NBQUEUE" "buffer (mq_data t (nat fid)) = 0"
    "valid_fid fid t'" "messages (mq_data t' (nat fid)) = []" "int (mq_size (mq_data t' (nat fid))) = n"
    "locked_processes (mq_data t' (nat fid)) = Some process_queue_create"
    "\<And>i. i \<noteq> nat fid \<Longrightarrow> mq_data t' i = mq_data t i"
    using pcreate_ok [OF assms] by blast
  have "nb_messages (mq_data t' (nat fid)) = 0"
    using r(7) length_messages [of "mq_data t' (nat fid)"] by simp
  with r show ?thesis
    by (intro exI [of _ fid] exI [of _ t'] exI [of _ h'])
       (auto simp: valid_fid_def pcount_value_def process_queue_create_def)
qed

theorem pcreate_success_witness:
  "\<exists>fid t' h'. pcreate 3 (message_queues_init message_queue_table) ample_heap = Some (fid, t', h')
    \<and> mqt_inv t' \<and> mq_size (mq_data t' (nat fid)) = 3"
proof -
  have "mq_current_size (message_queues_init message_queue_table) < NBQUEUE"
    by (simp add: message_queues_init_def NBQUEUE_def)
  then show ?thesis
    using pcreate_success [of "message_queues_init message_queue_table" 3 ample_heap]
    by (auto simp: mqt_inv_init MESSAGE_QUEUE_BUFFER_MAX_SIZE_def)
qed

text \<open>the error returns of \<open>pcreate\<close>: a count outside 1..536870911 or a full table
  returns -1 with nothing changed, and an exhausted heap returns -1 with the identifier given
  back to the pool and every queue as it was.\<close>

theorem pcreate_errors:
  assumes "mqt_inv t"
  shows "(n < 1 \<or> n > MESSAGE_QUEUE_BUFFER_MAX_SIZE \<or> mq_current_size t = NBQUEUE \<longrightarrow>
      pcreate n t h = Some (-1, t, h))
    \<and> (1 \<le> n \<and> n \<le> MESSAGE_QUEUE_BUFFER_MAX_SIZE \<and> mq_current_size t < NBQUEUE
      \<and> answers h (calls h) = 0 \<longrightarrow>
      (\<exists>t' h'. pcreate n t h = Some (-1, t', h') \<and> mqt_inv t' \<and> mq_data t' = mq_data t
        \<and> set (free_fids t') = set (free_fids t) \<and> mq_current_size t' = mq_current_size t))"
proof -
  have "\<exists>t' h'. pcreate n t h = Some (-1, t', h') \<and> mqt_inv t' \<and> mq_data t' = mq_data t
      \<and> set (free_fids t') = set (free_fids t) \<and> mq_current_size t' = mq_current_size t"
    if room: "1 \<le> n" "n \<le> MESSAGE_QUEUE_BUFFER_MAX_SIZE" "mq_current_size t < NBQUEUE"
      "answers h (calls h) = 0"
  proof -
    obtain t' h' where r: "pcreate n t h = Some (-1, t', h')" "mqt_inv t'"
      "mq_data t' = mq_data t" "set (free_fids t') = set (free_fids t)"
      using pcreate_no_memory [OF assms room] by blast
    have "distinct (free_fids t)" "distinct (free_fids t')"
      using r(2) assms by (auto simp: mqt_inv_def)
    with r(4) have "length (free_fids t') = length (free_fids t)" by (metis distinct_card)
    moreover have "mq_current_size t' \<le> NBQUEUE" using r(2) by (simp add: mqt_inv_def fids_ok_def)
    ultimately show ?thesis using r room(3) by auto
  qed
  then show ?thesis by (auto simp: pcreate_def)
qed

theorem pcreate_errors_witness:
  "pcreate 0 (message_queues_init message_queue_table) ample_heap
     = Some (-1, message_queues_init message_queue_table, ample_heap)
   \<and> (\<exists>t' h'. pcreate 4 (message_queues_init message_queue_table) (ample_heap\<lparr>answers := (\<lambda>_. 0)\<rparr>)
       = Some (-1, t', h') \<and> mqt_inv t')"
proof -
  have "mq_current_size (message_queues_init message_queue_table) < NBQUEUE"
    by (simp add: message_queues_init_def NBQUEUE_def)
  then show ?thesis
    using pcreate_errors [OF mqt_inv_init, of 0 message_queue_table ample_heap]
      pcreate_errors [OF mqt_inv_init, of 4 message_queue_table "ample_heap\<lparr>answers := (\<lambda>_. 0)\<rparr>"]
    by (auto simp: MESSAGE_QUEUE_BUFFER_MAX_SIZE_def)
qed

text \<open>the circular buffer is a queue: messages registered in an empty buffer with room for
  them are unregistered in the order they came, for every position of the two indices.\<close>

theorem message_buffer_fifo:
  assumes "buffer_ok q" "messages q = []" "length ms \<le> mq_size q"
  shows "\<exists>q' q''. mbuf.fifo.put_all q ms = Some q' \<and> messages q' = ms
    \<and> mbuf.fifo.get_n (length ms) q' = Some (ms, q'') \<and> messages q'' = []"
proof -
  obtain q' where q': "mbuf.fifo.put_all q ms = Some q'" "buffer_ok q'" "messages q' = ms"
    using mbuf.fifo.put_all_room [folded messages_def buffer_ok_def, of q ms] assms by auto
  then show ?thesis
    using mbuf.fifo.get_n_contents [folded messages_def buffer_ok_def, of q' ms "[]"] by auto
qed

theorem message_buffer_fifo_witness:
  "\<exists>q' q''. mbuf.fifo.put_all (empty_message_queue\<lparr>mq_size := 2, message_consume_index := 1,
      message_produce_index := 1\<rparr>) [7, 9] = Some q'
    \<and> mbuf.fifo.get_n 2 q' = Some ([7, 9], q'')"
  using message_buffer_fifo [of "empty_message_queue\<lparr>mq_size := 2, message_consume_index := 1,
      message_produce_index := 1\<rparr>" "[7, 9]"]
  by (auto simp: buffer_ok_def messages_def ring_ok_def empty_message_queue_def
      MESSAGE_QUEUE_BUFFER_MAX_SIZE_def INDEXES_LOCK_VALUE_def numeral_2_eq_2)

text \<open>when a process is killed, its entry disappears from the list of blocked processes of
  every queue; the other entries, the messages and the invariant stay.\<close>

theorem notify_killed_removes_waiter:
  assumes "mqt_inv t"
  shows "\<exists>t'. message_queues_notify_processus_killed p t = Some t' \<and> mqt_inv t'
    \<and> (\<forall>i<NBQUEUE. mq_nodes (mq_data t' i) = remove_first_with (\<lambda>c. c_pid c = p) (mq_nodes (mq_data t i))
        \<and> messages (mq_data t' i) = messages (mq_data t i))"
  using notify_killed_ok [OF assms, of p] by metis

theorem notify_killed_removes_waiter_witness:
  "\<exists>t'. message_queues_notify_processus_killed 4 (message_queues_init message_queue_table) = Some t'
    \<and> mqt_inv t'"
  using notify_killed_removes_waiter [OF mqt_inv_init, of 4 message_queue_table] by blast

text \<open>when the priority of a process changes, its blocked entry carries the new priority, the
  list of blocked processes is again sorted by decreasing priority (part of the invariant) and
  nothing else changes, provided the node allocations succeed.\<close>

theorem notify_priority_moves_waiter:
  assumes "mqt_inv t" "\<forall>i<NBQUEUE. distinct (map c_pid (mq_nodes (mq_data t i)))"
    and "\<forall>k. answers h k \<noteq> 0"
  shows "\<exists>t' h'. message_queues_notify_priority_changed p np t h = Some (t', h') \<and> mqt_inv t'
    \<and> (\<forall>i<NBQUEUE. mset (mq_nodes (mq_data t' i))
          = image_mset (\<lambda>c. if c_pid c = p then c\<lparr>c_priority := np\<rparr> else c) (mset (mq_nodes (mq_data t i)))
        \<and> messages (mq_data t' i) = messages (mq_data t i))"
proof -
  obtain t' h' where "message_queues_notify_priority_changed p np t h = Some (t', h')" "mqt_inv t'"
    "\<And>i. i < NBQUEUE \<Longrightarrow> mq_priority_changed p np (mq_data t i) (mq_data t' i)"
    using notify_priority_ok [OF assms] by blast
  then show ?thesis
    by (intro exI [of _ t'] exI [of _ h']) (simp add: mq_priority_changed_def)
qed

theorem notify_priority_moves_waiter_witness:
  "\<exists>t' h'. message_queues_notify_priority_changed 4 9 (message_queues_init message_queue_table) ample_heap
    = Some (t', h') \<and> mqt_inv t'"
proof -
  have "\<forall>i<NBQUEUE. distinct (map c_pid (mq_nodes (mq_data (message_queues_init message_queue_table) i)))"
    by (simp add: message_queues_init_def mq_nodes_def empty_message_queue_def)
  from notify_priority_moves_waiter [OF mqt_inv_init this, of ample_heap 4 9] show ?thesis by auto
qed

end
