(* ===== verification/Console.thy ===== *)
theory Console
  imports Prelude
begin

unbundle bit_operations_syntax

text \<open>
  The text console of \<^verbatim>\<open>kernel/console.c\<close>: 25 lines of 80 cells in video memory, a cursor
  mirrored in the CRT controller through \<open>outb\<close>, and an escape sequence
  (\<^verbatim>\<open>ESC B x\<close>, \<^verbatim>\<open>ESC F x\<close>, \<^verbatim>\<open>ESC D\<close>) that sets colours.

  Characters are byte values (natural numbers below 256). \<open>vram\<close> is the video memory as
  16-bit cells from \<open>CONSOLE_BASE_ADDRESS\<close>; \<open>outb_log\<close> holds the port writes, last first.
  \<open>treat_char\<close> calls itself only on a space or a backspace, so its recursion is unrolled:
  \<open>treat_simple\<close> is its body on every character that makes no further call.
\<close>

definition CONSOLE_WIDTH :: nat where "CONSOLE_WIDTH = 80"

definition CONSOLE_HEIGHT :: nat where "CONSOLE_HEIGHT = 25"

definition TABULATION_SIZE :: nat where "TABULATION_SIZE = 8"

definition CONSOLE_COMMAND_PORT :: nat where "CONSOLE_COMMAND_PORT = 0x3D4"

definition CONSOLE_DATA_PORT :: nat where "CONSOLE_DATA_PORT = 0x3D5"

definition CURSOR_LOW_COMMAND :: nat where "CURSOR_LOW_COMMAND = 0x0F"

definition CURSOR_HIGH_COMMAND :: nat where "CURSOR_HIGH_COMMAND = 0x0E"

lemmas console_consts = CONSOLE_WIDTH_def CONSOLE_HEIGHT_def TABULATION_SIZE_def

datatype foreground_color_t = F_BLACK | F_DARK_BLUE | F_DARK_GREEN | F_CYAN | F_DARK_RED
  | F_PURPLE | F_BROWN | F_GRAY | F_DARK_GRAY | F_BLUE | F_GREEN | F_AQUA | F_RED | F_PINK
  | F_YELLOW | F_WHITE

datatype background_color_t = B_BLACK | B_DARK_BLUE | B_DARK_GREEN | B_CYAN | B_DARK_RED
  | B_PURPLE | B_BROWN | B_GRAY

fun fg_code :: "foreground_color_t \<Rightarrow> nat" where
  "fg_code F_BLACK = 0" | "fg_code F_DARK_BLUE = 1" | "fg_code F_DARK_GREEN = 2"
| "fg_code F_CYAN = 3" | "fg_code F_DARK_RED = 4" | "fg_code F_PURPLE = 5"
| "fg_code F_BROWN = 6" | "fg_code F_GRAY = 7" | "fg_code F_DARK_GRAY = 8"
| "fg_code F_BLUE = 9" | "fg_code F_GREEN = 10" | "fg_code F_AQUA = 11"
| "fg_code F_RED = 12" | "fg_code F_PINK = 13" | "fg_code F_YELLOW = 14" | "fg_code F_WHITE = 15"

fun bg_code :: "background_color_t \<Rightarrow> nat" where
  "bg_code B_BLACK = 0" | "bg_code B_DARK_BLUE = 1" | "bg_code B_DARK_GREEN = 2"
| "bg_code B_CYAN = 3" | "bg_code B_DARK_RED = 4" | "bg_code B_PURPLE = 5"
| "bg_code B_BROWN = 6" | "bg_code B_GRAY = 7"

record command_info_t =
  command_requested :: bool
  params_filled :: nat
  command_param0 :: nat

record cursor_info_t =
  cursor_line :: nat
  cursor_column :: nat
  last_foreground_color :: foreground_color_t
  last_background_color :: background_color_t
  last_blink_state :: bool

record console =
  cursor_info :: cursor_info_t
  command_info :: command_info_t
  vram :: "nat \<Rightarrow> 16 word"
  outb_log :: "(nat \<times> nat) list"

definition empty_command_info :: command_info_t where
  "empty_command_info = \<lparr>command_requested = False, params_filled = 0, command_param0 = 0\<rparr>"

definition initial_cursor_info :: cursor_info_t where
  "initial_cursor_info = \<lparr>cursor_line = 0, cursor_column = 0, last_foreground_color = F_WHITE,
     last_background_color = B_BLACK, last_blink_state = False\<rparr>"

subsection \<open>Cells and cursor\<close>

definition get_console_address :: "nat \<Rightarrow> nat \<Rightarrow> nat" where
  "get_console_address line column = line * CONSOLE_WIDTH + column"

definition get_cursor_position :: "nat \<Rightarrow> nat \<Rightarrow> nat" where
  "get_cursor_position line column = (column + line * CONSOLE_WIDTH) mod 2 ^ 16"

definition cell_value :: "nat \<Rightarrow> foreground_color_t \<Rightarrow> background_color_t \<Rightarrow> bool \<Rightarrow> 16 word" where
  "cell_value c fg bg blink = of_nat (c mod 256) OR push_bit 15 (of_bool blink)
     OR push_bit 12 (of_nat (bg_code bg)) OR push_bit 8 (of_nat (fg_code fg))"

definition set_colors ::
  "foreground_color_t \<Rightarrow> background_color_t \<Rightarrow> bool \<Rightarrow> console \<Rightarrow> console" where
  "set_colors fg bg blink s = s\<lparr>cursor_info := (cursor_info s)\<lparr>last_foreground_color := fg,
     last_background_color := bg, last_blink_state := blink\<rparr>\<rparr>"

definition write_char ::
  "nat \<Rightarrow> nat \<Rightarrow> nat \<Rightarrow> foreground_color_t \<Rightarrow> background_color_t \<Rightarrow> bool \<Rightarrow> console \<Rightarrow> console option" where
  "write_char line column c fg bg blink s = do {
     kassert (line < CONSOLE_HEIGHT);
     kassert (column < CONSOLE_WIDTH);
     let s = s\<lparr>vram := (vram s)(get_console_address line column := cell_value c fg bg blink)\<rparr>;
     Some (set_colors fg bg blink s)
   }"

definition outb :: "nat \<Rightarrow> nat \<Rightarrow> console \<Rightarrow> console" where
  "outb v port s = s\<lparr>outb_log := (v mod 256, port) # outb_log s\<rparr>"

definition set_cursor :: "nat \<Rightarrow> nat \<Rightarrow> console \<Rightarrow> console option" where
  "set_cursor line column s = do {
     kassert (line < CONSOLE_HEIGHT);
     kassert (column < CONSOLE_WIDTH);
     let position = get_cursor_position line column;
     let s = outb CURSOR_LOW_COMMAND CONSOLE_COMMAND_PORT s;
     let s = outb (position mod 256) CONSOLE_DATA_PORT s;
     let s = outb CURSOR_HIGH_COMMAND CONSOLE_COMMAND_PORT s;
     let s = outb (position div 256) CONSOLE_DATA_PORT s;
     Some (s\<lparr>cursor_info := (cursor_info s)\<lparr>cursor_line := line, cursor_column := column\<rparr>\<rparr>)
   }"

fun write_cells :: "(nat \<times> nat) list \<Rightarrow> foreground_color_t \<Rightarrow> background_color_t \<Rightarrow> bool
    \<Rightarrow> console \<Rightarrow> console option" where
  "write_cells [] fg bg blink s = Some s"
| "write_cells ((line, column) # ps) fg bg blink s =
     Option.bind (write_char line column 32 fg bg blink s) (write_cells ps fg bg blink)"

definition console_clear :: "console \<Rightarrow> console option" where
  "console_clear s =
     write_cells [(j, i). i \<leftarrow> [0..<CONSOLE_WIDTH], j \<leftarrow> [0..<CONSOLE_HEIGHT]]
       (last_foreground_color (cursor_info s)) (last_background_color (cursor_info s))
       (last_blink_state (cursor_info s)) s"

definition move_line_up :: "nat \<Rightarrow> (nat \<Rightarrow> 16 word) \<Rightarrow> nat \<Rightarrow> 16 word" where
  "move_line_up i v = (\<lambda>a. if get_console_address (i - 1) 0 \<le> a \<and> a < get_console_address (i - 1) 0 + CONSOLE_WIDTH
     then v (a - get_console_address (i - 1) 0 + get_console_address i 0) else v a)"

definition up_shift_console :: "console \<Rightarrow> console option" where
  "up_shift_console s =
     (let s = s\<lparr>vram := fold move_line_up [1..<CONSOLE_HEIGHT] (vram s)\<rparr>
      in write_cells [(CONSOLE_HEIGHT - 1, j). j \<leftarrow> [0..<CONSOLE_WIDTH]]
           (last_foreground_color (cursor_info s)) (last_background_color (cursor_info s))
           (last_blink_state (cursor_info s)) s)"

subsection \<open>Escape sequences\<close>

definition bg_of_char :: "nat \<Rightarrow> background_color_t option" where
  "bg_of_char c =
     (if c \<in> {0x30, 0x38} then Some B_BLACK
      else if c \<in> {0x31, 0x39} then Some B_DARK_BLUE
      else if c \<in> {0x32, 0x41, 0x61} then Some B_DARK_GREEN
      else if c \<in> {0x33, 0x42, 0x62} then Some B_CYAN
      else if c \<in> {0x34, 0x43, 0x63} then Some B_DARK_RED
      else if c \<in> {0x35, 0x44, 0x64} then Some B_PURPLE
      else if c \<in> {0x36, 0x45, 0x65} then Some B_BROWN
      else if c \<in> {0x37, 0x46, 0x66} then Some B_GRAY
      else None)"

definition fg_of_char :: "nat \<Rightarrow> foreground_color_t option" where
  "fg_of_char c =
     (if c = 0x30 then Some F_BLACK else if c = 0x31 then Some F_DARK_BLUE
      else if c = 0x32 then Some F_DARK_GREEN else if c = 0x33 then Some F_CYAN
      else if c = 0x34 then Some F_DARK_RED else if c = 0x35 then Some F_PURPLE
      else if c = 0x36 then Some F_BROWN else if c = 0x37 then Some F_GRAY
      else if c = 0x38 then Some F_DARK_GRAY else if c = 0x39 then Some F_BLUE
      else if c = 0x41 then Some F_GREEN else if c = 0x42 then Some F_AQUA
      else if c = 0x43 then Some F_RED else if c = 0x44 then Some F_PINK
      else if c = 0x45 then Some F_YELLOW else if c = 0x46 then Some F_WHITE
      else None)"

abbreviation is_B :: "nat \<Rightarrow> bool" where "is_B c \<equiv> c = 0x42 \<or> c = 0x62"

abbreviation is_F :: "nat \<Rightarrow> bool" where "is_F c \<equiv> c = 0x46 \<or> c = 0x66"

abbreviation is_D :: "nat \<Rightarrow> bool" where "is_D c \<equiv> c = 0x44 \<or> c = 0x64"

definition reset_command :: "console \<Rightarrow> console" where
  "reset_command s = s\<lparr>command_info := empty_command_info\<rparr>"

definition command_char :: "nat \<Rightarrow> console \<Rightarrow> console option" where
  "command_char c s =
     (let ci = command_info s in
      if params_filled ci = 0 then
        (if is_B c \<or> is_F c then
           Some (s\<lparr>command_info := ci\<lparr>command_param0 := c, params_filled := 1\<rparr>\<rparr>)
         else if is_D c then Some (reset_command (set_colors F_WHITE B_BLACK False s))
         else Some (reset_command s))
      else if params_filled ci = 1 then
        (if is_B (command_param0 ci) then
           (let s = (case bg_of_char c of None \<Rightarrow> s
              | Some b \<Rightarrow> s\<lparr>cursor_info := (cursor_info s)\<lparr>last_background_color := b\<rparr>\<rparr>);
                s = s\<lparr>cursor_info := (cursor_info s)\<lparr>last_blink_state := (0x37 < c)\<rparr>\<rparr>
            in Some (reset_command s))
         else if is_F (command_param0 ci) then
           (let s = (case fg_of_char c of None \<Rightarrow> s
              | Some f \<Rightarrow> s\<lparr>cursor_info := (cursor_info s)\<lparr>last_foreground_color := f\<rparr>\<rparr>)
            in Some (reset_command s))
         else None)
      else Some (reset_command s))"

subsection \<open>Characters\<close>

definition put_printable ::
  "nat \<Rightarrow> foreground_color_t \<Rightarrow> background_color_t \<Rightarrow> bool \<Rightarrow> console \<Rightarrow> console option" where
  "put_printable c fg bg blink s = do {
     let line = cursor_line (cursor_info s);
     let column = cursor_column (cursor_info s);
     s \<leftarrow> write_char line column c fg bg blink s;
     let column = column + 1;
     if column \<ge> CONSOLE_WIDTH - 1 then
       (if line \<ge> CONSOLE_HEIGHT - 1 then do {
          s \<leftarrow> up_shift_console s;
          set_cursor line 0 s
        } else set_cursor (line + 1) 0 s)
     else set_cursor line column s
   }"

definition treat_simple ::
  "nat \<Rightarrow> foreground_color_t \<Rightarrow> background_color_t \<Rightarrow> bool \<Rightarrow> console \<Rightarrow> console option" where
  "treat_simple c fg bg blink s =
     (if command_requested (command_info s) then command_char c s
      else if c = 8 then
        (if cursor_column (cursor_info s) > 0
         then set_cursor (cursor_line (cursor_info s)) (cursor_column (cursor_info s) - 1) s
         else Some s)
      else if c = 12 then do {
        s \<leftarrow> console_clear (set_colors fg bg blink s);
        set_cursor 0 0 s
      }
      else if c = 13 then set_cursor (cursor_line (cursor_info s)) 0 s
      else if c = 27 then
        Some (s\<lparr>command_info := empty_command_info\<lparr>command_requested := True\<rparr>\<rparr>)
      else if (32 \<le> c \<and> c \<le> 126) \<or> 161 \<le> c then put_printable c fg bg blink s
      else Some s)"

fun repeat_space :: "nat \<Rightarrow> foreground_color_t \<Rightarrow> background_color_t \<Rightarrow> bool \<Rightarrow> console \<Rightarrow> console option"
  where
  "repeat_space 0 fg bg blink s = Some s"
| "repeat_space (Suc n) fg bg blink s =
     Option.bind (treat_simple 32 fg bg blink s) (repeat_space n fg bg blink)"

definition treat_current :: "nat \<Rightarrow> console \<Rightarrow> console option" where
  "treat_current c s = treat_simple c (last_foreground_color (cursor_info s))
     (last_background_color (cursor_info s)) (last_blink_state (cursor_info s)) s"

definition delete_last_char :: "console \<Rightarrow> console option" where
  "delete_last_char s =
     (if cursor_column (cursor_info s) = 0 then
        (if cursor_line (cursor_info s) \<noteq> 0 then do {
           s \<leftarrow> set_cursor (cursor_line (cursor_info s) - 1) (CONSOLE_WIDTH - 1) s;
           s \<leftarrow> treat_current 32 s;
           kassert (cursor_line (cursor_info s) \<noteq> 0);
           set_cursor (cursor_line (cursor_info s) - 1) (CONSOLE_WIDTH - 1) s
         } else Some s)
      else do {
        s \<leftarrow> treat_current 8 s;
        s \<leftarrow> treat_current 32 s;
        treat_current 8 s
      })"

definition treat_char ::
  "nat \<Rightarrow> foreground_color_t \<Rightarrow> background_color_t \<Rightarrow> bool \<Rightarrow> console \<Rightarrow> console option" where
  "treat_char c fg bg blink s =
     (if command_requested (command_info s) then command_char c s
      else if c = 9 then
        repeat_space (TABULATION_SIZE - cursor_column (cursor_info s) mod TABULATION_SIZE) fg bg blink s
      else if c = 10 then
        repeat_space (CONSOLE_WIDTH - cursor_column (cursor_info s) - 1) fg bg blink s
      else if c = 127 then delete_last_char s
      else treat_simple c fg bg blink s)"

fun console_putbytes :: "nat list \<Rightarrow> console \<Rightarrow> console option" where
  "console_putbytes [] s = Some s"
| "console_putbytes (c # cs) s = Option.bind
     (treat_char c (last_foreground_color (cursor_info s)) (last_background_color (cursor_info s))
        (last_blink_state (cursor_info s)) s)
     (console_putbytes cs)"

definition cons_write :: "nat list \<Rightarrow> console \<Rightarrow> console option" where
  "cons_write str s = console_putbytes str s"

definition print_top_right :: "nat list \<Rightarrow> console \<Rightarrow> console option" where
  "print_top_right str s = do {
     let previous_cursor = cursor_info s;
     let len = length str;
     kassert (len + 1 \<le> CONSOLE_WIDTH);
     s \<leftarrow> set_cursor 0 (CONSOLE_WIDTH - (len + 1)) s;
     s \<leftarrow> console_putbytes str s;
     set_cursor (cursor_line previous_cursor) (cursor_column previous_cursor) s
   }"

subsection \<open>Closed forms of the drawing loops\<close>

lemma write_char_eq:
  "line < CONSOLE_HEIGHT \<Longrightarrow> column < CONSOLE_WIDTH \<Longrightarrow> write_char line column c fg bg blink s =
   Some (set_colors fg bg blink
     (s\<lparr>vram := (vram s)(get_console_address line column := cell_value c fg bg blink)\<rparr>))"
  by (simp add: write_char_def Let_def)

definition place_cursor :: "nat \<Rightarrow> nat \<Rightarrow> console \<Rightarrow> console" where
  "place_cursor line column s =
     s\<lparr>outb_log := [(get_cursor_position line column div 256 mod 256, CONSOLE_DATA_PORT),
         (CURSOR_HIGH_COMMAND, CONSOLE_COMMAND_PORT),
         (get_cursor_position line column mod 256, CONSOLE_DATA_PORT),
         (CURSOR_LOW_COMMAND, CONSOLE_COMMAND_PORT)] @ outb_log s,
       cursor_info := (cursor_info s)\<lparr>cursor_line := line, cursor_column := column\<rparr>\<rparr>"

lemma set_cursor_eq:
  "line < CONSOLE_HEIGHT \<Longrightarrow> column < CONSOLE_WIDTH \<Longrightarrow>
   set_cursor line column s = Some (place_cursor line column s)"
  by (simp add: set_cursor_def place_cursor_def outb_def Let_def CURSOR_HIGH_COMMAND_def
      CURSOR_LOW_COMMAND_def)

lemma place_cursor_simps [simp]:
  "vram (place_cursor line column s) = vram s"
  "command_info (place_cursor line column s) = command_info s"
  "cursor_info (place_cursor line column s)
     = (cursor_info s)\<lparr>cursor_line := line, cursor_column := column\<rparr>"
  by (simp_all add: place_cursor_def)

lemma set_colors_simps [simp]:
  "vram (set_colors fg bg blink s) = vram s"
  "command_info (set_colors fg bg blink s) = command_info s"
  "outb_log (set_colors fg bg blink s) = outb_log s"
  "cursor_info (set_colors fg bg blink s) = (cursor_info s)\<lparr>last_foreground_color := fg,
     last_background_color := bg, last_blink_state := blink\<rparr>"
  by (simp_all add: set_colors_def)

lemma set_colors_same [simp]:
  "set_colors (last_foreground_color (cursor_info s)) (last_background_color (cursor_info s))
     (last_blink_state (cursor_info s)) s = s"
  by (simp add: set_colors_def)

lemma set_colors_vram_same:
  "set_colors (last_foreground_color (cursor_info s)) (last_background_color (cursor_info s))
     (last_blink_state (cursor_info s)) (s\<lparr>vram := v\<rparr>) = s\<lparr>vram := v\<rparr>"
  by (simp add: set_colors_def)

lemma set_colors_id:
  "fg = last_foreground_color (cursor_info s) \<Longrightarrow> bg = last_background_color (cursor_info s) \<Longrightarrow>
   blink = last_blink_state (cursor_info s) \<Longrightarrow> set_colors fg bg blink s = s"
  by simp

abbreviation on_screen :: "nat \<times> nat \<Rightarrow> bool" where
  "on_screen p \<equiv> fst p < CONSOLE_HEIGHT \<and> snd p < CONSOLE_WIDTH"

text \<open>Blanking cells with the current colours changes those cells and nothing else.\<close>

lemma write_cells_eq:
  "list_all on_screen ps \<Longrightarrow>
   write_cells ps (last_foreground_color (cursor_info s)) (last_background_color (cursor_info s))
     (last_blink_state (cursor_info s)) s
   = Some (s\<lparr>vram := (\<lambda>a. if a \<in> (\<lambda>(l, c). get_console_address l c) ` set ps
       then cell_value 32 (last_foreground_color (cursor_info s))
         (last_background_color (cursor_info s)) (last_blink_state (cursor_info s))
       else vram s a)\<rparr>)"
proof (induction ps arbitrary: s)
  case Nil
  then show ?case by simp
next
  case (Cons p ps)
  obtain l c where p: "p = (l, c)" by force
  let ?fg = "last_foreground_color (cursor_info s)" and ?bg = "last_background_color (cursor_info s)"
    and ?bl = "last_blink_state (cursor_info s)"
  define s1 where "s1 = s\<lparr>vram := (vram s)(get_console_address l c := cell_value 32 ?fg ?bg ?bl)\<rparr>"
  have "write_char l c 32 ?fg ?bg ?bl s = Some s1"
    using Cons.prems p by (simp add: write_char_eq s1_def set_colors_vram_same)
  moreover have "cursor_info s1 = cursor_info s" by (simp add: s1_def)
  ultimately show ?case using Cons.IH [of s1] Cons.prems p
    by (auto simp: s1_def fun_eq_iff)
qed

lemma get_console_address_inj:
  "c < CONSOLE_WIDTH \<Longrightarrow> c' < CONSOLE_WIDTH \<Longrightarrow>
   get_console_address l c = get_console_address l' c' \<longleftrightarrow> l = l' \<and> c = c'"
proof
  assume c: "c < CONSOLE_WIDTH" "c' < CONSOLE_WIDTH"
    and "get_console_address l c = get_console_address l' c'"
  then have eq: "l * CONSOLE_WIDTH + c = l' * CONSOLE_WIDTH + c'"
    by (simp add: get_console_address_def)
  then have "(l * CONSOLE_WIDTH + c) div CONSOLE_WIDTH = (l' * CONSOLE_WIDTH + c') div CONSOLE_WIDTH"
    by simp
  with c have "l = l'" by (simp add: CONSOLE_WIDTH_def)
  with eq show "l = l' \<and> c = c'" by simp
qed simp

lemma screen_addresses:
  "(\<lambda>(l, c). get_console_address l c) `
     set [(j, i). i \<leftarrow> [0..<CONSOLE_WIDTH], j \<leftarrow> [0..<CONSOLE_HEIGHT]]
   = {a. a < CONSOLE_HEIGHT * CONSOLE_WIDTH}"
proof (intro equalityI subsetI)
  fix a assume "a \<in> {a. a < CONSOLE_HEIGHT * CONSOLE_WIDTH}"
  then have "a = get_console_address (a div CONSOLE_WIDTH) (a mod CONSOLE_WIDTH)"
    "a div CONSOLE_WIDTH < CONSOLE_HEIGHT" "a mod CONSOLE_WIDTH < CONSOLE_WIDTH"
    by (auto simp: get_console_address_def CONSOLE_WIDTH_def CONSOLE_HEIGHT_def)
  then show "a \<in> (\<lambda>(l, c). get_console_address l c) `
     set [(j, i). i \<leftarrow> [0..<CONSOLE_WIDTH], j \<leftarrow> [0..<CONSOLE_HEIGHT]]"
    by force
qed (auto simp: get_console_address_def CONSOLE_WIDTH_def CONSOLE_HEIGHT_def)

lemma console_clear_eq:
  "console_clear s = Some (s\<lparr>vram := (\<lambda>a. if a < CONSOLE_HEIGHT * CONSOLE_WIDTH
     then cell_value 32 (last_foreground_color (cursor_info s)) (last_background_color (cursor_info s))
       (last_blink_state (cursor_info s)) else vram s a)\<rparr>)"
proof -
  have "list_all on_screen [(j, i). i \<leftarrow> [0..<CONSOLE_WIDTH], j \<leftarrow> [0..<CONSOLE_HEIGHT]]"
    by (auto simp: list_all_iff)
  then show ?thesis
    by (simp only: console_clear_def write_cells_eq screen_addresses mem_Collect_eq)
qed

lemma fold_move_line_up:
  "fold move_line_up [1..<Suc n] v = (\<lambda>a. if a < n * CONSOLE_WIDTH then v (a + CONSOLE_WIDTH) else v a)"
proof (induction n)
  case 0
  then show ?case by simp
next
  case (Suc n)
  have "fold move_line_up [1..<Suc (Suc n)] v = move_line_up (Suc n) (fold move_line_up [1..<Suc n] v)"
    by simp
  also have "\<dots> = (\<lambda>a. if a < Suc n * CONSOLE_WIDTH then v (a + CONSOLE_WIDTH) else v a)"
    unfolding Suc.IH by (auto simp: move_line_up_def get_console_address_def fun_eq_iff)
  finally show ?case .
qed

definition scrolled :: "console \<Rightarrow> nat \<Rightarrow> 16 word" where
  "scrolled s = (\<lambda>a. if a < (CONSOLE_HEIGHT - 1) * CONSOLE_WIDTH then vram s (a + CONSOLE_WIDTH)
     else if a < CONSOLE_HEIGHT * CONSOLE_WIDTH
     then cell_value 32 (last_foreground_color (cursor_info s)) (last_background_color (cursor_info s))
       (last_blink_state (cursor_info s)) else vram s a)"

lemma up_shift_console_eq: "up_shift_console s = Some (s\<lparr>vram := scrolled s\<rparr>)"
proof -
  let ?v = "fold move_line_up [1..<CONSOLE_HEIGHT] (vram s)"
  have v: "?v = (\<lambda>a. if a < (CONSOLE_HEIGHT - 1) * CONSOLE_WIDTH then vram s (a + CONSOLE_WIDTH) else vram s a)"
    using fold_move_line_up [of 24 "vram s"] by (simp add: CONSOLE_HEIGHT_def)
  have addr: "(\<lambda>(l, c). get_console_address l c) ` set [(CONSOLE_HEIGHT - 1, j). j \<leftarrow> [0..<CONSOLE_WIDTH]]
      = {a. (CONSOLE_HEIGHT - 1) * CONSOLE_WIDTH \<le> a \<and> a < CONSOLE_HEIGHT * CONSOLE_WIDTH}"
  proof (intro equalityI subsetI)
    fix a assume "a \<in> {a. (CONSOLE_HEIGHT - 1) * CONSOLE_WIDTH \<le> a \<and> a < CONSOLE_HEIGHT * CONSOLE_WIDTH}"
    then have "a = get_console_address (CONSOLE_HEIGHT - 1) (a - (CONSOLE_HEIGHT - 1) * CONSOLE_WIDTH)"
      "a - (CONSOLE_HEIGHT - 1) * CONSOLE_WIDTH < CONSOLE_WIDTH"
      by (auto simp: get_console_address_def console_consts)
    then show "a \<in> (\<lambda>(l, c). get_console_address l c) ` set [(CONSOLE_HEIGHT - 1, j). j \<leftarrow> [0..<CONSOLE_WIDTH]]"
      by force
  qed (auto simp: get_console_address_def console_consts)
  have "list_all on_screen [(CONSOLE_HEIGHT - 1, j). j \<leftarrow> [0..<CONSOLE_WIDTH]]"
    by (auto simp: list_all_iff console_consts)
  note cells = write_cells_eq [OF this, of "s\<lparr>vram := ?v\<rparr>", unfolded addr mem_Collect_eq]
  have "(\<lambda>a. if (CONSOLE_HEIGHT - 1) * CONSOLE_WIDTH \<le> a \<and> a < CONSOLE_HEIGHT * CONSOLE_WIDTH
      then cell_value 32 (last_foreground_color (cursor_info s)) (last_background_color (cursor_info s))
       (last_blink_state (cursor_info s)) else ?v a) = scrolled s"
    unfolding v scrolled_def by (auto simp: fun_eq_iff console_consts)
  with cells show ?thesis by (simp add: up_shift_console_def Let_def cong: if_cong)
qed

subsection \<open>The console never stops the machine\<close>

abbreviation printable :: "nat \<Rightarrow> bool" where "printable c \<equiv> 32 \<le> c \<and> c \<le> 126"

abbreviation current_cell :: "console \<Rightarrow> nat \<Rightarrow> 16 word" where
  "current_cell s c \<equiv> cell_value c (last_foreground_color (cursor_info s))
     (last_background_color (cursor_info s)) (last_blink_state (cursor_info s))"

definition console_ok :: "console \<Rightarrow> bool" where
  "console_ok s \<longleftrightarrow> cursor_line (cursor_info s) < CONSOLE_HEIGHT
     \<and> cursor_column (cursor_info s) < CONSOLE_WIDTH
     \<and> (params_filled (command_info s) = 0
        \<or> params_filled (command_info s) = 1
          \<and> (is_B (command_param0 (command_info s)) \<or> is_F (command_param0 (command_info s))))"

lemma put_printable_eq:
  fixes s :: console and ch :: nat and fg :: foreground_color_t
    and bg :: background_color_t and blink :: bool
  assumes "cursor_line (cursor_info s) < CONSOLE_HEIGHT" "cursor_column (cursor_info s) < CONSOLE_WIDTH"
  defines "l \<equiv> cursor_line (cursor_info s)" and "c \<equiv> cursor_column (cursor_info s)"
  defines "s1 \<equiv> set_colors fg bg blink (s\<lparr>vram := (vram s)(get_console_address l c := cell_value ch fg bg blink)\<rparr>)"
  shows "put_printable ch fg bg blink s = Some
    (if c + 1 \<ge> CONSOLE_WIDTH - 1 then
       (if l \<ge> CONSOLE_HEIGHT - 1 then place_cursor l 0 (s1\<lparr>vram := scrolled s1\<rparr>)
        else place_cursor (l + 1) 0 s1)
     else place_cursor l (c + 1) s1)"
  using assms
  by (auto simp: put_printable_def write_char_eq up_shift_console_eq set_cursor_eq Let_def console_consts)

lemma put_printable_ok:
  "console_ok s \<Longrightarrow> \<exists>s'. put_printable ch fg bg blink s = Some s' \<and> console_ok s'
     \<and> command_info s' = command_info s"
  by (auto simp: put_printable_eq console_ok_def console_consts)

lemma console_ok_reset:
  assumes "cursor_line (cursor_info s) < CONSOLE_HEIGHT" "cursor_column (cursor_info s) < CONSOLE_WIDTH"
  shows "console_ok (reset_command s)"
  using assms by (simp add: console_ok_def reset_command_def empty_command_info_def)

lemma console_ok_place:
  "console_ok s \<Longrightarrow> l < CONSOLE_HEIGHT \<Longrightarrow> c < CONSOLE_WIDTH \<Longrightarrow> console_ok (place_cursor l c s)"
  by (simp add: console_ok_def)

lemma console_ok_colors [simp]: "console_ok (set_colors fg bg blink s) = console_ok s"
  by (simp add: console_ok_def)

lemma console_ok_vram [simp]: "console_ok (s\<lparr>vram := v\<rparr>) = console_ok s"
  by (simp add: console_ok_def)

lemma command_char_ok:
  assumes "console_ok s"
  shows "\<exists>s'. command_char c s = Some s' \<and> console_ok s'"
proof -
  have pos: "cursor_line (cursor_info s) < CONSOLE_HEIGHT" "cursor_column (cursor_info s) < CONSOLE_WIDTH"
    using assms by (simp_all add: console_ok_def)
  consider "params_filled (command_info s) = 0"
    | "params_filled (command_info s) = 1" "is_B (command_param0 (command_info s))"
    | "params_filled (command_info s) = 1" "is_F (command_param0 (command_info s))"
    using assms by (auto simp: console_ok_def)
  then show ?thesis
  proof cases
    case 1
    have "is_B c \<or> is_F c \<Longrightarrow> console_ok (s\<lparr>command_info := (command_info s)\<lparr>command_param0 := c, params_filled := 1\<rparr>\<rparr>)"
      using pos by (simp add: console_ok_def)
    with 1 pos show ?thesis by (simp add: command_char_def console_ok_reset)
  next
    case 2
    with pos show ?thesis
      by (cases "bg_of_char c") (simp_all add: command_char_def Let_def console_ok_reset)
  next
    case 3
    then have "\<not> is_B (command_param0 (command_info s))" by auto
    with 3 pos show ?thesis
      by (cases "fg_of_char c") (simp_all add: command_char_def Let_def console_ok_reset)
  qed
qed

lemma treat_simple_ok:
  assumes "console_ok s"
  shows "\<exists>s'. treat_simple c fg bg blink s = Some s' \<and> console_ok s'"
proof (cases "command_requested (command_info s)")
  case True
  then show ?thesis using command_char_ok [OF assms] by (simp add: treat_simple_def)
next
  case False
  have "console_ok (s\<lparr>command_info := empty_command_info\<lparr>command_requested := True\<rparr>\<rparr>)"
    using assms by (simp add: console_ok_def empty_command_info_def)
  moreover have "cursor_line (cursor_info s) < CONSOLE_HEIGHT" "cursor_column (cursor_info s) < CONSOLE_WIDTH"
    "0 < CONSOLE_HEIGHT" "0 < CONSOLE_WIDTH"
    using assms by (simp_all add: console_ok_def console_consts)
  ultimately show ?thesis
    using False put_printable_ok [OF assms, of c fg bg blink] assms
    by (auto simp: treat_simple_def set_cursor_eq console_clear_eq console_ok_place)
qed

lemma repeat_space_ok: "console_ok s \<Longrightarrow> \<exists>s'. repeat_space n fg bg blink s = Some s' \<and> console_ok s'"
proof (induction n arbitrary: s)
  case 0
  then show ?case by simp
next
  case (Suc n)
  from treat_simple_ok [OF Suc.prems, of 32 fg bg blink] Suc.IH show ?case by force
qed

lemma treat_current_ok: "console_ok s \<Longrightarrow> \<exists>s'. treat_current c s = Some s' \<and> console_ok s'"
  by (simp add: treat_current_def treat_simple_ok)

lemma treat_current_printable:
  "\<not> command_requested (command_info s) \<Longrightarrow> printable c \<Longrightarrow>
   treat_current c s = put_printable c (last_foreground_color (cursor_info s))
     (last_background_color (cursor_info s)) (last_blink_state (cursor_info s)) s"
  by (simp add: treat_current_def treat_simple_def)

text \<open>At the start of a line the erased cell is the last of the line above, column 79.\<close>

lemma delete_last_char_line_start:
  assumes "console_ok s" "\<not> command_requested (command_info s)"
    and "cursor_column (cursor_info s) = 0" "cursor_line (cursor_info s) = Suc l"
  shows "\<exists>s1. delete_last_char s = Some (place_cursor l (CONSOLE_WIDTH - 1) s1)
    \<and> console_ok s1 \<and> command_info s1 = command_info s
    \<and> vram s1 = (vram s)(get_console_address l (CONSOLE_WIDTH - 1) := current_cell s 32)"
proof -
  have l: "Suc l < CONSOLE_HEIGHT" using assms(1,4) by (simp add: console_ok_def)
  define s0 where "s0 = place_cursor l (CONSOLE_WIDTH - 1) s"
  define s1 where "s1 = place_cursor (Suc l) 0
    (s0\<lparr>vram := (vram s)(get_console_address l (CONSOLE_WIDTH - 1) := current_cell s 32)\<rparr>)"
  have "set_cursor l (CONSOLE_WIDTH - 1) s = Some s0"
    using l by (simp add: set_cursor_eq s0_def console_consts)
  moreover have "treat_current 32 s0 = Some s1"
    using assms(2) l
    by (simp add: treat_current_printable put_printable_eq s0_def s1_def console_consts set_colors_id)
  moreover have "set_cursor l (CONSOLE_WIDTH - 1) s1 = Some (place_cursor l (CONSOLE_WIDTH - 1) s1)"
    using l by (simp add: set_cursor_eq console_consts)
  moreover have "console_ok s1" using assms(1) l
    by (simp add: s1_def s0_def console_ok_place console_consts)
  moreover have "cursor_line (cursor_info s1) = Suc l"
    by (simp add: s1_def)
  ultimately have "delete_last_char s = Some (place_cursor l (CONSOLE_WIDTH - 1) s1)"
    using assms(3,4) by (simp add: delete_last_char_def)
  then show ?thesis using \<open>console_ok s1\<close> by (intro exI [of _ s1]) (simp add: s1_def s0_def)
qed

lemma delete_last_char_ok:
  assumes "console_ok s" "\<not> command_requested (command_info s)"
  shows "\<exists>s'. delete_last_char s = Some s' \<and> console_ok s'"
proof (cases "cursor_column (cursor_info s) = 0")
  case True
  show ?thesis
  proof (cases "cursor_line (cursor_info s)")
    case 0
    with True assms(1) show ?thesis by (simp add: delete_last_char_def)
  next
    case (Suc l)
    then have "l < CONSOLE_HEIGHT" "CONSOLE_WIDTH - 1 < CONSOLE_WIDTH"
      using assms(1) by (simp_all add: console_ok_def console_consts)
    with delete_last_char_line_start [OF assms True Suc] show ?thesis
      by (auto intro: console_ok_place)
  qed
next
  case False
  from treat_current_ok assms(1) obtain s1 where s1: "treat_current 8 s = Some s1" "console_ok s1"
    by blast
  from treat_current_ok s1(2) obtain s2 where s2: "treat_current 32 s1 = Some s2" "console_ok s2"
    by blast
  from treat_current_ok [OF s2(2)] s1 s2 False show ?thesis by (auto simp: delete_last_char_def)
qed

lemma treat_char_ok: "console_ok s \<Longrightarrow> \<exists>s'. treat_char c fg bg blink s = Some s' \<and> console_ok s'"
  using command_char_ok [of s c] repeat_space_ok [of s] delete_last_char_ok [of s]
    treat_simple_ok [of s c fg bg blink]
  by (auto simp: treat_char_def)

lemma console_putbytes_ok: "console_ok s \<Longrightarrow> \<exists>s'. console_putbytes str s = Some s' \<and> console_ok s'"
proof (induction str arbitrary: s)
  case Nil
  then show ?case by simp
next
  case (Cons c str)
  obtain s1 where "treat_char c (last_foreground_color (cursor_info s))
      (last_background_color (cursor_info s)) (last_blink_state (cursor_info s)) s = Some s1" "console_ok s1"
    using treat_char_ok [OF Cons.prems] by blast
  with Cons.IH [of s1] show ?case by simp
qed

subsection \<open>Runs of printable characters\<close>

lemma treat_char_printable:
  assumes "printable c" "\<not> command_requested (command_info s)"
    and "cursor_line (cursor_info s) < CONSOLE_HEIGHT - 1"
    and "cursor_column (cursor_info s) < CONSOLE_WIDTH - 1"
  shows "treat_char c (last_foreground_color (cursor_info s)) (last_background_color (cursor_info s))
      (last_blink_state (cursor_info s)) s
    = Some (place_cursor
        (if cursor_column (cursor_info s) = CONSOLE_WIDTH - 2 then cursor_line (cursor_info s) + 1
         else cursor_line (cursor_info s))
        (if cursor_column (cursor_info s) = CONSOLE_WIDTH - 2 then 0
         else cursor_column (cursor_info s) + 1)
        (s\<lparr>vram := (vram s)(get_console_address (cursor_line (cursor_info s))
             (cursor_column (cursor_info s)) := current_cell s c)\<rparr>))"
  using assms
  by (auto simp: treat_char_def treat_simple_def put_printable_eq set_colors_vram_same console_consts)

lemma console_putbytes_printable:
  assumes "\<forall>c\<in>set str. printable c" "\<not> command_requested (command_info s)" "str \<noteq> []"
    and "cursor_line (cursor_info s) < CONSOLE_HEIGHT - 1"
    and "cursor_column (cursor_info s) + length str \<le> CONSOLE_WIDTH - 1"
    and "l = cursor_line (cursor_info s)" "c = cursor_column (cursor_info s)"
    and "a0 = get_console_address l c"
  shows "\<exists>s'. console_putbytes str s = Some s' \<and> command_info s' = command_info s
    \<and> vram s' = (\<lambda>a. if a0 \<le> a \<and> a < a0 + length str then current_cell s (str ! (a - a0)) else vram s a)
    \<and> cursor_info s' = (cursor_info s)
       \<lparr>cursor_line := (if c + length str = CONSOLE_WIDTH - 1 then l + 1 else l),
        cursor_column := (if c + length str = CONSOLE_WIDTH - 1 then 0 else c + length str)\<rparr>"
  using assms
proof (induction str arbitrary: s l c a0)
  case Nil
  then show ?case by simp
next
  case (Cons ch str)
  let ?l = "cursor_line (cursor_info s)" and ?c = "cursor_column (cursor_info s)"
  define s1 where "s1 = place_cursor (if ?c = CONSOLE_WIDTH - 2 then ?l + 1 else ?l)
    (if ?c = CONSOLE_WIDTH - 2 then 0 else ?c + 1)
    (s\<lparr>vram := (vram s)(get_console_address ?l ?c := current_cell s ch)\<rparr>)"
  have step: "console_putbytes (ch # str) s = console_putbytes str s1"
    using Cons.prems(1-5) treat_char_printable [of ch s] by (simp add: s1_def console_consts)
  have a0: "a0 = ?l * CONSOLE_WIDTH + ?c" using Cons.prems(6-) by (simp add: get_console_address_def)
  show ?case
  proof (cases "str = []")
    case True
    then show ?thesis unfolding step using Cons.prems(5-)
      by (auto simp: s1_def fun_eq_iff console_consts)
  next
    case False
    then have c: "?c + 1 < CONSOLE_WIDTH - 1" using Cons.prems(5) by (cases str) auto
    have s1: "cursor_line (cursor_info s1) = ?l" "cursor_column (cursor_info s1) = ?c + 1"
      "command_info s1 = command_info s" "\<And>x. current_cell s1 x = current_cell s x"
      using c by (auto simp: s1_def console_consts)
    have "\<exists>s'. console_putbytes str s1 = Some s' \<and> command_info s' = command_info s1
      \<and> vram s' = (\<lambda>a. if Suc a0 \<le> a \<and> a < Suc a0 + length str
          then current_cell s1 (str ! (a - Suc a0)) else vram s1 a)
      \<and> cursor_info s' = (cursor_info s1)
       \<lparr>cursor_line := (if ?c + 1 + length str = CONSOLE_WIDTH - 1 then ?l + 1 else ?l),
        cursor_column := (if ?c + 1 + length str = CONSOLE_WIDTH - 1 then 0 else ?c + 1 + length str)\<rparr>"
      using Cons.prems(1-5) False s1
      by (intro Cons.IH) (simp_all add: a0 get_console_address_def)
    then obtain s' where s': "console_putbytes str s1 = Some s'" "command_info s' = command_info s1"
      "vram s' = (\<lambda>a. if Suc a0 \<le> a \<and> a < Suc a0 + length str
          then current_cell s1 (str ! (a - Suc a0)) else vram s1 a)"
      "cursor_info s' = (cursor_info s1)
       \<lparr>cursor_line := (if ?c + 1 + length str = CONSOLE_WIDTH - 1 then ?l + 1 else ?l),
        cursor_column := (if ?c + 1 + length str = CONSOLE_WIDTH - 1 then 0 else ?c + 1 + length str)\<rparr>"
      by blast
    have "vram s1 = (vram s)(a0 := current_cell s ch)"
      by (simp add: s1_def a0 get_console_address_def)
    then have "vram s' = (\<lambda>a. if a0 \<le> a \<and> a < a0 + length (ch # str)
        then current_cell s ((ch # str) ! (a - a0)) else vram s a)"
      unfolding s'(3) s1(4) by (auto simp: fun_eq_iff nth_Cons')
    moreover have "(cursor_info s1)\<lparr>cursor_line := x, cursor_column := y\<rparr>
        = (cursor_info s)\<lparr>cursor_line := x, cursor_column := y\<rparr>" for x y
      by (simp add: s1_def)
    ultimately show ?thesis unfolding step using s' s1(3) Cons.prems(6-) by simp
  qed
qed

text \<open>The clock display: it fills the top right corner and leaves the cursor where it was.\<close>

lemma print_top_right_eq:
  assumes "\<forall>c\<in>set str. printable c" "str \<noteq> []" "length str < CONSOLE_WIDTH"
    and "console_ok s" "\<not> command_requested (command_info s)"
  shows "\<exists>s'. print_top_right str s = Some s' \<and> cursor_info s' = cursor_info s
    \<and> command_info s' = command_info s
    \<and> vram s' = (\<lambda>a. if CONSOLE_WIDTH - 1 - length str \<le> a \<and> a < CONSOLE_WIDTH - 1
        then current_cell s (str ! (a - (CONSOLE_WIDTH - 1 - length str))) else vram s a)"
proof -
  let ?col = "CONSOLE_WIDTH - (length str + 1)"
  define s1 where "s1 = place_cursor 0 ?col s"
  have "set_cursor 0 ?col s = Some s1"
    using assms(3) by (simp add: set_cursor_eq s1_def console_consts)
  moreover have s1: "\<And>x. current_cell s1 x = current_cell s x" "vram s1 = vram s"
    "command_info s1 = command_info s"
    "cursor_info s1 = (cursor_info s)\<lparr>cursor_line := 0, cursor_column := ?col\<rparr>"
    by (simp_all add: s1_def)
  moreover obtain s2 where s2: "console_putbytes str s1 = Some s2" "command_info s2 = command_info s"
    "vram s2 = (\<lambda>a. if ?col \<le> a \<and> a < ?col + length str then current_cell s (str ! (a - ?col)) else vram s a)"
    "cursor_info s2 = (cursor_info s)\<lparr>cursor_line := 1, cursor_column := 0\<rparr>"
    using console_putbytes_printable [of str s1 0 ?col ?col] assms unfolding s1
    by (auto simp: get_console_address_def console_consts cong: if_cong)
  moreover have "set_cursor (cursor_line (cursor_info s)) (cursor_column (cursor_info s)) s2
      = Some (place_cursor (cursor_line (cursor_info s)) (cursor_column (cursor_info s)) s2)"
    using assms(4) by (simp add: set_cursor_eq console_ok_def)
  moreover have "?col = CONSOLE_WIDTH - 1 - length str" "?col + length str = CONSOLE_WIDTH - 1"
    using assms(3) by simp_all
  ultimately show ?thesis using assms(3) by (simp add: print_top_right_def Let_def cong: if_cong)
qed

subsection \<open>Properties\<close>

text \<open>The console as the kernel finds it, with some contents of the video memory.\<close>

definition initial_console :: console where
  "initial_console = \<lparr>cursor_info = initial_cursor_info, command_info = empty_command_info,
     vram = (\<lambda>_. 0), outb_log = []\<rparr>"

lemma console_ok_initial [simp]: "console_ok initial_console"
  by (simp add: console_ok_def initial_console_def initial_cursor_info_def empty_command_info_def console_consts)

lemma initial_console_no_command [simp]: "\<not> command_requested (command_info initial_console)"
  by (simp add: initial_console_def empty_command_info_def)

text \<open>C33: no byte string makes the console fail: from a well-formed console every \<open>cons_write\<close>
  returns, none of the assertions of \<open>write_char\<close>, \<open>set_cursor\<close> and \<open>treat_char\<close> is violated,
  the cursor stays on the screen and a pending escape sequence stays well formed.\<close>

theorem cons_write_never_panics:
  assumes "console_ok s"
  shows "\<exists>s'. cons_write str s = Some s' \<and> console_ok s'"
  using console_putbytes_ok [OF assms] by (simp add: cons_write_def)

theorem cons_write_never_panics_witness:
  "\<exists>s'. cons_write [27, 66, 127, 10, 9, 127, 8, 12, 200] initial_console = Some s' \<and> console_ok s'"
  using cons_write_never_panics [OF console_ok_initial] by blast

text \<open>a run of printable characters that fits before column 79 is stored in consecutive cells
  with the current colours, no other cell changes, and the cursor stands after the last one, at
  the start of the next line when the run reached column 79.\<close>

theorem console_putbytes_stores_run:
  assumes "\<forall>c\<in>set str. printable c" "\<not> command_requested (command_info s)" "str \<noteq> []"
    and "cursor_line (cursor_info s) < CONSOLE_HEIGHT - 1"
    and "cursor_column (cursor_info s) + length str \<le> CONSOLE_WIDTH - 1"
  defines "l \<equiv> cursor_line (cursor_info s)" and "c \<equiv> cursor_column (cursor_info s)"
  shows "\<exists>s'. console_putbytes str s = Some s' \<and> command_info s' = command_info s
    \<and> vram s' = (\<lambda>a. if get_console_address l c \<le> a \<and> a < get_console_address l c + length str
        then cell_value (str ! (a - get_console_address l c)) (last_foreground_color (cursor_info s))
          (last_background_color (cursor_info s)) (last_blink_state (cursor_info s))
        else vram s a)
    \<and> cursor_info s' = (cursor_info s)
       \<lparr>cursor_line := (if c + length str = CONSOLE_WIDTH - 1 then l + 1 else l),
        cursor_column := (if c + length str = CONSOLE_WIDTH - 1 then 0 else c + length str)\<rparr>"
  unfolding l_def c_def by (rule console_putbytes_printable [OF assms(1-5) refl refl refl])

theorem console_putbytes_stores_run_witness:
  "\<exists>s'. console_putbytes [72, 105] initial_console = Some s' \<and> cursor_column (cursor_info s') = 2"
proof -
  have "\<forall>c\<in>set [72, 105]. printable c" by simp
  moreover have "cursor_line (cursor_info initial_console) = 0" "cursor_column (cursor_info initial_console) = 0"
    by (simp_all add: initial_console_def initial_cursor_info_def)
  ultimately show ?thesis
    using console_putbytes_stores_run [of "[72, 105]" initial_console]
    by (auto simp: CONSOLE_WIDTH_def CONSOLE_HEIGHT_def)
qed

text \<open>\<open>print_top_right\<close> (the clock display, run from the timer interrupt at any point of a
  program's output) writes its text right-aligned before column 79 of the first line and leaves
  the cursor, the colours and every other cell as they were, when no escape sequence is pending.\<close>

theorem print_top_right_transparent:
  assumes "\<forall>c\<in>set str. printable c" "str \<noteq> []" "length str < CONSOLE_WIDTH"
    and "console_ok s" "\<not> command_requested (command_info s)"
  shows "\<exists>s'. print_top_right str s = Some s' \<and> cursor_info s' = cursor_info s
    \<and> command_info s' = command_info s
    \<and> vram s' = (\<lambda>a. if CONSOLE_WIDTH - 1 - length str \<le> a \<and> a < CONSOLE_WIDTH - 1
        then cell_value (str ! (a - (CONSOLE_WIDTH - 1 - length str))) (last_foreground_color (cursor_info s))
          (last_background_color (cursor_info s)) (last_blink_state (cursor_info s))
        else vram s a)"
  using print_top_right_eq [OF assms] .

theorem print_top_right_transparent_witness:
  "\<exists>s'. print_top_right [48, 48, 58, 48, 49] initial_console = Some s' \<and> cursor_info s' = initial_cursor_info"
  using print_top_right_transparent [of "[48, 48, 58, 48, 49]" initial_console]
  by (auto simp: CONSOLE_WIDTH_def initial_console_def empty_command_info_def console_ok_initial [unfolded initial_console_def empty_command_info_def])

text \<open>deleting at the start of a line blanks column 79 of the line above and puts the cursor
  there, a cell \<open>treat_char\<close> never fills with text (lines wrap after column 78), so the last
  character of the line above is kept.\<close>

theorem delete_at_line_start_misses_text:
  assumes "console_ok s" "\<not> command_requested (command_info s)"
    and "cursor_column (cursor_info s) = 0" "cursor_line (cursor_info s) = Suc l"
  shows "\<exists>s'. console_putbytes [127] s = Some s' \<and> cursor_line (cursor_info s') = l
    \<and> cursor_column (cursor_info s') = CONSOLE_WIDTH - 1
    \<and> vram s' (get_console_address l (CONSOLE_WIDTH - 2)) = vram s (get_console_address l (CONSOLE_WIDTH - 2))"
proof -
  obtain s1 where "delete_last_char s = Some (place_cursor l (CONSOLE_WIDTH - 1) s1)"
    "vram s1 = (vram s)(get_console_address l (CONSOLE_WIDTH - 1) :=
      cell_value 32 (last_foreground_color (cursor_info s)) (last_background_color (cursor_info s))
        (last_blink_state (cursor_info s)))"
    using delete_last_char_line_start [OF assms] by blast
  moreover have "get_console_address l (CONSOLE_WIDTH - 2) \<noteq> get_console_address l (CONSOLE_WIDTH - 1)"
    by (simp add: get_console_address_def CONSOLE_WIDTH_def)
  ultimately show ?thesis using assms(2) by (simp add: treat_char_def)
qed

theorem delete_at_line_start_misses_text_witness:
  "\<exists>s'. console_putbytes [127] (place_cursor 3 0 initial_console) = Some s'
    \<and> cursor_line (cursor_info s') = 2 \<and> cursor_column (cursor_info s') = CONSOLE_WIDTH - 1"
  using delete_at_line_start_misses_text [of "place_cursor 3 0 initial_console" 2]
  by (auto simp: console_ok_place console_consts)

end
