(* ===== verification/Doprnt.thy ===== *)
theory Doprnt
  imports Console
begin

text \<open>
  Formatted output: \<^verbatim>\<open>shared/doprnt.c\<close>, and the two families of printers built on it,
  \<^verbatim>\<open>shared/printf.c\<close> (to the console, through a 128-byte buffer) and \<^verbatim>\<open>shared/sprintf.c\<close>
  (to memory). The build defines no \<open>DOPRNT_FLOATS\<close>, and \<open>_doprnt_truncates\<close> is never set.

  A format or string is its list of bytes before the terminating zero. The variadic arguments
  are a list of 32-bit words and strings; reading an argument that is not there, or of the
  other kind, has no defined result (\<open>None\<close>), like a division by a zero radix, a digit
  outside the digit table or a shift by a count outside the word. The \<open>putc\<close> callback keeps
  its state behind \<open>putc_arg\<close> only, so \<open>_doprnt\<close> is the list of the characters it passes to
  it, and the printers fold their callback over that list. Field widths are unbounded integers.
\<close>

subsection \<open>Numbers\<close>

definition MAXBUF :: nat where "MAXBUF = 32"

definition digit_char :: "nat \<Rightarrow> nat" where
  "digit_char d = (if d < 10 then 48 + d else if d < 16 then 87 + d else 0)"

text \<open>The digit loop, with the bytes left in the buffer; writing below it is \<open>None\<close>.\<close>

fun digit_loop :: "nat \<Rightarrow> nat \<Rightarrow> nat \<Rightarrow> nat list \<Rightarrow> nat list option" where
  "digit_loop 0 base u acc = None"
| "digit_loop (Suc room) base u acc =
     (if base = 0 \<or> 16 < u mod base then None
      else if u div base = 0 then Some (digit_char (u mod base) # acc)
      else digit_loop room base (u div base) (digit_char (u mod base) # acc))"

definition printnum :: "nat \<Rightarrow> nat \<Rightarrow> nat list option" where
  "printnum u base = digit_loop MAXBUF base u []"

subsection \<open>Directives\<close>

datatype va_arg = Arg_word "32 word" | Arg_string "nat list option"

record flags =
  f_length :: int
  f_prec :: int
  f_ladjust :: bool
  f_padc :: nat
  f_plus_sign :: nat
  f_altfmt :: bool

definition no_flags :: flags where
  "no_flags = \<lparr>f_length = 0, f_prec = -1, f_ladjust = False, f_padc = 32, f_plus_sign = 0,
     f_altfmt = False\<rparr>"

fun take_word :: "va_arg list \<Rightarrow> (32 word \<times> va_arg list) option" where
  "take_word (Arg_word w # args) = Some (w, args)"
| "take_word _ = None"

fun take_string :: "va_arg list \<Rightarrow> (nat list option \<times> va_arg list) option" where
  "take_string (Arg_string s # args) = Some (s, args)"
| "take_string _ = None"

definition isdigit :: "nat \<Rightarrow> bool" where "isdigit d \<longleftrightarrow> 48 \<le> d \<and> d \<le> 57"

fun parse_flags :: "flags \<Rightarrow> nat list \<Rightarrow> flags \<times> nat list" where
  "parse_flags f [] = (f, [])"
| "parse_flags f (c # fmt) =
     (if c = 35 then parse_flags (f\<lparr>f_altfmt := True\<rparr>) fmt
      else if c = 45 then parse_flags (f\<lparr>f_ladjust := True\<rparr>) fmt
      else if c = 43 then parse_flags (f\<lparr>f_plus_sign := 43\<rparr>) fmt
      else if c = 32 then parse_flags (if f_plus_sign f = 0 then f\<lparr>f_plus_sign := 32\<rparr> else f) fmt
      else (f, c # fmt))"

fun parse_digits :: "int \<Rightarrow> nat list \<Rightarrow> int \<times> nat list" where
  "parse_digits v [] = (v, [])"
| "parse_digits v (c # fmt) =
     (if isdigit c then parse_digits (10 * v + (int c - 48)) fmt else (v, c # fmt))"

definition starts_with :: "(nat \<Rightarrow> bool) \<Rightarrow> nat list \<Rightarrow> bool" where
  "starts_with P fmt \<longleftrightarrow> fmt \<noteq> [] \<and> P (hd fmt)"

definition parse_width :: "flags \<Rightarrow> nat list \<Rightarrow> va_arg list \<Rightarrow> (flags \<times> nat list \<times> va_arg list) option" where
  "parse_width f fmt args =
     (if starts_with isdigit fmt then
        (let (v, fmt) = parse_digits 0 fmt in Some (f\<lparr>f_length := v\<rparr>, fmt, args))
      else if starts_with (\<lambda>c. c = 42) fmt then do {
        (w, args) \<leftarrow> take_word args;
        Some (if sint w < 0 then f\<lparr>f_ladjust := \<not> f_ladjust f, f_length := - sint w\<rparr>
              else f\<lparr>f_length := sint w\<rparr>, tl fmt, args)
      }
      else Some (f, fmt, args))"

definition parse_prec :: "flags \<Rightarrow> nat list \<Rightarrow> va_arg list \<Rightarrow> (flags \<times> nat list \<times> va_arg list) option" where
  "parse_prec f fmt args =
     (if starts_with (\<lambda>c. c = 46) fmt then
        (let fmt = tl fmt in
         if starts_with isdigit fmt then
           (let (v, fmt) = parse_digits 0 fmt in Some (f\<lparr>f_prec := v\<rparr>, fmt, args))
         else if starts_with (\<lambda>c. c = 42) fmt then do {
           (w, args) \<leftarrow> take_word args;
           Some (f\<lparr>f_prec := sint w\<rparr>, tl fmt, args)
         }
         else Some (f, fmt, args))
      else Some (f, fmt, args))"

text \<open>The part of a directive before its conversion character.\<close>

definition parse_spec :: "nat list \<Rightarrow> va_arg list \<Rightarrow> (flags \<times> nat list \<times> va_arg list) option" where
  "parse_spec fmt args = do {
     let (f, fmt) = parse_flags no_flags fmt;
     let (f, fmt) = (if starts_with (\<lambda>c. c = 48) fmt then (f\<lparr>f_padc := 48\<rparr>, tl fmt) else (f, fmt));
     (f, fmt, args) \<leftarrow> parse_width f fmt args;
     (f, fmt, args) \<leftarrow> parse_prec f fmt args;
     Some (f, if starts_with (\<lambda>c. c = 108) fmt then tl fmt else fmt, args)
   }"

subsection \<open>Conversions\<close>

text \<open>The block \<open>print_num\<close>. Blank padding goes before sign and prefix, zero padding after.\<close>

definition print_num :: "flags \<Rightarrow> nat \<Rightarrow> nat \<Rightarrow> nat \<Rightarrow> nat list option" where
  "print_num f sign_char u base = do {
     let prefix = (if u \<noteq> 0 \<and> f_altfmt f
       then (if base = 8 then [48] else if base = 16 then [48, 120] else []) else []);
     digits \<leftarrow> printnum u base;
     let prec = f_prec f - int (length digits);
     let len = f_length f - int (length digits);
     let len = (if sign_char \<noteq> 0 then len - 1 else len);
     let len = len - int (length prefix);
     let len = (if prec > 0 then len - prec else len);
     Some ((if f_padc f = 32 \<and> \<not> f_ladjust f then replicate (nat len) 32 else [])
       @ (if sign_char \<noteq> 0 then [sign_char] else []) @ prefix
       @ replicate (nat prec) 48
       @ (if f_padc f = 48 then replicate (nat len) 48 else [])
       @ digits
       @ (if f_ladjust f \<and> f_padc f \<noteq> 48 then replicate (nat len) 32 else []))
   }"

definition print_signed :: "flags \<Rightarrow> nat \<Rightarrow> va_arg list \<Rightarrow> (nat list \<times> va_arg list) option" where
  "print_signed f base args = do {
     (w, args) \<leftarrow> take_word args;
     out \<leftarrow> (if sint w \<ge> 0 then print_num f (f_plus_sign f) (unat w) base
             else print_num f 45 (unat (- w)) base);
     Some (out, args)
   }"

definition print_unsigned :: "flags \<Rightarrow> nat \<Rightarrow> va_arg list \<Rightarrow> (nat list \<times> va_arg list) option" where
  "print_unsigned f base args = do {
     (w, args) \<leftarrow> take_word args;
     out \<leftarrow> print_num f 0 (unat w) base;
     Some (out, args)
   }"

definition print_string :: "flags \<Rightarrow> nat list option \<Rightarrow> nat list" where
  "print_string f s =
     (let p = (case s of None \<Rightarrow> [] | Some p \<Rightarrow> p);
          prec = (if f_prec f = -1 then 0x7fffffff else f_prec f);
          shown = min (length p) (nat prec);
          n = (if int (length p) \<le> prec then int (length p) else if prec < 0 then (if p = [] then 0 else 1)
               else prec + 1)
      in (if f_length f > 0 \<and> \<not> f_ladjust f then replicate (nat (f_length f - int shown)) 32 else [])
         @ take shown p
         @ (if f_ladjust f then replicate (nat (f_length f - n)) 32 else []))"

text \<open>\<open>char\<close> is signed: bytes from 128 compare as negative numbers.\<close>

definition schar :: "nat \<Rightarrow> int" where
  "schar c = (if c < 128 then int c else int c - 256)"

abbreviation name_char :: "nat \<Rightarrow> bool" where "name_char c \<equiv> 32 < schar c"

function bit_names :: "nat \<Rightarrow> nat \<Rightarrow> bool \<Rightarrow> nat list \<Rightarrow> nat list option" where
  "bit_names u base any [] = Some (if any then [62] else [])"
| "bit_names u base any (i # p) =
     (if p = [] \<or> schar (hd p) \<le> 32 then
        (case p of [] \<Rightarrow> None
         | j # p \<Rightarrow>
             (if schar j \<le> 0 \<or> 32 < schar j \<or> schar i < schar j \<or> schar i - schar j > 29 then None
              else do {
                num \<leftarrow> printnum (u div 2 ^ (j - 1) mod 2 ^ (i - j + 1)) base;
                rest \<leftarrow> bit_names u base True (dropWhile name_char p);
                Some ((if any then 44 else 60) # takeWhile name_char p @ num @ rest)
              }))
      else if schar i \<le> 0 \<or> 32 < schar i then None
      else if bit u (i - 1) then do {
        rest \<leftarrow> bit_names u base True (dropWhile name_char p);
        Some ((if any then 44 else 60) # takeWhile name_char p @ rest)
      }
      else bit_names u base any (dropWhile name_char p))"
  by pat_completeness auto

termination
  by (relation "measure (\<lambda>(u, base, any, p). length p)")
     (auto simp: less_Suc_eq_le length_dropWhile_le intro: le_trans [OF length_dropWhile_le])

definition print_bits :: "va_arg list \<Rightarrow> (nat list \<times> va_arg list) option" where
  "print_bits args = do {
     (w, args) \<leftarrow> take_word args;
     (s, args) \<leftarrow> take_string args;
     p \<leftarrow> s;
     kassert (p \<noteq> []);
     let base = nat (schar (hd p) mod 2 ^ 32);
     num \<leftarrow> printnum (unat w) base;
     names \<leftarrow> (if w = 0 then Some [] else bit_names (unat w) base False (tl p));
     Some (num @ names, args)
   }"

text \<open>The switch on the conversion character; \<open>None\<close> as the character is the end of the format.\<close>

definition convert :: "flags \<Rightarrow> nat \<Rightarrow> nat option \<Rightarrow> va_arg list \<Rightarrow> (nat list \<times> va_arg list) option" where
  "convert f radix c args =
     (case c of None \<Rightarrow> Some ([], args)
      | Some c \<Rightarrow>
          (if c \<in> {98, 66} then print_bits args
           else if c = 99 then do { (w, args) \<leftarrow> take_word args; Some ([unat w mod 256], args) }
           else if c = 115 then do { (s, args) \<leftarrow> take_string args; Some (print_string f s, args) }
           else if c \<in> {111, 79} then print_unsigned f 8 args
           else if c \<in> {100, 105, 68} then print_signed f 10 args
           else if c \<in> {117, 85} then print_unsigned f 10 args
           else if c = 112 then do {
             (out, args) \<leftarrow> print_unsigned (f\<lparr>f_padc := 48, f_length := 8\<rparr>) 16 args;
             Some (48 # 120 # out, args)
           }
           else if c \<in> {120, 88} then print_unsigned f 16 args
           else if c \<in> {122, 90} then print_signed f 16 args
           else if c \<in> {114, 82} then print_signed f radix args
           else if c \<in> {110, 78} then print_unsigned f radix args
           else Some ([c], args)))"

definition directive :: "nat list \<Rightarrow> va_arg list \<Rightarrow> nat \<Rightarrow> (nat list \<times> nat list \<times> va_arg list) option" where
  "directive fmt args radix = do {
     (f, fmt, args) \<leftarrow> parse_spec fmt args;
     (out, args) \<leftarrow> convert f radix (case fmt of [] \<Rightarrow> None | c # _ \<Rightarrow> Some c) args;
     Some (out, tl fmt, args)
   }"

lemma length_parse_flags: "length (snd (parse_flags f fmt)) \<le> length fmt"
  by (induction f fmt rule: parse_flags.induct) auto

lemma length_parse_digits: "length (snd (parse_digits v fmt)) \<le> length fmt"
  by (induction v fmt rule: parse_digits.induct) auto

lemma length_parse_width:
  "parse_width f fmt args = Some (f', fmt', args') \<Longrightarrow> length fmt' \<le> length fmt"
  using length_parse_digits [of 0 fmt]
  by (auto simp: parse_width_def Let_def split: prod.splits if_splits option.splits bind_splits)

lemma length_parse_prec:
  "parse_prec f fmt args = Some (f', fmt', args') \<Longrightarrow> length fmt' \<le> length fmt"
  using length_parse_digits [of 0 "tl fmt"]
  by (auto simp: parse_prec_def Let_def split: prod.splits if_splits option.splits bind_splits)

lemma length_parse_spec:
  assumes "parse_spec fmt args = Some (f', fmt', args')"
  shows "length fmt' \<le> length fmt"
proof -
  obtain f1 fmt1 where p1: "parse_flags no_flags fmt = (f1, fmt1)" by force
  define s2 where "s2 = (if starts_with (\<lambda>c. c = 48) fmt1 then (f1\<lparr>f_padc := 48\<rparr>, tl fmt1) else (f1, fmt1))"
  have l1: "length fmt1 \<le> length fmt" using length_parse_flags [of no_flags fmt] p1 by simp
  have l2: "length (snd s2) \<le> length fmt1" by (simp add: s2_def)
  from assms obtain f3 fmt3 args3 f4 fmt4 args4 where
    w: "parse_width (fst s2) (snd s2) args = Some (f3, fmt3, args3)"
      "parse_prec f3 fmt3 args3 = Some (f4, fmt4, args4)"
      "fmt' = (if starts_with (\<lambda>c. c = 108) fmt4 then tl fmt4 else fmt4)"
    by (auto simp: parse_spec_def p1 s2_def [symmetric] split: prod.splits bind_splits)
  show ?thesis using l1 l2 length_parse_width [OF w(1)] length_parse_prec [OF w(2)] w(3)
    by (auto split: if_splits)
qed

lemma length_directive:
  "directive fmt args radix = Some (out, fmt', args') \<Longrightarrow> length fmt' \<le> length fmt"
  using length_parse_spec by (fastforce simp: directive_def split: bind_splits)

function doprnt :: "nat list \<Rightarrow> va_arg list \<Rightarrow> nat \<Rightarrow> nat list option" where
  "doprnt [] args radix = Some []"
| "doprnt (c # fmt) args radix =
     (if c \<noteq> 37 then map_option (\<lambda>out. c # out) (doprnt fmt args radix)
      else (case directive fmt args radix of None \<Rightarrow> None
        | Some (out, fmt', args') \<Rightarrow> map_option (\<lambda>out'. out @ out') (doprnt fmt' args' radix)))"
  by pat_completeness auto

termination
  by (relation "measure (\<lambda>(fmt, args, radix). length fmt)") (auto dest: length_directive)

subsection \<open>Printing to the console\<close>

definition PRINTF_BUFMAX :: nat where "PRINTF_BUFMAX = 128"

text \<open>\<open>printf_state\<close> is the buffer up to its index, with the console behind it.\<close>

record printf_state =
  pbuf :: "nat list"
  pcons :: console

definition flush :: "printf_state \<Rightarrow> printf_state option" where
  "flush st = do {
     con \<leftarrow> console_putbytes (pbuf st) (pcons st);
     Some \<lparr>pbuf = [], pcons = con\<rparr>
   }"

definition printf_char :: "nat \<Rightarrow> printf_state \<Rightarrow> printf_state option" where
  "printf_char c st =
     (if c = 0 \<or> c = 10 \<or> length (pbuf st) \<ge> PRINTF_BUFMAX then do {
        st \<leftarrow> flush st;
        con \<leftarrow> console_putbytes [c] (pcons st);
        Some (st\<lparr>pcons := con\<rparr>)
      } else Some (st\<lparr>pbuf := pbuf st @ [c]\<rparr>))"

fun printf_chars :: "nat list \<Rightarrow> printf_state \<Rightarrow> printf_state option" where
  "printf_chars [] st = Some st"
| "printf_chars (c # cs) st = Option.bind (printf_char c st) (printf_chars cs)"

definition vprintf :: "nat list \<Rightarrow> va_arg list \<Rightarrow> console \<Rightarrow> (int \<times> console) option" where
  "vprintf fmt args con = do {
     out \<leftarrow> doprnt fmt args 0;
     st \<leftarrow> printf_chars out \<lparr>pbuf = [], pcons = con\<rparr>;
     st \<leftarrow> (if pbuf st \<noteq> [] then flush st else Some st);
     Some (0, pcons st)
   }"

definition printf :: "nat list \<Rightarrow> va_arg list \<Rightarrow> console \<Rightarrow> (int \<times> console) option" where
  "printf fmt args con = vprintf fmt args con"

definition putchar :: "int \<Rightarrow> console \<Rightarrow> (nat \<times> console) option" where
  "putchar c con = do {
     let ch = nat (c mod 256);
     con \<leftarrow> console_putbytes [ch] con;
     Some (ch, con)
   }"

fun puts_loop :: "nat list \<Rightarrow> console \<Rightarrow> console option" where
  "puts_loop [] con = Some con"
| "puts_loop (c # cs) con = do { (r, con) \<leftarrow> putchar (int c) con; puts_loop cs con }"

definition puts :: "nat list \<Rightarrow> console \<Rightarrow> (int \<times> console) option" where
  "puts str con = do {
     con \<leftarrow> puts_loop str con;
     (r, con) \<leftarrow> putchar 10 con;
     Some (0, con)
   }"

lemma console_putbytes_append:
  "console_putbytes (xs @ ys) s = Option.bind (console_putbytes xs s) (console_putbytes ys)"
proof (induction xs arbitrary: s)
  case Nil
  then show ?case by simp
next
  case (Cons c xs)
  then show ?case
    by (cases "treat_char c (last_foreground_color (cursor_info s))
        (last_background_color (cursor_info s)) (last_blink_state (cursor_info s)) s") simp_all
qed

definition pending :: "printf_state \<Rightarrow> console option" where
  "pending st = console_putbytes (pbuf st) (pcons st)"

lemma printf_char_pending:
  "Option.bind (printf_char c st) pending = Option.bind (pending st) (console_putbytes [c])"
proof (cases "c = 0 \<or> c = 10 \<or> length (pbuf st) \<ge> PRINTF_BUFMAX")
  case True
  then show ?thesis
    by (cases "console_putbytes (pbuf st) (pcons st)")
       (auto simp: printf_char_def flush_def pending_def Option.bind_eq_None_conv split: bind_splits)
next
  case False
  then show ?thesis by (simp add: printf_char_def pending_def console_putbytes_append)
qed

lemma printf_chars_pending:
  "Option.bind (printf_chars cs st) pending = Option.bind (pending st) (console_putbytes cs)"
proof (induction cs arbitrary: st)
  case Nil
  then show ?case by (cases "pending st") auto
next
  case (Cons c cs)
  have "Option.bind (printf_chars (c # cs) st) pending
      = Option.bind (printf_char c st) (\<lambda>st'. Option.bind (printf_chars cs st') pending)"
    by (cases "printf_char c st") auto
  also have "\<dots> = Option.bind (Option.bind (printf_char c st) pending) (console_putbytes cs)"
    by (cases "printf_char c st") (auto simp: Cons.IH)
  also have "\<dots> = Option.bind (pending st) (console_putbytes (c # cs))"
    unfolding printf_char_pending
    using console_putbytes_append [of "[c]" cs] by (cases "pending st") simp_all
  finally show ?case .
qed

lemma printf_chars_buffer_bound:
  "printf_chars cs st = Some st' \<Longrightarrow> length (pbuf st) \<le> PRINTF_BUFMAX \<Longrightarrow> length (pbuf st') \<le> PRINTF_BUFMAX"
proof (induction cs arbitrary: st)
  case Nil
  then show ?case by simp
next
  case (Cons c cs)
  then obtain st1 where st1: "printf_char c st = Some st1" "printf_chars cs st1 = Some st'"
    by (auto split: bind_splits)
  then have "length (pbuf st1) \<le> PRINTF_BUFMAX"
    using Cons.prems(2) by (auto simp: printf_char_def flush_def split: bind_splits if_splits)
  with Cons.IH st1(2) show ?case by blast
qed

text \<open>The buffer of \<open>printf\<close> never changes what reaches the console.\<close>

lemma vprintf_eq:
  "vprintf fmt args con = do {
     out \<leftarrow> doprnt fmt args 0;
     con \<leftarrow> console_putbytes out con;
     Some (0, con)
   }"
proof (cases "doprnt fmt args 0")
  case None
  then show ?thesis by (simp add: vprintf_def)
next
  case (Some out)
  let ?st = "\<lparr>pbuf = [], pcons = con\<rparr>"
  have "Option.bind (printf_chars out ?st) pending = console_putbytes out con"
    unfolding printf_chars_pending by (simp add: pending_def)
  moreover have "(if pbuf st \<noteq> [] then flush st else Some st) = Option.bind (pending st)
      (\<lambda>con. Some \<lparr>pbuf = [], pcons = con\<rparr>)" for st
    by (cases st) (auto simp: flush_def pending_def)
  ultimately show ?thesis using Some
    by (cases "printf_chars out ?st") (auto simp: vprintf_def split: bind_splits)
qed

subsection \<open>Printing to memory\<close>

definition SPRINTF_UNLIMITED :: nat where "SPRINTF_UNLIMITED = 0xFFFFFFF"

record sprintf_state =
  sbuf :: nat
  slen :: nat
  smax :: nat
  smem :: "nat \<Rightarrow> nat"

definition savechar :: "nat \<Rightarrow> sprintf_state \<Rightarrow> sprintf_state" where
  "savechar c st =
     (if smax st \<noteq> SPRINTF_UNLIMITED \<and> slen st = smax st then st
      else st\<lparr>slen := slen st + 1, smem := (smem st)(sbuf st := c), sbuf := sbuf st + 1\<rparr>)"

definition vsnprintf_max ::
  "nat \<Rightarrow> nat \<Rightarrow> nat list \<Rightarrow> va_arg list \<Rightarrow> (nat \<Rightarrow> nat) \<Rightarrow> (nat \<times> (nat \<Rightarrow> nat)) option" where
  "vsnprintf_max mx s fmt args mem = do {
     out \<leftarrow> doprnt fmt args 0;
     let st = fold savechar out \<lparr>sbuf = s, slen = 0, smax = mx, smem = mem\<rparr>;
     Some (slen st, (smem st)(sbuf st := 0))
   }"

definition vsprintf :: "nat \<Rightarrow> nat list \<Rightarrow> va_arg list \<Rightarrow> (nat \<Rightarrow> nat) \<Rightarrow> (nat \<times> (nat \<Rightarrow> nat)) option" where
  "vsprintf s fmt args mem = vsnprintf_max SPRINTF_UNLIMITED s fmt args mem"

definition vsnprintf ::
  "nat \<Rightarrow> nat \<Rightarrow> nat list \<Rightarrow> va_arg list \<Rightarrow> (nat \<Rightarrow> nat) \<Rightarrow> (nat \<times> (nat \<Rightarrow> nat)) option" where
  "vsnprintf s sz fmt args mem = vsnprintf_max sz s fmt args mem"

definition sprintf :: "nat \<Rightarrow> nat list \<Rightarrow> va_arg list \<Rightarrow> (nat \<Rightarrow> nat) \<Rightarrow> (nat \<times> (nat \<Rightarrow> nat)) option" where
  "sprintf s fmt args mem = vsprintf s fmt args mem"

definition snprintf ::
  "nat \<Rightarrow> nat \<Rightarrow> nat list \<Rightarrow> va_arg list \<Rightarrow> (nat \<Rightarrow> nat) \<Rightarrow> (nat \<times> (nat \<Rightarrow> nat)) option" where
  "snprintf s sz fmt args mem = vsnprintf s sz fmt args mem"

lemma fold_savechar_unlimited:
  "smax st = SPRINTF_UNLIMITED \<Longrightarrow> fold savechar out st =
   st\<lparr>slen := slen st + length out, sbuf := sbuf st + length out,
      smem := store_bytes (sbuf st) out (smem st)\<rparr>"
  by (induction out arbitrary: st) (auto simp: savechar_def store_bytes_Cons)

lemma fold_savechar_limited:
  "smax st \<noteq> SPRINTF_UNLIMITED \<Longrightarrow> slen st \<le> smax st \<Longrightarrow> fold savechar out st =
   (let n = min (length out) (smax st - slen st) in
    st\<lparr>slen := slen st + n, sbuf := sbuf st + n, smem := store_bytes (sbuf st) (take n out) (smem st)\<rparr>)"
proof (induction out arbitrary: st)
  case Nil
  then show ?case by simp
next
  case (Cons c out)
  show ?case
  proof (cases "slen st = smax st")
    case True
    then show ?thesis using Cons by (simp add: savechar_def)
  next
    case False
    then have "smax st - slen st = Suc (smax st - Suc (slen st))" using Cons.prems by simp
    with False Cons show ?thesis
      by (simp add: savechar_def Let_def store_bytes_Cons)
  qed
qed

subsection \<open>Digit strings\<close>

definition digit_value :: "nat \<Rightarrow> nat" where
  "digit_value c = (if c < 58 then c - 48 else c - 87)"

definition number_value :: "nat \<Rightarrow> nat list \<Rightarrow> nat" where
  "number_value base ds = foldl (\<lambda>v c. v * base + digit_value c) 0 ds"

definition numeral_of :: "nat \<Rightarrow> nat \<Rightarrow> nat list \<Rightarrow> bool" where
  "numeral_of base u ds \<longleftrightarrow> ds \<noteq> [] \<and> number_value base ds = u
     \<and> (\<forall>c\<in>set ds. (48 \<le> c \<and> c \<le> 57 \<or> 97 \<le> c \<and> c \<le> 102) \<and> digit_value c < base)
     \<and> (hd ds = 48 \<longrightarrow> ds = [48])"

lemma digit_value_char: "d < 16 \<Longrightarrow> digit_value (digit_char d) = d"
  by (auto simp: digit_value_def digit_char_def)

lemma digit_char_range:
  "d < 16 \<Longrightarrow> 48 \<le> digit_char d \<and> digit_char d \<le> 57 \<or> 97 \<le> digit_char d \<and> digit_char d \<le> 102"
  by (auto simp: digit_char_def)

lemma digit_char_zero: "d < 16 \<Longrightarrow> digit_char d = 48 \<longleftrightarrow> d = 0"
  by (auto simp: digit_char_def)

lemma numeral_of_snoc:
  assumes "numeral_of base q ds" "0 < q" "d < base" "base \<le> 16"
  shows "numeral_of base (q * base + d) (ds @ [digit_char d])"
proof -
  have "hd ds \<noteq> 48"
  proof
    assume "hd ds = 48"
    then have "ds = [48]" using assms(1) by (simp add: numeral_of_def)
    then show False using assms(1,2) by (simp add: numeral_of_def number_value_def digit_value_def)
  qed
  then show ?thesis using assms digit_char_range [of d]
    by (auto simp: numeral_of_def number_value_def digit_value_char)
qed

lemma numeral_of_digit: "d < base \<Longrightarrow> base \<le> 16 \<Longrightarrow> numeral_of base d [digit_char d]"
  using digit_char_range [of d]
  by (auto simp: numeral_of_def number_value_def digit_value_char digit_char_zero)

lemma digit_loop_numeral:
  assumes "2 \<le> base" "base \<le> 16" "u < base ^ Suc room"
  shows "\<exists>ds. digit_loop (Suc room) base u acc = Some (ds @ acc) \<and> numeral_of base u ds
    \<and> length ds \<le> Suc room"
  using assms(3)
proof (induction room arbitrary: u acc)
  case 0
  then show ?case using assms numeral_of_digit [of u base] by simp
next
  case (Suc room)
  have m: "u mod base < base" using assms by simp
  show ?case
  proof (cases "u div base = 0")
    case True
    then have "u < base" using assms by (simp add: div_eq_0_iff)
    with True m assms numeral_of_digit [of u base] show ?thesis by auto
  next
    case False
    have "u div base < base ^ Suc room"
      using Suc.prems assms by (simp add: less_mult_imp_div_less mult.commute)
    from Suc.IH [OF this, of "digit_char (u mod base) # acc"] obtain ds where ds:
      "digit_loop (Suc room) base (u div base) (digit_char (u mod base) # acc)
        = Some (ds @ digit_char (u mod base) # acc)"
      "numeral_of base (u div base) ds" "length ds \<le> Suc room" by blast
    have "numeral_of base u (ds @ [digit_char (u mod base)])"
      using numeral_of_snoc [OF ds(2) _ m assms(2)] False by simp
    moreover have "\<not> 16 < u mod base" using m assms(2) by linarith
    ultimately show ?thesis using False ds assms(1)
      by (intro exI [of _ "ds @ [digit_char (u mod base)]"]) simp
  qed
qed

lemma MAXBUF_Suc: "MAXBUF = Suc 31"
  by (simp add: MAXBUF_def)

lemma printnum_numeral:
  assumes "2 \<le> base" "base \<le> 16" "u < 2 ^ 32"
  obtains ds where "printnum u base = Some ds" "numeral_of base u ds" "length ds \<le> MAXBUF"
proof -
  have "(2::nat) ^ 32 \<le> base ^ 32" using assms(1) by (intro power_mono) auto
  with assms(3) have "u < base ^ Suc 31" by (simp del: power_Suc)
  from digit_loop_numeral [OF assms(1,2) this, of "[]"] show ?thesis
    using that by (auto simp: printnum_def MAXBUF_Suc simp del: digit_loop.simps)
qed

text \<open>Numbers below 100 under \<open>%02d\<close>, the fields of the clock.\<close>

lemma printnum_decimal:
  "u < 10 \<Longrightarrow> printnum u 10 = Some [48 + u]"
  "10 \<le> u \<Longrightarrow> u < 100 \<Longrightarrow> printnum u 10 = Some [48 + u div 10, 48 + u mod 10]"
proof -
  have buf: "MAXBUF = Suc (Suc 30)" by (simp add: MAXBUF_def)
  show "u < 10 \<Longrightarrow> printnum u 10 = Some [48 + u]"
    "10 \<le> u \<Longrightarrow> u < 100 \<Longrightarrow> printnum u 10 = Some [48 + u div 10, 48 + u mod 10]"
    unfolding printnum_def buf digit_loop.simps by (simp_all add: digit_char_def, presburger)
qed

definition ascii :: "string \<Rightarrow> nat list" where
  "ascii s = map of_char s"

lemma ascii_simps [simp]: "ascii [] = []" "ascii (c # s) = of_char c # ascii s"
  by (simp_all add: ascii_def)

definition two_digits :: "nat \<Rightarrow> nat list" where
  "two_digits n = [48 + n div 10, 48 + n mod 10]"

lemma print_num_two_digits:
  assumes "u < 100"
  shows "print_num (no_flags\<lparr>f_padc := 48, f_length := 2\<rparr>) 0 u 10 = Some (two_digits u)"
proof (cases "u < 10")
  case True
  then show ?thesis by (simp add: print_num_def printnum_decimal two_digits_def no_flags_def)
next
  case False
  with assms show ?thesis by (simp add: print_num_def printnum_decimal two_digits_def no_flags_def)
qed

lemma parse_spec_02: "parse_spec (48 # 50 # 100 # fmt) args =
  Some (no_flags\<lparr>f_padc := 48, f_length := 2\<rparr>, 100 # fmt, args)"
  by (simp add: parse_spec_def parse_width_def parse_prec_def starts_with_def isdigit_def no_flags_def)

lemma directive_02d:
  assumes "u < 100"
  shows "directive (48 # 50 # 100 # fmt) (Arg_word (word_of_nat u) # args) radix
    = Some (two_digits u, fmt, args)"
proof -
  have u: "unat (word_of_nat u :: 32 word) = u" using assms by (simp add: unat_of_nat take_bit_eq_mod)
  moreover have "sint (word_of_nat u :: 32 word) = int u"
    using assms u by (simp add: sint_uint uint_nat signed_take_bit_int_eq_self)
  ultimately show ?thesis using assms
    by (simp add: directive_def parse_spec_02 convert_def print_signed_def print_num_two_digits
        no_flags_def [THEN arg_cong, of f_plus_sign])
qed

lemma sprintf_stores:
  assumes "doprnt fmt args 0 = Some out"
  shows "sprintf s fmt args mem = Some (length out, store_bytes s (out @ [0]) mem)"
proof -
  have "(store_bytes s out mem)(s + length out := 0) = store_bytes s (out @ [0]) mem"
    by (auto simp: store_bytes_def fun_eq_iff nth_append)
  then show ?thesis
    using assms by (simp add: sprintf_def vsprintf_def vsnprintf_max_def fold_savechar_unlimited)
qed

subsection \<open>Properties\<close>

text \<open>the digit buffer of \<open>printnum\<close> is large enough for every 32-bit number in every radix
  from 2 to 16, and the characters produced are the numeral of the number in that radix, without
  superfluous leading zero.\<close>

theorem printnum_numeral_fits:
  assumes "2 \<le> base" "base \<le> 16"
  shows "\<exists>ds. printnum (unat (w :: 32 word)) base = Some ds \<and> numeral_of base (unat w) ds
    \<and> length ds \<le> MAXBUF"
proof -
  have "unat w < 2 ^ 32" using unsigned_less [of w] by simp
  then show ?thesis using printnum_numeral [OF assms] by blast
qed

theorem printnum_numeral_fits_witness:
  "\<exists>ds. printnum (unat (0xdeadbeef :: 32 word)) 16 = Some ds \<and> numeral_of 16 0xdeadbeef ds"
  using printnum_numeral_fits [of 16 "0xdeadbeef"] by auto

text \<open>a formatted number fills its field exactly: its length is the field width, or the length
  of sign, prefix, precision zeros and digits when that is more.\<close>

theorem print_num_field_width:
  assumes "print_num f sign_char u base = Some out" "f_padc f = 32 \<or> f_padc f = 48"
  shows "\<exists>digits. printnum u base = Some digits \<and>
    (let prefix = (if u \<noteq> 0 \<and> f_altfmt f then (if base = 8 then 1 else if base = 16 then 2 else 0) else 0)
     in int (length out) = max (f_length f)
       (of_bool (sign_char \<noteq> 0) + prefix + max (f_prec f) (int (length digits))))"
proof -
  obtain digits where d: "printnum u base = Some digits"
    using assms(1) by (cases "printnum u base") (auto simp: print_num_def)
  show ?thesis
    using assms by (intro exI [of _ digits] conjI d)
      (auto simp: print_num_def d Let_def max_def)
qed

theorem print_num_field_width_witness:
  "print_num (no_flags\<lparr>f_length := 6\<rparr>) 45 42 10 = Some [32, 32, 32, 45, 52, 50] \<and>
   (\<exists>digits. printnum 42 10 = Some digits \<and> int 6 = max 6 (1 + int (length digits)))"
proof -
  have out: "print_num (no_flags\<lparr>f_length := 6\<rparr>) 45 42 10 = Some [32, 32, 32, 45, 52, 50]"
    by (simp add: print_num_def printnum_decimal no_flags_def numeral_3_eq_3)
  from print_num_field_width [OF this] obtain digits where
    "printnum 42 10 = Some digits" "int (length [32, 32, 32, 45, 52, 50 :: nat]) = max 6 (1 + max (-1) (int (length digits)))"
    by (auto simp: no_flags_def)
  with out show ?thesis by (intro conjI exI [of _ digits]) auto
qed

text \<open>C34: buffering in \<open>printf\<close> is invisible: the console receives exactly the characters that
  \<open>_doprnt\<close> produces, in order, whatever the console state, the newlines and the 128-byte
  limit.\<close>

theorem printf_is_putbytes:
  "printf fmt args con = (case doprnt fmt args 0 of None \<Rightarrow> None
     | Some out \<Rightarrow> map_option (\<lambda>con'. (0, con')) (console_putbytes out con))"
  by (cases "doprnt fmt args 0") (auto simp: printf_def vprintf_eq map_option_case split: bind_splits option.splits)

text \<open>\<open>sprintf\<close> stores the formatted characters at the destination, ends them with a zero byte,
  changes no other byte and returns their number.\<close>

theorem sprintf_stores_output:
  assumes "doprnt fmt args 0 = Some out"
  shows "sprintf s fmt args mem = Some (length out, store_bytes s (out @ [0]) mem)"
  by (rule sprintf_stores [OF assms])

theorem sprintf_stores_output_witness:
  "sprintf 1000 (ascii ''t=%02d'') [Arg_word 7] (\<lambda>_. 9)
    = Some (4, store_bytes 1000 [116, 61, 48, 55, 0] (\<lambda>_. 9))"
proof -
  have "doprnt (ascii ''t=%02d'') [Arg_word 7] 0 = Some [116, 61, 48, 55]"
    using directive_02d [of 7 "[]" "[]" 0] by (simp add: two_digits_def)
  from sprintf_stores_output [OF this] show ?thesis by simp
qed

text \<open>\<open>snprintf\<close> with a size the output reaches stores that many characters and then a zero byte
  behind them: it writes one byte past the \<open>size\<close> bytes it was given.\<close>

theorem snprintf_writes_past_size:
  assumes "doprnt fmt args 0 = Some out" "sz \<le> length out" "sz \<noteq> SPRINTF_UNLIMITED"
  shows "snprintf s sz fmt args mem = Some (sz, store_bytes s (take sz out @ [0]) mem)
    \<and> store_bytes s (take sz out @ [0]) mem (s + sz) = 0"
proof -
  have "(store_bytes s (take sz out) mem)(s + sz := 0) = store_bytes s (take sz out @ [0]) mem"
    using assms(2) by (auto simp: store_bytes_def fun_eq_iff nth_append)
  then show ?thesis
    using assms
    by (simp add: snprintf_def vsnprintf_def vsnprintf_max_def fold_savechar_limited Let_def min_absorb2)
       (simp add: store_bytes_def nth_append)
qed

theorem snprintf_writes_past_size_witness:
  "snprintf 1000 2 (ascii ''t=%02d'') [Arg_word 7] (\<lambda>_. 9)
    = Some (2, store_bytes 1000 [116, 61, 0] (\<lambda>_. 9))"
proof -
  have "doprnt (ascii ''t=%02d'') [Arg_word 7] 0 = Some [116, 61, 48, 55]"
    using directive_02d [of 7 "[]" "[]" 0] by (simp add: two_digits_def)
  from snprintf_writes_past_size [OF this, of 2] show ?thesis
    by (simp add: SPRINTF_UNLIMITED_def)
qed

end
