(* ===== verification/Timer.thy ===== *)
theory Timer
  imports Doprnt
begin

text \<open>
  The clock of \<^verbatim>\<open>kernel/timer.c\<close>: the counters updated at each clock interrupt, the text shown in
  the corner of the screen, and the settings of the timer chip. The two calls that
  \<open>tic_PIT\<close> makes between the counters and the display, \<open>schedule\<close> and \<open>clock_tick\<close>, belong to the
  scheduler; \<open>tic_count\<close> says whether the first is due.
\<close>

definition CLOCKFREQ :: nat where "CLOCKFREQ = 100"

definition QUARTZ :: nat where "QUARTZ = 0x1234DD"

definition CLOCKPERIOD :: nat where "CLOCKPERIOD = QUARTZ div CLOCKFREQ"

definition SCHEDULER_FREQUENCY :: nat where "SCHEDULER_FREQUENCY = 50"

lemmas clock_consts = CLOCKFREQ_def SCHEDULER_FREQUENCY_def

record clock =
  inter :: nat
  sec :: nat
  minutes :: nat
  hour :: nat
  frac_sec :: nat
  scheduler_delay :: nat

definition boot_clock :: clock where
  "boot_clock = \<lparr>inter = 0, sec = 0, minutes = 0, hour = 0, frac_sec = 0, scheduler_delay = 0\<rparr>"

definition tic_time :: "clock \<Rightarrow> clock" where
  "tic_time c =
     (let c = c\<lparr>inter := u32_inc (inter c)\<rparr>;
          c = c\<lparr>frac_sec := u32_inc (frac_sec c)\<rparr> in
      if frac_sec c \<ge> CLOCKFREQ then
        (let c = c\<lparr>frac_sec := 0, sec := u32_inc (sec c)\<rparr> in
         if sec c \<ge> 60 then
           (let c = c\<lparr>sec := 0, minutes := u32_inc (minutes c)\<rparr> in
            if minutes c \<ge> 60 then
              (let c = c\<lparr>minutes := 0, hour := u32_inc (hour c)\<rparr> in
               if hour c \<ge> 24 then c\<lparr>hour := 0\<rparr> else c)
            else c)
         else c)
      else c)"

definition tic_count :: "clock \<Rightarrow> bool \<times> clock" where
  "tic_count c =
     (let c = tic_time c;
          c = c\<lparr>scheduler_delay := u32_inc (scheduler_delay c)\<rparr> in
      if scheduler_delay c \<ge> CLOCKFREQ div SCHEDULER_FREQUENCY
      then (True, c\<lparr>scheduler_delay := 0\<rparr>) else (False, c))"

definition clock_format :: "nat list" where
  "clock_format = ascii ''%02d:%02d:%02d''"

definition clock_text :: "clock \<Rightarrow> nat list option" where
  "clock_text c = doprnt clock_format
     [Arg_word (word_of_nat (hour c)), Arg_word (word_of_nat (minutes c)), Arg_word (word_of_nat (sec c))] 0"

definition clock_init :: "(nat \<times> nat) list" where
  "clock_init = [(0x34, 0x43), (CLOCKPERIOD mod 256, 0x40), (CLOCKPERIOD div 256 mod 256, 0x40)]"

definition clock_settings :: "nat \<times> nat" where
  "clock_settings = (QUARTZ, CLOCKPERIOD)"

definition current_clock :: "clock \<Rightarrow> nat" where
  "current_clock c = inter c"

subsection \<open>The time of day\<close>

definition clock_ok :: "clock \<Rightarrow> bool" where
  "clock_ok c \<longleftrightarrow> frac_sec c < CLOCKFREQ \<and> sec c < 60 \<and> minutes c < 60 \<and> hour c < 24
     \<and> scheduler_delay c < CLOCKFREQ div SCHEDULER_FREQUENCY"

definition ticks_of_day :: "clock \<Rightarrow> nat" where
  "ticks_of_day c = ((hour c * 60 + minutes c) * 60 + sec c) * CLOCKFREQ + frac_sec c"

definition TICKS_PER_DAY :: nat where "TICKS_PER_DAY = 24 * 60 * 60 * CLOCKFREQ"

lemma clock_ok_boot [simp]: "clock_ok boot_clock"
  by (simp add: clock_ok_def boot_clock_def clock_consts)

lemma clock_ok_tic_time: "clock_ok c \<Longrightarrow> clock_ok (tic_time c)"
  by (auto simp: clock_ok_def tic_time_def Let_def clock_consts)

lemma clock_ok_tic_count: "clock_ok c \<Longrightarrow> clock_ok (snd (tic_count c))"
  using clock_ok_tic_time [of c] by (auto simp: tic_count_def Let_def clock_ok_def clock_consts)

lemma tic_count_time:
  "inter (snd (tic_count c)) = u32_inc (inter c)"
  "ticks_of_day (snd (tic_count c)) = ticks_of_day (tic_time c)"
  by (auto simp: tic_count_def tic_time_def ticks_of_day_def Let_def)

lemma ticks_of_day_tic:
  assumes "clock_ok c"
  shows "ticks_of_day (tic_time c) = (ticks_of_day c + 1) mod TICKS_PER_DAY"
proof -
  have b: "frac_sec c < 100" "sec c < 60" "minutes c < 60" "hour c < 24"
    using assms by (auto simp: clock_ok_def clock_consts)
  consider "frac_sec c < 99" | "frac_sec c = 99" "sec c < 59"
    | "frac_sec c = 99" "sec c = 59" "minutes c < 59"
    | "frac_sec c = 99" "sec c = 59" "minutes c = 59" "hour c < 23"
    | "frac_sec c = 99" "sec c = 59" "minutes c = 59" "hour c = 23"
    using b by linarith
  then show ?thesis
    using b by cases (simp_all add: ticks_of_day_def tic_time_def Let_def TICKS_PER_DAY_def clock_consts)
qed

lemma clock_text_ok:
  assumes "clock_ok c"
  shows "clock_text c = Some (two_digits (hour c) @ 58 # two_digits (minutes c) @ 58 # two_digits (sec c))"
proof -
  have "hour c < 100" "minutes c < 100" "sec c < 100" using assms by (auto simp: clock_ok_def)
  then show ?thesis by (simp add: clock_text_def clock_format_def directive_02d)
qed

text \<open>The clock after a number of interrupts.\<close>

primrec clock_after :: "nat \<Rightarrow> clock" where
  "clock_after 0 = boot_clock"
| "clock_after (Suc n) = snd (tic_count (clock_after n))"

lemma clock_after_ok:
  "clock_ok (clock_after n) \<and> ticks_of_day (clock_after n) = n mod TICKS_PER_DAY
   \<and> inter (clock_after n) = n mod 2 ^ 32"
proof (induction n)
  case 0
  then show ?case by (simp add: ticks_of_day_def boot_clock_def clock_ok_def clock_consts)
next
  case (Suc n)
  have "ticks_of_day (snd (tic_count (clock_after n))) = (n mod TICKS_PER_DAY + 1) mod TICKS_PER_DAY"
    using Suc by (simp only: tic_count_time ticks_of_day_tic)
  then show ?case
    using Suc by (simp add: clock_ok_tic_count tic_count_time u32_inc_def mod_Suc_eq)
qed

lemma radix_split:
  assumes "(t::nat) = r + b * q" "r < b"
  shows "t mod b = r" "t div b = q"
  using assms by simp_all

subsection \<open>Properties\<close>

text \<open>after \<open>n\<close> clock interrupts the counters hold the time of day since boot: the tick counter is
  \<open>n\<close> modulo \<open>2 ^ 32\<close>, and the text shown is the hours, minutes and seconds of \<open>n / 100\<close> seconds
  modulo one day, in eight characters (the buffer of \<open>tic_PIT\<close> has nine).\<close>

theorem clock_shows_time_of_day:
  "current_clock (clock_after n) = n mod 2 ^ 32
    \<and> clock_text (clock_after n) = (let t = n div CLOCKFREQ in
        Some (two_digits (t div 3600 mod 24) @ 58 # two_digits (t div 60 mod 60) @ 58 # two_digits (t mod 60)))"
proof -
  define c where "c = clock_after"
  have ok: "clock_ok (c n)" and day: "ticks_of_day (c n) = n mod TICKS_PER_DAY"
    and int: "inter (c n) = n mod 2 ^ 32"
    using clock_after_ok [of n] by (auto simp: c_def)
  have b: "frac_sec (c n) < 100" "sec (c n) < 60" "minutes (c n) < 60" "hour (c n) < 24"
    using ok by (auto simp: clock_ok_def clock_consts)
  define s where "s = (hour (c n) * 60 + minutes (c n)) * 60 + sec (c n)"
  have "s * 100 + frac_sec (c n) = n mod 8640000"
    using day by (simp add: ticks_of_day_def TICKS_PER_DAY_def clock_consts s_def)
  then have "n = 8640000 * (n div 8640000) + (s * 100 + frac_sec (c n))" by (metis mult_div_mod_eq)
  then obtain k where "n = 8640000 * k + (s * 100 + frac_sec (c n))" ..
  then have "n = (86400 * k + s) * 100 + frac_sec (c n)" by simp
  then have t: "n div 100 = 86400 * k + hour (c n) * 3600 + minutes (c n) * 60 + sec (c n)"
    using b(1) by (simp add: s_def)
  then have "n div 100 = sec (c n) + 60 * (minutes (c n) + 60 * (hour (c n) + 24 * k))" by simp
  note t = radix_split [OF this b(2)]
  note m = radix_split [OF t(2) b(3)]
  note h = radix_split [OF m(2) b(4)]
  have "n div 100 div 3600 mod 24 = hour (c n)"
    using h(1) by (simp add: div_mult2_eq [symmetric])
  with t(1) m(1) show ?thesis using clock_text_ok [OF ok] int
    by (simp add: current_clock_def CLOCKFREQ_def c_def)
qed

text \<open>the scheduler is called every second clock interrupt: \<open>tic_count\<close> asks for it exactly on
  the even ticks, 50 times a second.\<close>

theorem scheduler_every_second_tick:
  "fst (tic_count (clock_after n)) \<longleftrightarrow> odd n"
proof -
  have delay: "scheduler_delay (clock_after n) = n mod 2" for n
  proof (induction n)
    case 0
    then show ?case by (simp add: boot_clock_def)
  next
    case (Suc n)
    have "scheduler_delay (tic_time d) = scheduler_delay d" for d
      by (auto simp: tic_time_def Let_def)
    with Suc show ?case
      by (cases "even n") (auto simp: tic_count_def Let_def clock_consts even_iff_mod_2_eq_zero
          odd_iff_mod_2_eq_one mod_Suc)
  qed
  have "scheduler_delay (tic_time d) = scheduler_delay d" for d
    by (auto simp: tic_time_def Let_def)
  then show ?thesis
    by (cases "even n") (auto simp: tic_count_def Let_def clock_consts delay even_iff_mod_2_eq_zero
        odd_iff_mod_2_eq_one)
qed

end
