(* ===== verification/Process.thy ===== *)
theory Process
  imports Prio_Queue Message_Queue Timer
begin

unbundle bit_operations_syntax

text \<open>
  Processes (\<^verbatim>\<open>kernel/process.c\<close>): the process table with its pool of identifiers, the scheduling
  queue, children, zombies and their destruction, sleeping and priorities.

  A \<open>process_t\<close> pointer is the index of its entry in the table, and \<open>NULL\<close> is \<open>None\<close>. The queue of
  ready processes is the list view of \<^verbatim>\<open>queue.h\<close>. Function addresses fixed by the linker are fields of
  the state.

  Kernel code blocks in the middle of a function when \<open>schedule\<close> switches to another process. The
  kernel stack of a process is therefore a list of \<open>frame\<close>s, each naming the code that remains to
  be executed: \<open>schedule\<close> is the two frames \<open>Clean_zombify\<close> (\<open>clean_processes\<close>) and \<open>Schedule_pick\<close>
  (the rest of \<open>schedule\<close>), a caller pushes them above the frame that continues after the call, and
  \<open>context_switch\<close> exchanges the whole stack. An empty stack is the return to the process itself,
  with the result in \<open>eax\<close>.
\<close>

definition PROCESS_NOT_FOUND_CODE :: int where "PROCESS_NOT_FOUND_CODE = -1"

definition PROCESS_MIN_PRIORITY :: int where "PROCESS_MIN_PRIORITY = 1"

definition PROCESS_MAX_PRIORITY :: int where "PROCESS_MAX_PRIORITY = 256"

definition PROCESS_NAME_MAX_LENGTH :: nat where "PROCESS_NAME_MAX_LENGTH = 64"

definition PROCESS_MIN_STACK_SIZE :: nat where "PROCESS_MIN_STACK_SIZE = 2048"

definition KERNEL_STACK_SIZE :: nat where "KERNEL_STACK_SIZE = 2048"

definition STACK_PARAMETER_SIZE :: nat where "STACK_PARAMETER_SIZE = 4"

definition USER_ADDITIONNAL_STACK_SIZE :: nat where
  "USER_ADDITIONNAL_STACK_SIZE = 2 * STACK_PARAMETER_SIZE"

datatype process_state_enum = NO_STATE | RUNNING | WAITING | BLOCKED_BY_MESSAGE | BLOCKED_BY_IO
  | BLOCKED_BY_CHILD | SLEEPING | ZOMBIE

fun state_code :: "process_state_enum \<Rightarrow> nat" where
  "state_code NO_STATE = 0"
| "state_code RUNNING = 1"
| "state_code WAITING = 2"
| "state_code BLOCKED_BY_MESSAGE = 4"
| "state_code BLOCKED_BY_IO = 8"
| "state_code BLOCKED_BY_CHILD = 16"
| "state_code SLEEPING = 32"
| "state_code ZOMBIE = 64"

definition BLOCKED :: nat where
  "BLOCKED = state_code BLOCKED_BY_MESSAGE OR state_code BLOCKED_BY_IO OR state_code BLOCKED_BY_CHILD"

record process_t =
  p_pid :: int
  father_pid :: int
  childs_pids :: "int list"
  p_name :: "nat \<Rightarrow> nat"
  p_state :: process_state_enum
  p_priority :: int
  user_stack :: nat
  kernel_stack :: nat
  user_stack_size :: nat
  execution_context :: "nat \<Rightarrow> nat"
  return_code :: int
  waiting_code :: int
  deallocated :: bool
  sleep_time :: nat
  sealed :: bool

record process_table_t =
  data :: "nat \<Rightarrow> process_t"
  pids :: "nat \<Rightarrow> int"
  pids_to_zombify :: "nat \<Rightarrow> int"
  pids_to_destroy :: "nat \<Rightarrow> int"
  pids_waiting :: "nat \<Rightarrow> int"
  pids_consume_index :: int
  pids_release_index :: int
  current_size :: nat
  nb_to_zombify :: nat
  nb_to_destroy :: nat
  nb_waiting :: nat
  running_process :: "nat option"

definition no_process :: process_t where
  "no_process = \<lparr>p_pid = PROCESS_NOT_FOUND_CODE, father_pid = 0, childs_pids = [], p_name = (\<lambda>_. 0),
     p_state = NO_STATE, p_priority = 0, user_stack = 0, kernel_stack = 0, user_stack_size = 0,
     execution_context = (\<lambda>_. 0), return_code = -1, waiting_code = 0, deallocated = False,
     sleep_time = 0, sealed = False\<rparr>"

datatype frame = Clean_zombify | Clean_destroy | Schedule_pick
  | Start_return nat | Exit_loop | Return int
  | Waitpid_any_resume nat nat | Waitpid_one_resume int nat nat
  | Ipc_resume int
  | Tick_clock | Tick_print | Restore_eax int

record kernel =
  ptable :: process_table_t
  process_queue :: "nat list"
  mqt :: message_queue_table_t
  kheap :: heap
  uheap :: heap
  memory :: "nat \<Rightarrow> int"
  kstack :: "frame list"
  kstacks :: "nat \<Rightarrow> frame list"
  eax :: int
  kclock :: clock
  kconsole :: console
  user_switch :: int
  user_exit_handler :: int
  exit_handler :: int

abbreviation proc :: "kernel \<Rightarrow> nat \<Rightarrow> process_t" where
  "proc k s \<equiv> data (ptable k) s"

abbreviation prio :: "kernel \<Rightarrow> nat \<Rightarrow> int" where
  "prio k s \<equiv> p_priority (proc k s)"

definition update_proc :: "nat \<Rightarrow> (process_t \<Rightarrow> process_t) \<Rightarrow> kernel \<Rightarrow> kernel" where
  "update_proc s f k = k\<lparr>ptable := (ptable k)\<lparr>data := (data (ptable k))(s := f (proc k s))\<rparr>\<rparr>"

definition push :: "frame list \<Rightarrow> kernel \<Rightarrow> kernel" where
  "push fs k = k\<lparr>kstack := fs @ kstack k\<rparr>"

subsection \<open>Child lists\<close>

definition process_child_list_add_head :: "nat \<Rightarrow> int \<Rightarrow> kernel \<Rightarrow> kernel option" where
  "process_child_list_add_head s p k = do {
     let (new, h) = heap_alloc (kheap k);
     kassert (new \<noteq> 0);
     Some (update_proc s (\<lambda>q. q\<lparr>childs_pids := p # childs_pids q\<rparr>) (k\<lparr>kheap := h\<rparr>))
   }"

definition process_child_list_remove :: "nat \<Rightarrow> int \<Rightarrow> kernel \<Rightarrow> kernel" where
  "process_child_list_remove s p k =
     update_proc s (\<lambda>q. q\<lparr>childs_pids := remove_first_with (\<lambda>c. c = p) (childs_pids q)\<rparr>) k"

subsection \<open>The table\<close>

definition process_table_register :: "process_table_t \<Rightarrow> (int \<times> process_table_t) option" where
  "process_table_register t = do {
     kassert (pids_consume_index t \<noteq> INDEXES_LOCK_VALUE);
     let p = pids t (nat (pids_consume_index t));
     let t = (if pids_release_index t = INDEXES_LOCK_VALUE
              then t\<lparr>pids_release_index := pids_consume_index t\<rparr> else t);
     let t = t\<lparr>pids_consume_index := (pids_consume_index t + 1) mod int PROCESS_TABLE_MAX_SIZE\<rparr>;
     let t = (if pids_consume_index t = pids_release_index t
              then t\<lparr>pids_consume_index := INDEXES_LOCK_VALUE\<rparr> else t);
     Some (p, t\<lparr>current_size := u32_inc (current_size t)\<rparr>)
   }"

definition process_table_unregister :: "process_table_t \<Rightarrow> int \<Rightarrow> process_table_t option" where
  "process_table_unregister t p = do {
     kassert (pids_release_index t \<noteq> INDEXES_LOCK_VALUE);
     let t = t\<lparr>pids := (pids t)(nat (pids_release_index t) := p)\<rparr>;
     let t = (if pids_consume_index t = INDEXES_LOCK_VALUE
              then t\<lparr>pids_consume_index := pids_release_index t\<rparr> else t);
     let t = t\<lparr>pids_release_index := (pids_release_index t + 1) mod int PROCESS_TABLE_MAX_SIZE\<rparr>;
     let t = (if pids_release_index t = pids_consume_index t
              then t\<lparr>pids_release_index := INDEXES_LOCK_VALUE\<rparr> else t);
     Some (t\<lparr>current_size := u32_dec (current_size t)\<rparr>)
   }"

definition get_process :: "int \<Rightarrow> nat option" where
  "get_process p = (if 0 < p \<and> p \<le> int PROCESS_TABLE_MAX_SIZE then Some (nat p - 1) else None)"

definition process_table_init :: "process_table_t \<Rightarrow> process_table_t" where
  "process_table_init t = t\<lparr>
     data := (\<lambda>i. if i < PROCESS_TABLE_MAX_SIZE then no_process else data t i),
     pids := (\<lambda>i. if i < PROCESS_TABLE_MAX_SIZE then int i + 1 else pids t i),
     pids_to_zombify := (\<lambda>i. if i < PROCESS_TABLE_MAX_SIZE then PROCESS_NOT_FOUND_CODE else pids_to_zombify t i),
     pids_to_destroy := (\<lambda>i. if i < PROCESS_TABLE_MAX_SIZE then PROCESS_NOT_FOUND_CODE else pids_to_destroy t i),
     pids_waiting := (\<lambda>i. if i < PROCESS_TABLE_MAX_SIZE then PROCESS_NOT_FOUND_CODE else pids_waiting t i),
     pids_consume_index := 0, pids_release_index := INDEXES_LOCK_VALUE, current_size := 0,
     nb_to_zombify := 0, nb_to_destroy := 0, nb_waiting := 0, running_process := None\<rparr>"

definition getpid :: "kernel \<Rightarrow> int" where
  "getpid k = (case running_process (ptable k) of Some r \<Rightarrow> p_pid (proc k r)
     | None \<Rightarrow> PROCESS_NOT_FOUND_CODE)"

subsection \<open>The ready queue\<close>

definition kqueue_add :: "nat \<Rightarrow> kernel \<Rightarrow> kernel option" where
  "kqueue_add s k = do {
     q \<leftarrow> queue_add (prio k) s (process_queue k);
     Some (k\<lparr>process_queue := q\<rparr>)
   }"

definition kqueue_del :: "nat \<Rightarrow> kernel \<Rightarrow> kernel option" where
  "kqueue_del s k = do {
     q \<leftarrow> queue_del s (process_queue k);
     Some (k\<lparr>process_queue := q\<rparr>)
   }"

definition set_state :: "nat \<Rightarrow> process_state_enum \<Rightarrow> kernel \<Rightarrow> kernel" where
  "set_state s st k = update_proc s (\<lambda>q. q\<lparr>p_state := st\<rparr>) k"

definition context_switch :: "nat \<Rightarrow> nat \<Rightarrow> kernel \<Rightarrow> kernel" where
  "context_switch old new k =
     (let ks = (kstacks k)(old := kstack k)
      in k\<lparr>kstack := ks new, kstacks := ks(new := [])\<rparr>)"

definition process_switch :: "nat \<Rightarrow> nat \<Rightarrow> kernel \<Rightarrow> kernel option" where
  "process_switch old new k = do {
     let k = set_state new RUNNING k;
     let k = k\<lparr>ptable := (ptable k)\<lparr>running_process := Some new\<rparr>\<rparr>;
     k \<leftarrow> (if p_state (proc k old) = RUNNING then kqueue_add old (set_state old WAITING k) else Some k);
     Some (context_switch old new k)
   }"

subsection \<open>Zombies and destruction\<close>

definition notify_killed :: "int \<Rightarrow> kernel \<Rightarrow> kernel option" where
  "notify_killed p k = do {
     t \<leftarrow> message_queues_notify_processus_killed p (mqt k);
     Some (k\<lparr>mqt := t\<rparr>)
   }"

definition request_zombify :: "int \<Rightarrow> kernel \<Rightarrow> kernel option" where
  "request_zombify p k = do {
     s \<leftarrow> get_process p;
     kassert (p_state (proc k s) \<noteq> ZOMBIE);
     let t = ptable k;
     kassert (nb_to_zombify t < PROCESS_TABLE_MAX_SIZE);
     let k = k\<lparr>ptable := t\<lparr>pids_to_zombify := (pids_to_zombify t)(nb_to_zombify t := p),
       nb_to_zombify := u32_inc (nb_to_zombify t)\<rparr>\<rparr>;
     r \<leftarrow> running_process (ptable k);
     let code = state_code (p_state (proc k s));
     k \<leftarrow> (if p \<noteq> p_pid (proc k r) \<and> code AND (state_code WAITING OR state_code RUNNING) = code
           then kqueue_del s k else Some k);
     k \<leftarrow> notify_killed p k;
     Some (set_state s ZOMBIE k)
   }"

definition request_destroy :: "int \<Rightarrow> kernel \<Rightarrow> kernel option" where
  "request_destroy p k = do {
     s \<leftarrow> get_process p;
     kassert (\<not> sealed (proc k s));
     let k = update_proc s (\<lambda>q. q\<lparr>sealed := True\<rparr>) k;
     let t = ptable k;
     kassert (nb_to_destroy t < PROCESS_TABLE_MAX_SIZE);
     let k = k\<lparr>ptable := t\<lparr>pids_to_destroy := (pids_to_destroy t)(nb_to_destroy t := p),
       nb_to_destroy := u32_inc (nb_to_destroy t)\<rparr>\<rparr>;
     if p_state (proc k s) \<noteq> ZOMBIE then do {
       r \<leftarrow> running_process (ptable k);
       k \<leftarrow> (if p \<noteq> p_pid (proc k r) then kqueue_del s k else Some k);
       notify_killed p k
     } else Some k
   }"

definition deallocate :: "nat \<Rightarrow> kernel \<Rightarrow> kernel option" where
  "deallocate s k = do {
     kassert (\<not> deallocated (proc k s));
     let k = (if p_pid (proc k s) \<noteq> 1 then
         update_proc s (\<lambda>q. q\<lparr>user_stack := 0, user_stack_size := 0\<rparr>)
           (k\<lparr>uheap := heap_free (user_stack (proc k s)) (user_stack_size (proc k s)) (uheap k)\<rparr>)
       else k);
     let k = k\<lparr>kheap := heap_free (kernel_stack (proc k s)) KERNEL_STACK_SIZE (kheap k),
       kstacks := (kstacks k)(s := [])\<rparr>;
     Some (update_proc s (\<lambda>q. q\<lparr>kernel_stack := 0, deallocated := True\<rparr>) k)
   }"

text \<open>
  The loop of \<open>zombify\<close> over the children. A child that is not yet a zombie goes to process 1; the
  identifier put in the list of process 1 is read from the node just freed.
\<close>

fun zombify_children :: "nat \<Rightarrow> int list \<Rightarrow> kernel \<Rightarrow> kernel option" where
  "zombify_children s [] k = Some k"
| "zombify_children s (c # cs) k = do {
     child \<leftarrow> get_process c;
     k \<leftarrow> (if deallocated (proc k child) then request_destroy (p_pid (proc k child)) k
           else do {
             let k = process_child_list_remove s c k;
             let k = update_proc child (\<lambda>q. q\<lparr>father_pid := 1\<rparr>) k;
             process_child_list_add_head 0 (residue (kheap k) c) k
           });
     zombify_children s cs k
   }"

text \<open>\<open>zombify\<close> up to its final call of \<open>schedule\<close>, which \<open>clean_zombify\<close> makes.\<close>

definition zombify :: "int \<Rightarrow> kernel \<Rightarrow> kernel option" where
  "zombify p k = do {
     kassert (p \<noteq> 1);
     s \<leftarrow> get_process p;
     kassert (p_state (proc k s) = ZOMBIE \<and> running_process (ptable k) \<noteq> Some s);
     father \<leftarrow> get_process (father_pid (proc k s));
     k \<leftarrow> deallocate s k;
     k \<leftarrow> zombify_children s (childs_pids (proc k s)) k;
     k \<leftarrow> (if p_state (proc k father) = BLOCKED_BY_CHILD \<and> \<not> sealed (proc k s)
             \<and> (waiting_code (proc k father) < 0 \<or> waiting_code (proc k father) = p_pid (proc k s))
           then kqueue_add father (update_proc father
             (\<lambda>q. q\<lparr>waiting_code := p_pid (proc k s), p_state := WAITING\<rparr>) k)
           else Some k);
     if \<not> sealed (proc k s) \<and> (p_state (proc k father) = ZOMBIE \<or> p_pid (proc k father) = 1)
     then request_destroy p k else Some k
   }"

text \<open>The loop of \<open>destroy\<close>; the list of process 1 receives the identifier of the destroyed process.\<close>

fun destroy_children :: "int \<Rightarrow> nat \<Rightarrow> int list \<Rightarrow> kernel \<Rightarrow> kernel option" where
  "destroy_children p s [] k = Some k"
| "destroy_children p s (c # cs) k = do {
     let k = update_proc s (\<lambda>q. q\<lparr>childs_pids := cs\<rparr>) k;
     child \<leftarrow> get_process c;
     k \<leftarrow> (if deallocated (proc k child) then request_destroy (p_pid (proc k child)) k
           else process_child_list_add_head 0 p (update_proc child (\<lambda>q. q\<lparr>father_pid := 1\<rparr>) k));
     destroy_children p s cs k
   }"

definition destroy :: "int \<Rightarrow> kernel \<Rightarrow> kernel option" where
  "destroy p k = do {
     kassert (p \<noteq> 1);
     s \<leftarrow> get_process p;
     kassert (p_state (proc k s) \<noteq> RUNNING \<and> running_process (ptable k) \<noteq> Some s);
     father \<leftarrow> get_process (father_pid (proc k s));
     let k = process_child_list_remove father p k;
     k \<leftarrow> destroy_children p s (childs_pids (proc k s)) k;
     t \<leftarrow> process_table_unregister (ptable k) p;
     let k = k\<lparr>ptable := t\<rparr>;
     k \<leftarrow> (if \<not> deallocated (proc k s) then deallocate s k
           else do {
             kassert (user_stack (proc k s) = 0 \<and> user_stack_size (proc k s) = 0
               \<and> kernel_stack (proc k s) = 0);
             Some k
           });
     kassert (s \<notin> set (process_queue k));
     Some (update_proc s (\<lambda>_. no_process) k)
   }"

subsection \<open>The scheduler\<close>

abbreviation schedule :: "frame list" where
  "schedule \<equiv> [Clean_zombify, Schedule_pick]"

definition running_pid_is :: "int \<Rightarrow> kernel \<Rightarrow> bool" where
  "running_pid_is p k \<longleftrightarrow> (case running_process (ptable k) of None \<Rightarrow> False
     | Some r \<Rightarrow> p_pid (proc k r) = p)"

text \<open>One iteration of each loop of \<open>clean_processes\<close>.\<close>

definition clean_zombify :: "kernel \<Rightarrow> kernel option" where
  "clean_zombify k =
     (let t = ptable k; n = nb_to_zombify t; last_pid = pids_to_zombify t (n - 1) in
      if n = 0 \<or> running_pid_is last_pid k \<and> n = 1 then Some (push [Clean_destroy] k)
      else do {
        let (p, t) = (if running_pid_is last_pid k
          then (pids_to_zombify t 0, t\<lparr>pids_to_zombify :=
            (pids_to_zombify t)(n - 1 := pids_to_zombify t 0, 0 := last_pid)\<rparr>)
          else (last_pid, t));
        let t = t\<lparr>nb_to_zombify := n - 1,
          pids_to_zombify := (pids_to_zombify t)(n - 1 := PROCESS_NOT_FOUND_CODE)\<rparr>;
        k \<leftarrow> zombify p (k\<lparr>ptable := t\<rparr>);
        Some (push (schedule @ [Clean_zombify]) k)
      })"

definition clean_destroy :: "kernel \<Rightarrow> kernel option" where
  "clean_destroy k =
     (let t = ptable k; n = nb_to_destroy t; last_pid = pids_to_destroy t (n - 1) in
      if n = 0 \<or> running_pid_is last_pid k \<and> n = 1 then Some k
      else do {
        let (p, t) = (if running_pid_is last_pid k
          then (pids_to_destroy t 0, t\<lparr>pids_to_destroy :=
            (pids_to_destroy t)(n - 1 := pids_to_destroy t 0, 0 := last_pid)\<rparr>)
          else (last_pid, t));
        let t = t\<lparr>nb_to_destroy := n - 1,
          pids_to_destroy := (pids_to_destroy t)(n - 1 := PROCESS_NOT_FOUND_CODE)\<rparr>;
        k \<leftarrow> destroy p (k\<lparr>ptable := t\<rparr>);
        Some (push [Clean_destroy] k)
      })"

definition schedule_pick :: "kernel \<Rightarrow> kernel option" where
  "schedule_pick k = do {
     let old = running_process (ptable k);
     candidate \<leftarrow> queue_top (process_queue k);
     case old of
       None \<Rightarrow> do {
         (out, q) \<leftarrow> queue_out (process_queue k);
         c \<leftarrow> out;
         let k = set_state c RUNNING (k\<lparr>process_queue := q\<rparr>);
         Some (context_switch c c (k\<lparr>ptable := (ptable k)\<lparr>running_process := Some c\<rparr>\<rparr>))
       }
     | Some old \<Rightarrow> do {
         candidate \<leftarrow> (if p_pid (proc k old) \<noteq> 1 \<and> current_size (ptable k) \<ge> PROCESS_TABLE_MAX_SIZE
           then map_option Some (get_process 1) else Some candidate);
         if (case candidate of None \<Rightarrow> True
             | Some c \<Rightarrow> p_pid (proc k old) = p_pid (proc k c)
                 \<or> p_state (proc k old) = RUNNING \<and> prio k old > prio k c)
         then Some k
         else do {
           (out, q) \<leftarrow> queue_out (process_queue k);
           c \<leftarrow> out;
           process_switch old c (k\<lparr>process_queue := q\<rparr>)
         }
       }
   }"

subsection \<open>Projections\<close>

lemma update_proc_simps [simp]:
  "data (ptable (update_proc s f k)) = (data (ptable k))(s := f (proc k s))"
  "pids (ptable (update_proc s f k)) = pids (ptable k)"
  "pids_to_zombify (ptable (update_proc s f k)) = pids_to_zombify (ptable k)"
  "pids_to_destroy (ptable (update_proc s f k)) = pids_to_destroy (ptable k)"
  "pids_waiting (ptable (update_proc s f k)) = pids_waiting (ptable k)"
  "pids_consume_index (ptable (update_proc s f k)) = pids_consume_index (ptable k)"
  "pids_release_index (ptable (update_proc s f k)) = pids_release_index (ptable k)"
  "current_size (ptable (update_proc s f k)) = current_size (ptable k)"
  "nb_to_zombify (ptable (update_proc s f k)) = nb_to_zombify (ptable k)"
  "nb_to_destroy (ptable (update_proc s f k)) = nb_to_destroy (ptable k)"
  "nb_waiting (ptable (update_proc s f k)) = nb_waiting (ptable k)"
  "running_process (ptable (update_proc s f k)) = running_process (ptable k)"
  "process_queue (update_proc s f k) = process_queue k" "mqt (update_proc s f k) = mqt k"
  "kheap (update_proc s f k) = kheap k" "uheap (update_proc s f k) = uheap k"
  "memory (update_proc s f k) = memory k" "kstack (update_proc s f k) = kstack k"
  "kstacks (update_proc s f k) = kstacks k" "eax (update_proc s f k) = eax k"
  "kclock (update_proc s f k) = kclock k" "kconsole (update_proc s f k) = kconsole k"
  by (simp_all add: update_proc_def)

lemma update_proc_symbols [simp]:
  "user_switch (update_proc s f k) = user_switch k"
  "user_exit_handler (update_proc s f k) = user_exit_handler k"
  "exit_handler (update_proc s f k) = exit_handler k"
  by (simp_all add: update_proc_def)

lemma set_state_simps [simp]:
  "data (ptable (set_state s st k)) = (data (ptable k))(s := (proc k s)\<lparr>p_state := st\<rparr>)"
  "ptable (set_state s st k) = (ptable k)\<lparr>data := (data (ptable k))(s := (proc k s)\<lparr>p_state := st\<rparr>)\<rparr>"
  "process_queue (set_state s st k) = process_queue k" "mqt (set_state s st k) = mqt k"
  "kheap (set_state s st k) = kheap k" "uheap (set_state s st k) = uheap k"
  "memory (set_state s st k) = memory k" "kstack (set_state s st k) = kstack k"
  "kstacks (set_state s st k) = kstacks k" "eax (set_state s st k) = eax k"
  "kclock (set_state s st k) = kclock k" "kconsole (set_state s st k) = kconsole k"
  by (simp_all add: set_state_def update_proc_def)

lemma push_simps [simp]:
  "ptable (push fs k) = ptable k" "process_queue (push fs k) = process_queue k"
  "mqt (push fs k) = mqt k" "kheap (push fs k) = kheap k" "uheap (push fs k) = uheap k"
  "memory (push fs k) = memory k" "kstack (push fs k) = fs @ kstack k"
  "kstacks (push fs k) = kstacks k" "eax (push fs k) = eax k"
  "kclock (push fs k) = kclock k" "kconsole (push fs k) = kconsole k"
  by (simp_all add: push_def)

lemma kqueue_add_eq:
  "kqueue_add s k = (if s \<in> set (process_queue k) then None
     else Some (k\<lparr>process_queue := queue_insert (prio k) s (process_queue k)\<rparr>))"
  by (simp add: kqueue_add_def queue_add_def)

lemma kqueue_del_eq:
  "kqueue_del s k = (if s \<in> set (process_queue k)
     then Some (k\<lparr>process_queue := remove1 s (process_queue k)\<rparr>) else None)"
  by (simp add: kqueue_del_def queue_del_def)

lemma get_process_Some:
  "get_process p = Some s \<longleftrightarrow> p = int s + 1 \<and> s < PROCESS_TABLE_MAX_SIZE"
  by (auto simp: get_process_def PROCESS_TABLE_MAX_SIZE_def)

lemma get_process_slot [simp]: "s < PROCESS_TABLE_MAX_SIZE \<Longrightarrow> get_process (int s + 1) = Some s"
  by (simp add: get_process_Some)

lemma get_process_not_found [simp]: "get_process PROCESS_NOT_FOUND_CODE = None"
  by (simp add: get_process_def PROCESS_NOT_FOUND_CODE_def)

lemmas table_defs [proc_simps] = process_table_register_def process_table_unregister_def

subsection \<open>The identifier pool is a ring\<close>

interpretation pidpool: lock_ring process_table_unregister process_table_register pids
  pids_consume_index pids_release_index "\<lambda>t. PROCESS_TABLE_MAX_SIZE - current_size t"
  "\<lambda>_. PROCESS_TABLE_MAX_SIZE" "\<lambda>t. current_size t \<le> PROCESS_TABLE_MAX_SIZE"
  by unfold_locales (auto simp: proc_simps Let_def PROCESS_TABLE_MAX_SIZE_def u32_dec_pos)

definition free_pids :: "process_table_t \<Rightarrow> int list" where
  "free_pids t = ring_list (pids t) PROCESS_TABLE_MAX_SIZE (pids_consume_index t)
     (PROCESS_TABLE_MAX_SIZE - current_size t)"

definition pids_ok :: "process_table_t \<Rightarrow> bool" where
  "pids_ok t \<longleftrightarrow> current_size t \<le> PROCESS_TABLE_MAX_SIZE
     \<and> ring_ok PROCESS_TABLE_MAX_SIZE (pids_consume_index t) (pids_release_index t)
         (PROCESS_TABLE_MAX_SIZE - current_size t)"

lemmas pid_put = pidpool.fifo.put_room [folded free_pids_def pids_ok_def]
lemmas pid_get = pidpool.fifo.get_some [folded free_pids_def pids_ok_def]

lemma length_free_pids [simp]: "length (free_pids t) = PROCESS_TABLE_MAX_SIZE - current_size t"
  by (simp add: free_pids_def)

lemma pids_ok_init: "pids_ok (process_table_init t)"
  by (simp add: pids_ok_def ring_ok_def process_table_init_def INDEXES_LOCK_VALUE_def PROCESS_TABLE_MAX_SIZE_def)

lemma free_pids_init: "free_pids (process_table_init t) = map (\<lambda>i. int i + 1) [0..<PROCESS_TABLE_MAX_SIZE]"
  by (simp add: free_pids_def ring_list_def process_table_init_def)

lemma process_table_register_frame:
  "process_table_register t = Some (p, t') \<Longrightarrow> data t' = data t \<and> running_process t' = running_process t
    \<and> nb_to_zombify t' = nb_to_zombify t \<and> nb_to_destroy t' = nb_to_destroy t \<and> nb_waiting t' = nb_waiting t
    \<and> pids_waiting t' = pids_waiting t \<and> pids_to_zombify t' = pids_to_zombify t
    \<and> pids_to_destroy t' = pids_to_destroy t"
  by (auto simp: proc_simps Let_def split: if_splits)

lemma process_table_unregister_frame:
  "process_table_unregister t p = Some t' \<Longrightarrow> data t' = data t \<and> running_process t' = running_process t
    \<and> nb_to_zombify t' = nb_to_zombify t \<and> nb_to_destroy t' = nb_to_destroy t \<and> nb_waiting t' = nb_waiting t
    \<and> pids_waiting t' = pids_waiting t \<and> pids_to_zombify t' = pids_to_zombify t
    \<and> pids_to_destroy t' = pids_to_destroy t"
  by (auto simp: proc_simps Let_def split: if_splits)

end
