(* ===== verification/Kernel.thy ===== *)
theory Kernel
  imports Process
begin

unbundle bit_operations_syntax

text \<open>
  The system calls of \<^verbatim>\<open>kernel/process.c\<close> and \<^verbatim>\<open>kernel/message_queue.c\<close>, the clock interrupt of
  \<^verbatim>\<open>kernel/timer.c\<close>, and the machine that executes the frames they leave on the kernel stack.

  A call pushes its remaining code and returns the state; \<open>kstep\<close> executes the topmost frame, and
  \<open>krun\<close> iterates it until the process runs again (empty stack) or spins in the final loop of
  \<open>exit\<close>. Interrupts are off while kernel code runs, so nothing interleaves with the frames.
\<close>

subsection \<open>Starting processes\<close>

definition DATA_SEGMENT_USER_VALUE :: int where "DATA_SEGMENT_USER_VALUE = 0x4b"

definition CODE_SEGMENT_USER_VALUE :: int where "CODE_SEGMENT_USER_VALUE = 0x43"

definition EFLAGS_USER_VALUE :: int where "EFLAGS_USER_VALUE = 0x202"

definition set_word :: "nat \<Rightarrow> int \<Rightarrow> kernel \<Rightarrow> kernel" where
  "set_word a v k = k\<lparr>memory := (memory k)(a := v)\<rparr>"

definition set_context :: "nat \<Rightarrow> nat \<Rightarrow> nat \<Rightarrow> kernel \<Rightarrow> kernel" where
  "set_context s i v k = update_proc s (\<lambda>q. q\<lparr>execution_context := (execution_context q)(i := v)\<rparr>) k"

fun copy_name :: "nat \<Rightarrow> nat \<Rightarrow> (nat \<Rightarrow> nat) \<Rightarrow> (nat \<Rightarrow> nat) \<Rightarrow> nat \<Rightarrow> nat" where
  "copy_name 0 i src dst = dst"
| "copy_name (Suc room) i src dst =
     (if src i = 0 then dst(i := 0) else copy_name room (Suc i) src (dst(i := src i)))"

definition start_name :: "(nat \<Rightarrow> nat) \<Rightarrow> (nat \<Rightarrow> nat) \<Rightarrow> nat \<Rightarrow> nat" where
  "start_name name dst = (copy_name PROCESS_NAME_MAX_LENGTH 0 name dst)(PROCESS_NAME_MAX_LENGTH - 1 := 0)"

text \<open>The stack of a user process: what \<open>iret\<close> pops, below it the entry code \<open>user_switch\<close>.\<close>

definition start_user_stacks :: "nat \<Rightarrow> int \<Rightarrow> int \<Rightarrow> kernel \<Rightarrow> kernel" where
  "start_user_stacks s program argument k =
     (let us = user_stack (proc k s) + user_stack_size (proc k s);
          ks = kernel_stack (proc k s) + KERNEL_STACK_SIZE;
          user_stack_arg = us - 1 * STACK_PARAMETER_SIZE;
          user_stack_exit = us - 2 * STACK_PARAMETER_SIZE;
          stack_function_ptr = ks - 5 * STACK_PARAMETER_SIZE;
          iret_function_ptr = ks - 6 * STACK_PARAMETER_SIZE;
          k = set_word user_stack_arg argument k;
          k = set_word user_stack_exit (user_exit_handler k) k;
          k = set_word (ks - 1 * STACK_PARAMETER_SIZE) DATA_SEGMENT_USER_VALUE k;
          k = set_word (ks - 2 * STACK_PARAMETER_SIZE) (int user_stack_exit) k;
          k = set_word (ks - 3 * STACK_PARAMETER_SIZE) EFLAGS_USER_VALUE k;
          k = set_word (ks - 4 * STACK_PARAMETER_SIZE) CODE_SEGMENT_USER_VALUE k;
          k = set_word stack_function_ptr program k;
          k = set_word iret_function_ptr (user_switch k) k;
          k = set_context s 1 iret_function_ptr k
      in set_context s 5 stack_function_ptr k)"

definition start_init_stack :: "nat \<Rightarrow> int \<Rightarrow> int \<Rightarrow> kernel \<Rightarrow> kernel" where
  "start_init_stack s program argument k =
     (let ks = kernel_stack (proc k s) + KERNEL_STACK_SIZE;
          stack_ptr_function = ks - 3 * STACK_PARAMETER_SIZE;
          k = update_proc s (\<lambda>q. q\<lparr>user_stack_size := 0, user_stack := 0\<rparr>) k;
          k = set_word (ks - 1 * STACK_PARAMETER_SIZE) argument k;
          k = set_word (ks - 2 * STACK_PARAMETER_SIZE) (exit_handler k) k;
          k = set_word stack_ptr_function program k;
          k = set_context s 1 stack_ptr_function k
      in set_context s 5 ks k)"

definition start_fields :: "nat \<Rightarrow> int \<Rightarrow> int \<Rightarrow> (nat \<Rightarrow> nat) \<Rightarrow> kernel \<Rightarrow> kernel" where
  "start_fields s p priority name k = update_proc s (\<lambda>q. q\<lparr>p_pid := p, father_pid := getpid
       (update_proc s (\<lambda>q. q\<lparr>p_pid := p\<rparr>) k),
     childs_pids := [], p_priority := priority, return_code := 0, deallocated := False,
     execution_context := (\<lambda>_. 0), p_name := start_name name (p_name q)\<rparr>) k"

text \<open>The end of \<open>start\<close>: the new process becomes ready and may take the processor at once.\<close>

definition start_ready :: "nat \<Rightarrow> int \<Rightarrow> kernel \<Rightarrow> kernel option" where
  "start_ready s priority k = do {
     k \<leftarrow> kqueue_add s (set_state s WAITING (k\<lparr>kstacks := (kstacks k)(s := [])\<rparr>));
     let preempt = (case running_process (ptable k) of None \<Rightarrow> True | Some r \<Rightarrow> priority > prio k r);
     Some (push ((if preempt then schedule else []) @ [Start_return s]) k)
   }"

definition start :: "int \<Rightarrow> nat \<Rightarrow> int \<Rightarrow> (nat \<Rightarrow> nat) \<Rightarrow> int \<Rightarrow> kernel \<Rightarrow> kernel option" where
  "start program stack_size priority name argument k =
     (if priority < PROCESS_MIN_PRIORITY \<or> priority > PROCESS_MAX_PRIORITY
         \<or> current_size (ptable k) \<ge> PROCESS_TABLE_MAX_SIZE
         \<or> (stack_size + USER_ADDITIONNAL_STACK_SIZE) mod 2 ^ 32 \<le> stack_size
      then Some (push [Return (-1)] k)
      else do {
        let stack_size = max stack_size PROCESS_MIN_STACK_SIZE;
        (p, t) \<leftarrow> process_table_register (ptable k);
        let k = k\<lparr>ptable := t\<rparr>;
        s \<leftarrow> get_process p;
        kassert (s \<notin> set (process_queue k));
        let k = start_fields s p priority name k;
        let (ks, h) = heap_alloc (kheap k);
        let k = update_proc s (\<lambda>q. q\<lparr>kernel_stack := ks\<rparr>) (k\<lparr>kheap := h\<rparr>);
        if ks = 0 then do {
          t \<leftarrow> process_table_unregister (ptable k) p;
          Some (push [Return (-1)] (k\<lparr>ptable := t\<rparr>))
        }
        else if father_pid (proc k s) \<noteq> PROCESS_NOT_FOUND_CODE then do {
          kassert (p_pid (proc k s) \<noteq> 1);
          let (us, h) = heap_alloc (uheap k);
          let k = update_proc s (\<lambda>q. q\<lparr>user_stack_size := stack_size + USER_ADDITIONNAL_STACK_SIZE,
            user_stack := us\<rparr>) (k\<lparr>uheap := h\<rparr>);
          if us = 0 then do {
            t \<leftarrow> process_table_unregister (ptable k) p;
            Some (push [Return (-1)] (k\<lparr>ptable := t, kheap := heap_free ks KERNEL_STACK_SIZE (kheap k)\<rparr>))
          }
          else do {
            father \<leftarrow> get_process (father_pid (proc k s));
            k \<leftarrow> process_child_list_add_head father (p_pid (proc k s)) k;
            start_ready s priority (start_user_stacks s program argument k)
          }
        }
        else do {
          kassert (p_pid (proc k s) = 1);
          start_ready s priority (start_init_stack s program argument k)
        }
      })"

subsection \<open>Ending processes\<close>

definition exit :: "int \<Rightarrow> kernel \<Rightarrow> kernel option" where
  "exit retval k = do {
     this \<leftarrow> running_process (ptable k);
     let k = update_proc this (\<lambda>q. q\<lparr>return_code := retval\<rparr>) k;
     k \<leftarrow> request_zombify (p_pid (proc k this)) k;
     Some (push (schedule @ [Exit_loop]) k)
   }"

definition kill :: "int \<Rightarrow> kernel \<Rightarrow> kernel option" where
  "kill p k =
     (if p < 1 \<or> p > int PROCESS_TABLE_MAX_SIZE then Some (push [Return (-1)] k)
      else do {
        s \<leftarrow> get_process p;
        if p_pid (proc k s) = PROCESS_NOT_FOUND_CODE \<or> p_state (proc k s) = ZOMBIE
        then Some (push [Return (-1)] k)
        else do {
          k \<leftarrow> (if p_state (proc k s) = SLEEPING then do {
              let t = ptable k;
              let n = u32_dec (nb_waiting t);
              kassert (n < PROCESS_TABLE_MAX_SIZE);
              Some (k\<lparr>ptable := t\<lparr>nb_waiting := n,
                pids_waiting := (pids_waiting t)(n := PROCESS_NOT_FOUND_CODE)\<rparr>\<rparr>)
            } else Some k);
          let k = update_proc s (\<lambda>q. q\<lparr>return_code := 0\<rparr>) k;
          k \<leftarrow> request_zombify p k;
          Some (push (schedule @ [Return 0]) k)
        }
      })"

subsection \<open>Waiting for children\<close>

definition store_result :: "nat \<Rightarrow> int \<Rightarrow> kernel \<Rightarrow> kernel" where
  "store_result a v k = (if a \<noteq> 0 then set_word a v k else k)"

text \<open>The scan of \<open>waitpid\<close> for any child: the first unsealed zombie, or the number of unsealed children.\<close>

fun scan_children :: "int list \<Rightarrow> nat \<Rightarrow> kernel \<Rightarrow> (nat + nat) option" where
  "scan_children [] n k = Some (Inr n)"
| "scan_children (c # cs) n k = do {
     s \<leftarrow> get_process c;
     if \<not> sealed (proc k s) then
       (if p_state (proc k s) = ZOMBIE then Some (Inl s) else scan_children cs (Suc n) k)
     else scan_children cs n k
   }"

definition reap :: "nat \<Rightarrow> nat \<Rightarrow> kernel \<Rightarrow> kernel option" where
  "reap s retvalp k = do {
     let k = store_result retvalp (return_code (proc k s)) k;
     let p = p_pid (proc k s);
     k \<leftarrow> request_destroy p k;
     Some (push [Return (p_pid (proc k s))] k)
   }"

definition waitpid :: "int \<Rightarrow> nat \<Rightarrow> kernel \<Rightarrow> kernel option" where
  "waitpid p retvalp k =
     (if p < 0 then do {
        this \<leftarrow> running_process (ptable k);
        r \<leftarrow> scan_children (childs_pids (proc k this)) 0 k;
        case r of
          Inl s \<Rightarrow> reap s retvalp k
        | Inr n \<Rightarrow>
            (if n > 0 then
               Some (push (schedule @ [Waitpid_any_resume this retvalp])
                 (update_proc this (\<lambda>q. q\<lparr>p_state := BLOCKED_BY_CHILD, waiting_code := -1\<rparr>) k))
             else Some (push [Return (-1)] k))
      }
      else if p < 1 \<or> p > int PROCESS_TABLE_MAX_SIZE then Some (push [Return (-1)] k)
      else do {
        s \<leftarrow> get_process p;
        if p_pid (proc k s) = PROCESS_NOT_FOUND_CODE \<or> sealed (proc k s) \<or> father_pid (proc k s) \<noteq> getpid k
        then Some (push [Return (-1)] k)
        else if p_state (proc k s) = ZOMBIE then do {
          let k = store_result retvalp (return_code (proc k s)) k;
          k \<leftarrow> request_destroy p k;
          Some (push [Return p] k)
        }
        else do {
          this \<leftarrow> running_process (ptable k);
          Some (push (schedule @ [Waitpid_one_resume p s retvalp])
            (update_proc this (\<lambda>q. q\<lparr>p_state := BLOCKED_BY_CHILD, waiting_code := p\<rparr>) k))
        }
      })"

definition waitpid_any_resume :: "nat \<Rightarrow> nat \<Rightarrow> kernel \<Rightarrow> kernel option" where
  "waitpid_any_resume this retvalp k = do {
     s \<leftarrow> get_process (waiting_code (proc k this));
     kassert (p_pid (proc k s) \<noteq> PROCESS_NOT_FOUND_CODE);
     reap s retvalp k
   }"

definition waitpid_one_resume :: "int \<Rightarrow> nat \<Rightarrow> nat \<Rightarrow> kernel \<Rightarrow> kernel option" where
  "waitpid_one_resume p s retvalp k = do {
     let k = store_result retvalp (return_code (proc k s)) k;
     k \<leftarrow> request_destroy p k;
     Some (push [Return p] k)
   }"

subsection \<open>Sleeping, priorities and blocking\<close>

definition wait_clock :: "nat \<Rightarrow> kernel \<Rightarrow> kernel option" where
  "wait_clock clk k =
     (if clk > 0 then do {
        this \<leftarrow> running_process (ptable k);
        let k = update_proc this (\<lambda>q. q\<lparr>p_state := SLEEPING, sleep_time := clk\<rparr>) k;
        let t = ptable k;
        kassert (nb_waiting t < PROCESS_TABLE_MAX_SIZE);
        let k = k\<lparr>ptable := t\<lparr>pids_waiting := (pids_waiting t)(nb_waiting t := p_pid (proc k this)),
          nb_waiting := u32_inc (nb_waiting t)\<rparr>\<rparr>;
        Some (push (schedule @ [Return 0]) k)
      } else Some (push [Return 0] k))"

text \<open>
  The loop of \<open>clock_tick\<close>. When entry \<open>i\<close> is due it is replaced by the last one and looked at
  again: \<open>i--\<close> followed by the \<open>i++\<close> of the loop, also when \<open>i\<close> is 0 and wraps.
\<close>

definition wake_entry :: "nat \<Rightarrow> nat \<Rightarrow> kernel \<Rightarrow> kernel option" where
  "wake_entry i s k = do {
     let k = set_state s WAITING k;
     let t = ptable k;
     let n = nb_waiting t - 1;
     let k = k\<lparr>ptable := t\<lparr>nb_waiting := n, pids_waiting :=
       (pids_waiting t)(i := pids_waiting t n, n := PROCESS_NOT_FOUND_CODE)\<rparr>\<rparr>;
     kqueue_add s k
   }"

lemma wake_entry_nb_waiting:
  "wake_entry i s k = Some k' \<Longrightarrow> nb_waiting (ptable k') = nb_waiting (ptable k) - 1"
  by (auto simp: wake_entry_def kqueue_add_def set_state_def update_proc_def Let_def split: bind_splits)

function tick_loop :: "nat \<Rightarrow> bool \<Rightarrow> kernel \<Rightarrow> (bool \<times> kernel) option" where
  "tick_loop i awaken k =
     (if i < nb_waiting (ptable k) then
        (case get_process (pids_waiting (ptable k) i) of None \<Rightarrow> None
         | Some s \<Rightarrow>
             (if sleep_time (proc k s) \<le> current_clock (kclock k) then
                (case wake_entry i s k of None \<Rightarrow> None | Some k' \<Rightarrow> tick_loop i True k')
              else tick_loop (Suc i) awaken k))
      else Some (awaken, k))"
  by pat_completeness auto

termination
  by (relation "measure (\<lambda>(i, awaken, k). nb_waiting (ptable k) - i)") (auto dest: wake_entry_nb_waiting)

declare tick_loop.simps [simp del]

definition clock_tick :: "kernel \<Rightarrow> kernel option" where
  "clock_tick k = do {
     (awaken, k) \<leftarrow> tick_loop 0 False k;
     Some (if awaken then push schedule k else k)
   }"

definition getprio :: "int \<Rightarrow> kernel \<Rightarrow> int option" where
  "getprio p k = do { s \<leftarrow> get_process p; Some (prio k s) }"

definition chprio :: "int \<Rightarrow> int \<Rightarrow> kernel \<Rightarrow> kernel option" where
  "chprio p newprio k =
     (if p < 1 \<or> p > int PROCESS_TABLE_MAX_SIZE
         \<or> newprio < PROCESS_MIN_PRIORITY \<or> newprio > PROCESS_MAX_PRIORITY
      then Some (push [Return (-1)] k)
      else do {
        s \<leftarrow> get_process p;
        if p_pid (proc k s) = PROCESS_NOT_FOUND_CODE \<or> p_state (proc k s) = ZOMBIE
        then Some (push [Return (-1)] k)
        else do {
          let oldprio = prio k s;
          let k = update_proc s (\<lambda>q. q\<lparr>p_priority := newprio\<rparr>) k;
          k \<leftarrow> (if p_state (proc k s) = BLOCKED_BY_MESSAGE then do {
              (t, h) \<leftarrow> message_queues_notify_priority_changed p newprio (mqt k) (kheap k);
              Some (k\<lparr>mqt := t, kheap := h\<rparr>)
            } else Some k);
          r \<leftarrow> running_process (ptable k);
          k \<leftarrow> (if p_pid (proc k r) \<noteq> p \<and> state_code (p_state (proc k s)) AND BLOCKED = 0 then do {
              k \<leftarrow> kqueue_del s k;
              kqueue_add s k
            } else Some k);
          next_proc \<leftarrow> queue_top (process_queue k);
          resched \<leftarrow> (if newprio > prio k r then Some True
            else if p_pid (proc k r) = p
              then (case next_proc of None \<Rightarrow> None | Some n \<Rightarrow> Some (prio k n > newprio))
            else Some False);
          Some (push ((if resched then schedule else []) @ [Return oldprio]) k)
        }
      })"

definition awake :: "int \<Rightarrow> kernel \<Rightarrow> (bool \<times> kernel) option" where
  "awake p k = do {
     s \<leftarrow> get_process p;
     k \<leftarrow> kqueue_add s (set_state s WAITING k);
     r \<leftarrow> running_process (ptable k);
     Some (prio k s > prio k r, k)
   }"

definition block_by_message :: "int \<Rightarrow> kernel \<Rightarrow> kernel option" where
  "block_by_message p k = do {
     s \<leftarrow> get_process p;
     let k = set_state s BLOCKED_BY_MESSAGE k;
     r \<leftarrow> running_process (ptable k);
     if p \<noteq> p_pid (proc k r) then kqueue_del s k else Some k
   }"

subsection \<open>The clock interrupt\<close>

definition tic_PIT :: "kernel \<Rightarrow> kernel" where
  "tic_PIT k =
     (let (due, c) = tic_count (kclock k)
      in push ((if due then schedule else []) @ [Tick_clock, Tick_print, Restore_eax (eax k)])
           (k\<lparr>kclock := c\<rparr>))"

definition tic_print :: "kernel \<Rightarrow> kernel option" where
  "tic_print k = do {
     text \<leftarrow> clock_text (kclock k);
     con \<leftarrow> print_top_right text (kconsole k);
     Some (k\<lparr>kconsole := con\<rparr>)
   }"

subsection \<open>The machine\<close>

text \<open>The code after \<open>schedule\<close> in \<open>psend\<close> and \<open>preceive\<close>: was the process woken by a reset?\<close>

definition ipc_resume :: "int \<Rightarrow> kernel \<Rightarrow> kernel option" where
  "ipc_resume p k = do {
     s \<leftarrow> get_process p;
     Some (if reset_releases (mqt k) s
       then k\<lparr>mqt := (mqt k)\<lparr>reset_releases := (reset_releases (mqt k))(s := False)\<rparr>, eax := -1\<rparr>
       else k\<lparr>eax := 0\<rparr>)
   }"

fun exec_frame :: "frame \<Rightarrow> kernel \<Rightarrow> kernel option" where
  "exec_frame Clean_zombify k = clean_zombify k"
| "exec_frame Clean_destroy k = clean_destroy k"
| "exec_frame Schedule_pick k = schedule_pick k"
| "exec_frame (Start_return s) k = Some (k\<lparr>eax := p_pid (proc k s)\<rparr>)"
| "exec_frame Exit_loop k = Some (push [Exit_loop] k)"
| "exec_frame (Return v) k = Some (k\<lparr>eax := v\<rparr>)"
| "exec_frame (Waitpid_any_resume this retvalp) k = waitpid_any_resume this retvalp k"
| "exec_frame (Waitpid_one_resume p s retvalp) k = waitpid_one_resume p s retvalp k"
| "exec_frame (Ipc_resume p) k = ipc_resume p k"
| "exec_frame Tick_clock k = clock_tick k"
| "exec_frame Tick_print k = tic_print k"
| "exec_frame (Restore_eax v) k = Some (k\<lparr>eax := v\<rparr>)"

definition kstep :: "kernel \<Rightarrow> kernel option" where
  "kstep k = (case kstack k of [] \<Rightarrow> Some k | f # fs \<Rightarrow> exec_frame f (k\<lparr>kstack := fs\<rparr>))"

definition kdone :: "kernel \<Rightarrow> bool" where
  "kdone k \<longleftrightarrow> kstack k = [] \<or> hd (kstack k) = Exit_loop"

fun krun :: "nat \<Rightarrow> kernel \<Rightarrow> kernel option" where
  "krun 0 k = Some k"
| "krun (Suc n) k = (if kdone k then Some k else Option.bind (kstep k) (krun n))"

subsection \<open>Kernel code ends\<close>

definition slots_ok :: "kernel \<Rightarrow> bool" where
  "slots_ok k \<longleftrightarrow> (\<forall>r. running_process (ptable k) = Some r \<longrightarrow> r < PROCESS_TABLE_MAX_SIZE)
     \<and> (\<forall>s \<in> set (process_queue k). s < PROCESS_TABLE_MAX_SIZE)
     \<and> (\<forall>s < PROCESS_TABLE_MAX_SIZE. p_pid (proc k s) = int s + 1 \<or> p_pid (proc k s) = PROCESS_NOT_FOUND_CODE)"

fun frame_weight :: "frame \<Rightarrow> nat" where
  "frame_weight Clean_zombify = 2"
| "frame_weight (Waitpid_any_resume _ _) = 3"
| "frame_weight (Waitpid_one_resume _ _ _) = 3"
| "frame_weight Tick_clock = 4"
| "frame_weight _ = 1"

definition stack_weight :: "frame list \<Rightarrow> nat" where
  "stack_weight fs = sum_list (map frame_weight fs)"

definition saved_weight :: "(nat \<Rightarrow> frame list) \<Rightarrow> nat" where
  "saved_weight ks = (\<Sum>s<PROCESS_TABLE_MAX_SIZE. stack_weight (ks s))"

definition reapable :: "(nat \<Rightarrow> process_t) \<Rightarrow> nat set" where
  "reapable d = {s. s < PROCESS_TABLE_MAX_SIZE \<and> deallocated (d s) \<and> \<not> sealed (d s)}"

definition work :: "kernel \<Rightarrow> nat" where
  "work k = 2 * card (reapable (data (ptable k))) + nb_to_destroy (ptable k)
     + stack_weight (kstack k) + saved_weight (kstacks k)"

lemma stack_weight_simps [simp]:
  "stack_weight [] = 0" "stack_weight (f # fs) = frame_weight f + stack_weight fs"
  "stack_weight (fs @ gs) = stack_weight fs + stack_weight gs"
  by (simp_all add: stack_weight_def)

lemma frame_weight_pos [simp]: "0 < frame_weight f"
  by (cases f) auto

lemma saved_weight_upd:
  "s < PROCESS_TABLE_MAX_SIZE \<Longrightarrow>
   saved_weight (ks(s := fs)) + stack_weight (ks s) = saved_weight ks + stack_weight fs"
  by (simp add: saved_weight_def sum.remove [of "{..<PROCESS_TABLE_MAX_SIZE}" s] sum.remove)

lemma saved_weight_clear: "saved_weight (ks(s := [])) \<le> saved_weight ks"
  by (simp add: saved_weight_def sum_mono)

lemma finite_reapable [simp]: "finite (reapable d)"
  by (rule finite_subset [of _ "{..<PROCESS_TABLE_MAX_SIZE}"]) (auto simp: reapable_def)

lemma reapable_upd_same:
  "deallocated q = deallocated (d s) \<Longrightarrow> sealed q = sealed (d s) \<Longrightarrow> reapable (d(s := q)) = reapable d"
  by (auto simp: reapable_def)

lemma reapable_upd_not: "\<not> deallocated q \<or> sealed q \<Longrightarrow> reapable (d(s := q)) = reapable d - {s}"
  by (auto simp: reapable_def)

subsection \<open>What cleaning keeps\<close>

definition keeps :: "kernel \<Rightarrow> kernel \<Rightarrow> bool" where
  "keeps k k' \<longleftrightarrow> nb_to_zombify (ptable k') = nb_to_zombify (ptable k)
     \<and> running_process (ptable k') = running_process (ptable k)
     \<and> kstack k' = kstack k \<and> (slots_ok k \<longrightarrow> slots_ok k')"

lemma keeps_refl [simp]: "keeps k k"
  by (simp add: keeps_def)

lemma keeps_trans [trans]: "keeps k k' \<Longrightarrow> keeps k' k'' \<Longrightarrow> keeps k k''"
  by (simp add: keeps_def)

lemma slots_ok_get_process:
  "slots_ok k \<Longrightarrow> s < PROCESS_TABLE_MAX_SIZE \<Longrightarrow> get_process (p_pid (proc k s)) = Some s' \<Longrightarrow> s' = s"
  by (auto simp: slots_ok_def get_process_Some PROCESS_NOT_FOUND_CODE_def)

lemma request_destroy_effect:
  assumes "request_destroy p k = Some k'"
  obtains s where "get_process p = Some s" "\<not> sealed (proc k s)"
    "data (ptable k') = (data (ptable k))(s := (proc k s)\<lparr>sealed := True\<rparr>)"
    "nb_to_destroy (ptable k') = Suc (nb_to_destroy (ptable k))"
    "nb_to_zombify (ptable k') = nb_to_zombify (ptable k)"
    "running_process (ptable k') = running_process (ptable k)"
    "kstack k' = kstack k" "kstacks k' = kstacks k" "set (process_queue k') \<subseteq> set (process_queue k)"
  using assms
  by (auto simp: request_destroy_def notify_killed_def kqueue_del_eq Let_def PROCESS_TABLE_MAX_SIZE_def
      set_remove1_subset split: bind_splits if_splits)

lemma request_destroy_keeps: "request_destroy p k = Some k' \<Longrightarrow> keeps k k'"
  by (erule request_destroy_effect) (auto simp: slots_ok_def keeps_def)

lemma request_destroy_work: "request_destroy p k = Some k' \<Longrightarrow> work k' \<le> work k + 1"
  by (erule request_destroy_effect) (auto simp: work_def reapable_upd_not intro: card_mono)

lemma request_destroy_reaps:
  assumes "request_destroy p k = Some k'" "get_process p = Some s" "deallocated (proc k s)"
  shows "work k' < work k"
proof -
  have "s \<in> reapable (data (ptable k))" using assms
    by (auto elim!: request_destroy_effect simp: reapable_def get_process_Some)
  then have "0 < card (reapable (data (ptable k)))" by (auto simp: card_gt_0_iff)
  with assms \<open>s \<in> _\<close> show ?thesis
    by (auto elim!: request_destroy_effect simp: work_def reapable_upd_not card_Diff_singleton)
qed

lemma child_list_keeps:
  "keeps k (process_child_list_remove s p k)"
  "process_child_list_add_head s p k = Some k' \<Longrightarrow> keeps k k'"
  by (auto simp: process_child_list_remove_def process_child_list_add_head_def heap_alloc_def Let_def
      keeps_def slots_ok_def split: if_splits)

lemma child_list_work:
  "work (process_child_list_remove s p k) = work k"
  "process_child_list_add_head s p k = Some k' \<Longrightarrow> work k' = work k"
  by (auto simp: process_child_list_remove_def process_child_list_add_head_def heap_alloc_def Let_def
      work_def reapable_upd_same split: if_splits)

lemma father_keeps: "keeps k (update_proc s (\<lambda>q. q\<lparr>father_pid := f\<rparr>) k)"
  "work (update_proc s (\<lambda>q. q\<lparr>father_pid := f\<rparr>) k) = work k"
  by (auto simp: keeps_def slots_ok_def work_def reapable_upd_same)

lemma childs_keeps: "keeps k (update_proc s (\<lambda>q. q\<lparr>childs_pids := cs\<rparr>) k)"
  "work (update_proc s (\<lambda>q. q\<lparr>childs_pids := cs\<rparr>) k) = work k"
  by (auto simp: keeps_def slots_ok_def work_def reapable_upd_same)

lemma deallocate_effect:
  assumes "deallocate s k = Some k'"
  shows "keeps k k'" "process_queue k' = process_queue k"
    "nb_to_destroy (ptable k') = nb_to_destroy (ptable k)" "kstacks k' = (kstacks k)(s := [])"
    "\<exists>q. data (ptable k') = (data (ptable k))(s := q) \<and> p_pid q = p_pid (proc k s)"
  using assms by (auto simp: deallocate_def Let_def keeps_def slots_ok_def split: if_splits)

lemma zombify_children_keeps: "zombify_children s cs k = Some k' \<Longrightarrow> keeps k k'"
proof (induction cs arbitrary: k)
  case Nil
  then show ?case by simp
next
  case (Cons c cs)
  then obtain child k1 where c: "get_process c = Some child" "zombify_children s cs k1 = Some k'"
    and k1: "(if deallocated (proc k child) then request_destroy (p_pid (proc k child)) k
           else process_child_list_add_head 0 (residue (kheap k) c)
             (update_proc child (\<lambda>q. q\<lparr>father_pid := 1\<rparr>) (process_child_list_remove s c k))) = Some k1"
    by (auto simp: Let_def process_child_list_remove_def split: bind_splits if_splits)
  have "keeps k k1"
  proof (cases "deallocated (proc k child)")
    case True
    then show ?thesis using k1 request_destroy_keeps by simp
  next
    case False
    let ?k0 = "update_proc child (\<lambda>q. q\<lparr>father_pid := 1\<rparr>) (process_child_list_remove s c k)"
    have "keeps k (process_child_list_remove s c k)" by (rule child_list_keeps(1))
    also have "keeps (process_child_list_remove s c k) ?k0" by (rule father_keeps(1))
    also have "keeps ?k0 k1" using k1 False by (simp add: child_list_keeps(2))
    finally show ?thesis .
  qed
  with Cons.IH c(2) show ?case using keeps_trans by blast
qed

lemma kqueue_add_keeps:
  "kqueue_add s k = Some k' \<Longrightarrow> s < PROCESS_TABLE_MAX_SIZE \<Longrightarrow> keeps k k'"
  by (auto simp: kqueue_add_eq keeps_def slots_ok_def split: if_splits)

lemma zombify_keeps:
  assumes "zombify p k = Some k'"
  shows "keeps k k'"
proof -
  obtain s father k1 k2 k3 where s: "get_process p = Some s"
    and f: "get_process (father_pid (proc k s)) = Some father"
    and k1: "deallocate s k = Some k1"
    and k2: "zombify_children s (childs_pids (proc k1 s)) k1 = Some k2"
    and k3: "(if p_state (proc k2 father) = BLOCKED_BY_CHILD \<and> \<not> sealed (proc k2 s)
             \<and> (waiting_code (proc k2 father) < 0 \<or> waiting_code (proc k2 father) = p_pid (proc k2 s))
           then kqueue_add father (update_proc father
             (\<lambda>q. q\<lparr>waiting_code := p_pid (proc k2 s), p_state := WAITING\<rparr>) k2)
           else Some k2) = Some k3"
    and k': "(if \<not> sealed (proc k3 s) \<and> (p_state (proc k3 father) = ZOMBIE \<or> p_pid (proc k3 father) = 1)
     then request_destroy p k3 else Some k3) = Some k'"
    using assms by (auto simp: zombify_def split: bind_splits if_splits)
  have "keeps k k1" using deallocate_effect(1) [OF k1] .
  also have "keeps k1 k2" using zombify_children_keeps [OF k2] .
  also have "keeps k2 k3"
  proof -
    have "keeps k2 (update_proc father (\<lambda>q. q\<lparr>waiting_code := w, p_state := WAITING\<rparr>) k2)" for w
      by (auto simp: keeps_def slots_ok_def)
    moreover have "father < PROCESS_TABLE_MAX_SIZE" using f by (simp add: get_process_Some)
    ultimately show ?thesis using k3 kqueue_add_keeps
      by (auto split: if_splits) (metis keeps_trans)+
  qed
  also have "keeps k3 k'" using k' request_destroy_keeps by (auto split: if_splits)
  finally show ?thesis .
qed

lemma destroy_children_keeps:
  "destroy_children p s cs k = Some k' \<Longrightarrow> slots_ok k \<Longrightarrow> keeps k k' \<and> work k' \<le> work k"
proof (induction cs arbitrary: k)
  case Nil
  then show ?case by simp
next
  case (Cons c cs)
  define k0 where "k0 = update_proc s (\<lambda>q. q\<lparr>childs_pids := cs\<rparr>) k"
  have k0: "keeps k k0" "work k0 = work k" by (simp_all add: k0_def childs_keeps)
  then have ok: "slots_ok k0" using Cons.prems(2) by (simp add: keeps_def)
  obtain child k1 where c: "get_process c = Some child" "destroy_children p s cs k1 = Some k'"
    and k1: "(if deallocated (proc k0 child) then request_destroy (p_pid (proc k0 child)) k0
           else process_child_list_add_head 0 p (update_proc child (\<lambda>q. q\<lparr>father_pid := 1\<rparr>) k0)) = Some k1"
    using Cons.prems(1) by (auto simp: k0_def [symmetric] Let_def split: bind_splits)
  have "keeps k0 k1 \<and> work k1 \<le> work k0"
  proof (cases "deallocated (proc k0 child)")
    case True
    with k1 have rd: "request_destroy (p_pid (proc k0 child)) k0 = Some k1" by simp
    then have "get_process (p_pid (proc k0 child)) \<noteq> None" by (auto elim: request_destroy_effect)
    with ok c(1) have "get_process (p_pid (proc k0 child)) = Some child"
      using slots_ok_get_process by (auto simp: get_process_Some)
    from request_destroy_reaps [OF rd this True] request_destroy_keeps [OF rd] show ?thesis by simp
  next
    case False
    with k1 have "process_child_list_add_head 0 p (update_proc child (\<lambda>q. q\<lparr>father_pid := 1\<rparr>) k0) = Some k1"
      by simp
    from child_list_keeps(2) [OF this] child_list_work(2) [OF this] show ?thesis
      using father_keeps by (metis keeps_trans order_refl)
  qed
  with k0 ok Cons.IH [OF c(2)] show ?case by (metis keeps_def keeps_trans order_trans)
qed

lemma destroy_keeps:
  assumes "destroy p k = Some k'" "slots_ok k"
  shows "keeps k k'" "work k' \<le> work k"
proof -
  obtain s father k2 t k4 where s: "get_process p = Some s"
    and k2: "destroy_children p s (childs_pids (proc (process_child_list_remove father p k) s))
       (process_child_list_remove father p k) = Some k2"
    and t: "process_table_unregister (ptable k2) p = Some t"
    and k4: "(if \<not> deallocated (data t s) then deallocate s (k2\<lparr>ptable := t\<rparr>)
       else Some (k2\<lparr>ptable := t\<rparr>)) = Some k4"
    and k': "k' = update_proc s (\<lambda>_. no_process) k4"
    using assms(1) by (auto simp: destroy_def Let_def split: bind_splits if_splits)
  let ?k1 = "process_child_list_remove father p k"
  have ok1: "slots_ok ?k1" using child_list_keeps(1) [of k father p] assms(2) by (simp add: keeps_def)
  note c = destroy_children_keeps [OF k2 ok1]
  have "keeps k k2" using child_list_keeps(1) c keeps_trans by blast
  have w2: "work k2 \<le> work k" using c child_list_work(1) [of father p k] by simp
  note tf = process_table_unregister_frame [OF t]
  define k3 where "k3 = k2\<lparr>ptable := t\<rparr>"
  have "keeps k2 k3" "work k3 = work k2" using tf by (auto simp: k3_def keeps_def slots_ok_def work_def)
  have d4: "keeps k3 k4" "nb_to_destroy (ptable k4) = nb_to_destroy (ptable k3)"
    "\<exists>q. data (ptable k4) = (data (ptable k3))(s := q)"
    "kstacks k4 = (kstacks k3)(s := []) \<or> kstacks k4 = kstacks k3"
    using k4 deallocate_effect [of s k3 k4] by (auto simp: k3_def [symmetric] split: if_splits)
      (auto simp: k3_def intro: exI [of _ "data t s"])
  have "keeps k4 k'" by (auto simp: k' keeps_def slots_ok_def no_process_def)
  then show "keeps k k'" using \<open>keeps k k2\<close> \<open>keeps k2 k3\<close> d4(1) keeps_trans by blast
  obtain q where q: "data (ptable k4) = (data (ptable k3))(s := q)" using d4(3) by blast
  have "reapable (data (ptable k')) = reapable (data (ptable k3)) - {s}"
    by (simp add: k' q reapable_upd_not no_process_def)
  then have "card (reapable (data (ptable k'))) \<le> card (reapable (data (ptable k3)))"
    by (simp add: card_mono)
  moreover have "saved_weight (kstacks k') \<le> saved_weight (kstacks k3)"
    using d4(4) saved_weight_clear by (auto simp: k')
  moreover have "kstack k' = kstack k3" using d4(1) by (simp add: k' keeps_def)
  ultimately have "work k' \<le> work k3" using d4(2) by (simp add: work_def k')
  then show "work k' \<le> work k" using w2 \<open>work k3 = work k2\<close> by simp
qed

subsection \<open>Every frame makes progress\<close>

definition progress :: "nat \<Rightarrow> kernel \<Rightarrow> kernel \<Rightarrow> bool" where
  "progress w k k' \<longleftrightarrow> slots_ok k' \<and> (nb_to_zombify (ptable k') < nb_to_zombify (ptable k)
     \<or> nb_to_zombify (ptable k') = nb_to_zombify (ptable k) \<and> work k' < work k + w)"

lemma work_push [simp]: "work (push fs k) = work k + stack_weight fs"
  by (simp add: work_def)

lemma slots_ok_push [simp]: "slots_ok (push fs k) = slots_ok k"
  by (simp add: slots_ok_def)

lemma keeps_progress:
  "keeps k k' \<Longrightarrow> slots_ok k \<Longrightarrow> work k' < work k + w \<Longrightarrow> progress w k k'"
  by (simp add: keeps_def progress_def)

lemma ptable_counts_slots_ok:
  "data t = data (ptable k) \<Longrightarrow> running_process t = running_process (ptable k) \<Longrightarrow>
   slots_ok (k\<lparr>ptable := t\<rparr>) = slots_ok k"
  by (simp add: slots_ok_def)

lemma clean_zombify_progress:
  assumes "clean_zombify k = Some k'" "slots_ok k"
  shows "progress 2 k k'"
proof (cases "nb_to_zombify (ptable k) = 0
    \<or> running_pid_is (pids_to_zombify (ptable k) (nb_to_zombify (ptable k) - 1)) k
      \<and> nb_to_zombify (ptable k) = 1")
  case True
  then have "k' = push [Clean_destroy] k"
    using assms(1) by (auto simp: clean_zombify_def Let_def)
  then show ?thesis using assms(2) by (simp add: progress_def)
next
  case False
  then obtain p t k1 where k1: "zombify p (k\<lparr>ptable := t\<rparr>) = Some k1"
    and t: "data t = data (ptable k)" "running_process t = running_process (ptable k)"
      "nb_to_zombify t = nb_to_zombify (ptable k) - 1"
    and k': "k' = push (schedule @ [Clean_zombify]) k1"
    using assms(1) by (auto simp: clean_zombify_def Let_def split: bind_splits if_splits)
  from zombify_keeps [OF k1] t False assms(2) show ?thesis
    by (simp add: progress_def k' keeps_def ptable_counts_slots_ok)
qed

lemma clean_destroy_progress:
  assumes "clean_destroy k = Some k'" "slots_ok k"
  shows "progress 1 k k'"
proof (cases "nb_to_destroy (ptable k) = 0
    \<or> running_pid_is (pids_to_destroy (ptable k) (nb_to_destroy (ptable k) - 1)) k
      \<and> nb_to_destroy (ptable k) = 1")
  case True
  then have "k' = k" using assms(1) by (auto simp: clean_destroy_def Let_def)
  then show ?thesis using assms(2) by (simp add: progress_def)
next
  case False
  then obtain p t k1 where k1: "destroy p (k\<lparr>ptable := t\<rparr>) = Some k1"
    and t: "data t = data (ptable k)" "running_process t = running_process (ptable k)"
      "nb_to_zombify t = nb_to_zombify (ptable k)" "Suc (nb_to_destroy t) = nb_to_destroy (ptable k)"
    and k': "k' = push [Clean_destroy] k1"
    using assms(1) by (auto simp: clean_destroy_def Let_def split: bind_splits if_splits)
  have ok: "slots_ok (k\<lparr>ptable := t\<rparr>)" using t assms(2) by (simp add: ptable_counts_slots_ok)
  have "Suc (work (k\<lparr>ptable := t\<rparr>)) = work k" using t by (simp add: work_def)
  with destroy_keeps [OF k1 ok] ok t show ?thesis
    by (simp add: progress_def k' keeps_def)
qed

lemma context_switch_work:
  assumes "old < PROCESS_TABLE_MAX_SIZE" "new < PROCESS_TABLE_MAX_SIZE"
  shows "work (context_switch old new k) \<le> work k"
proof -
  let ?ks = "(kstacks k)(old := kstack k)"
  have "saved_weight (?ks(new := [])) + stack_weight (?ks new) = saved_weight ?ks"
    using saved_weight_upd [OF assms(2), of ?ks "[]"] by simp
  moreover have "saved_weight ?ks \<le> saved_weight (kstacks k) + stack_weight (kstack k)"
    using saved_weight_upd [OF assms(1), of "kstacks k" "kstack k"] by simp
  ultimately show ?thesis by (simp add: work_def context_switch_def Let_def)
qed

lemma context_switch_simps [simp]:
  "ptable (context_switch old new k) = ptable k" "process_queue (context_switch old new k) = process_queue k"
  "mqt (context_switch old new k) = mqt k" "memory (context_switch old new k) = memory k"
  "kheap (context_switch old new k) = kheap k" "kclock (context_switch old new k) = kclock k"
  by (simp_all add: context_switch_def Let_def)

lemma process_switch_effect:
  assumes "process_switch old new k = Some k'" "old < PROCESS_TABLE_MAX_SIZE" "new < PROCESS_TABLE_MAX_SIZE"
    and "slots_ok k"
  shows "slots_ok k'" "work k' \<le> work k" "nb_to_zombify (ptable k') = nb_to_zombify (ptable k)"
proof -
  obtain k1 where k1: "(if p_state (data (ptable (set_state new RUNNING k)) old) = RUNNING
      then kqueue_add old (set_state old WAITING
        (set_state new RUNNING k\<lparr>ptable := (ptable (set_state new RUNNING k))\<lparr>running_process := Some new\<rparr>\<rparr>))
      else Some (set_state new RUNNING k\<lparr>ptable := (ptable (set_state new RUNNING k))\<lparr>running_process := Some new\<rparr>\<rparr>))
      = Some k1" and k': "k' = context_switch old new k1"
    using assms(1) by (auto simp: process_switch_def Let_def split: bind_splits)
  have "slots_ok k1" "work k1 = work k" "nb_to_zombify (ptable k1) = nb_to_zombify (ptable k)"
    using k1 assms(2-) by (auto simp: kqueue_add_eq slots_ok_def work_def reapable_upd_same split: if_splits)
  then show "slots_ok k'" "work k' \<le> work k" "nb_to_zombify (ptable k') = nb_to_zombify (ptable k)"
    using context_switch_work [OF assms(2,3), of k1] by (auto simp: k' slots_ok_def)
qed

lemma schedule_pick_progress:
  assumes "schedule_pick k = Some k'" "slots_ok k"
  shows "progress 1 k k'"
proof (cases "running_process (ptable k)")
  case None
  then obtain c q where c: "queue_out (process_queue k) = Some (Some c, q)"
    and k': "k' = context_switch c c (set_state c RUNNING (k\<lparr>process_queue := q\<rparr>)
      \<lparr>ptable := (ptable (set_state c RUNNING (k\<lparr>process_queue := q\<rparr>)))\<lparr>running_process := Some c\<rparr>\<rparr>)"
    using assms(1) by (auto simp: schedule_pick_def queue_top_def Let_def split: bind_splits)
  have sub: "c \<in> set (process_queue k)" "set q \<subseteq> set (process_queue k)"
    using c by (auto simp: queue_out_def split: if_splits dest: in_set_butlastD)
  then have c512: "c < PROCESS_TABLE_MAX_SIZE" using assms(2) by (auto simp: slots_ok_def)
  let ?k1 = "set_state c RUNNING (k\<lparr>process_queue := q\<rparr>)
      \<lparr>ptable := (ptable (set_state c RUNNING (k\<lparr>process_queue := q\<rparr>)))\<lparr>running_process := Some c\<rparr>\<rparr>"
  have "work ?k1 = work k" by (simp add: work_def reapable_upd_same)
  moreover have "slots_ok ?k1" using assms(2) sub c512 by (auto simp: slots_ok_def)
  ultimately show ?thesis using context_switch_work [OF c512 c512, of ?k1]
    by (simp add: progress_def k' slots_ok_def)
next
  case (Some old)
  consider "k' = k" | c q where "queue_out (process_queue k) = Some (Some c, q)"
    "process_switch old c (k\<lparr>process_queue := q\<rparr>) = Some k'"
    using assms(1) Some
    by (auto simp: schedule_pick_def queue_top_def Let_def split: bind_splits if_splits)
  then show ?thesis
  proof cases
    case 1
    then show ?thesis using assms(2) by (simp add: progress_def)
  next
    case (2 c q)
    have "c \<in> set (process_queue k)" "set q \<subseteq> set (process_queue k)"
      using 2 by (auto simp: queue_out_def split: if_splits dest: in_set_butlastD)
    then have "c < PROCESS_TABLE_MAX_SIZE" "old < PROCESS_TABLE_MAX_SIZE" "slots_ok (k\<lparr>process_queue := q\<rparr>)"
      using assms(2) Some by (auto simp: slots_ok_def)
    moreover have "work (k\<lparr>process_queue := q\<rparr>) = work k" by (simp add: work_def)
    ultimately show ?thesis using process_switch_effect [OF 2(2)] by (simp add: progress_def)
  qed
qed

lemma store_result_keeps: "keeps k (store_result a v k)" "work (store_result a v k) = work k"
  by (auto simp: store_result_def set_word_def keeps_def slots_ok_def work_def)

lemma reap_progress:
  assumes "reap s a k = Some k'" "slots_ok k"
  shows "progress 3 k k'"
proof -
  let ?k0 = "store_result a (return_code (proc k s)) k"
  obtain k1 where k1: "request_destroy (p_pid (proc ?k0 s)) ?k0 = Some k1"
    and k': "k' = push [Return (p_pid (proc k1 s))] k1"
    using assms(1) by (auto simp: reap_def Let_def split: bind_splits)
  have "keeps k k1" using store_result_keeps(1) request_destroy_keeps [OF k1] keeps_trans by blast
  moreover have "work k1 \<le> work k + 1"
    using request_destroy_work [OF k1] store_result_keeps(2) [of a "return_code (proc k s)" k] by simp
  ultimately show ?thesis using assms(2) by (simp add: progress_def keeps_def k')
qed

lemma waitpid_resume_progress:
  "waitpid_any_resume this a k = Some k' \<Longrightarrow> slots_ok k \<Longrightarrow> progress 3 k k'"
  "waitpid_one_resume p s a k = Some k' \<Longrightarrow> slots_ok k \<Longrightarrow> progress 3 k k'"
proof -
  show "waitpid_any_resume this a k = Some k' \<Longrightarrow> slots_ok k \<Longrightarrow> progress 3 k k'"
    by (auto simp: waitpid_any_resume_def split: bind_splits if_splits intro: reap_progress)
  assume r: "waitpid_one_resume p s a k = Some k'" "slots_ok k"
  let ?k0 = "store_result a (return_code (proc k s)) k"
  from r(1) obtain k1 where k1: "request_destroy p ?k0 = Some k1" and k': "k' = push [Return p] k1"
    by (auto simp: waitpid_one_resume_def Let_def split: bind_splits)
  have "keeps k k1" using store_result_keeps(1) request_destroy_keeps [OF k1] keeps_trans by blast
  moreover have "work k1 \<le> work k + 1"
    using request_destroy_work [OF k1] store_result_keeps(2) [of a "return_code (proc k s)" k] by simp
  ultimately show "progress 3 k k'" using r(2) by (simp add: progress_def keeps_def k')
qed

lemma wake_entry_keeps:
  "wake_entry i s k = Some k' \<Longrightarrow> s < PROCESS_TABLE_MAX_SIZE \<Longrightarrow> keeps k k' \<and> work k' = work k"
  by (auto simp: wake_entry_def kqueue_add_eq keeps_def slots_ok_def work_def reapable_upd_same Let_def
      split: if_splits)

lemma tick_loop_keeps: "tick_loop i aw k = Some (aw', k') \<Longrightarrow> keeps k k' \<and> work k' = work k"
proof (induction i aw k rule: tick_loop.induct)
  case (1 i aw k)
  show ?case
  proof (cases "i < nb_waiting (ptable k)")
    case False
    then show ?thesis using "1.prems" by (simp add: tick_loop.simps [of i])
  next
    case True
    with "1.prems" obtain s where s: "get_process (pids_waiting (ptable k) i) = Some s"
      by (cases "get_process (pids_waiting (ptable k) i)") (auto simp: tick_loop.simps [of i])
    show ?thesis
    proof (cases "sleep_time (proc k s) \<le> current_clock (kclock k)")
      case True2: True
      with "1.prems" True s obtain k1 where k1: "wake_entry i s k = Some k1"
        "tick_loop i True k1 = Some (aw', k')" by (auto simp: tick_loop.simps [of i aw] split: option.splits)
      with "1.IH"(1) [OF True s True2 k1(1)] wake_entry_keeps [OF k1(1)] s show ?thesis
        by (metis get_process_Some keeps_trans)
    next
      case False
      with "1.IH"(2) [OF True s False] "1.prems" True s show ?thesis by (simp add: tick_loop.simps [of i aw])
    qed
  qed
qed

lemma clock_tick_progress:
  assumes "clock_tick k = Some k'" "slots_ok k"
  shows "progress 4 k k'"
proof -
  obtain aw k1 where k1: "tick_loop 0 False k = Some (aw, k1)" "k' = (if aw then push schedule k1 else k1)"
    using assms(1) by (auto simp: clock_tick_def split: bind_splits)
  from tick_loop_keeps [OF k1(1)] assms(2) show ?thesis by (simp add: k1(2) progress_def keeps_def)
qed

lemma exec_frame_progress:
  assumes "exec_frame f k = Some k'" "slots_ok k" "f \<noteq> Exit_loop"
  shows "progress (frame_weight f) k k'"
proof (cases f)
  case Clean_zombify
  then show ?thesis using assms clean_zombify_progress by simp
next
  case Clean_destroy
  then show ?thesis using assms clean_destroy_progress by simp
next
  case Schedule_pick
  then show ?thesis using assms schedule_pick_progress by simp
next
  case Tick_clock
  then show ?thesis using assms clock_tick_progress by simp
next
  case (Waitpid_any_resume x y)
  then show ?thesis using assms waitpid_resume_progress(1) by simp
next
  case (Waitpid_one_resume x y z)
  then show ?thesis using assms waitpid_resume_progress(2) by simp
next
  case (Ipc_resume p)
  then show ?thesis using assms
    by (cases "get_process p") (auto simp: ipc_resume_def progress_def slots_ok_def work_def split: if_splits)
next
  case Tick_print
  then show ?thesis using assms
    by (auto simp: tic_print_def progress_def slots_ok_def work_def split: bind_splits)
qed (use assms in \<open>auto simp: progress_def slots_ok_def work_def\<close>)

definition kernel_measure :: "kernel \<Rightarrow> nat \<times> nat" where
  "kernel_measure k = (nb_to_zombify (ptable k), work k)"

lemma kstep_progress:
  assumes "kstep k = Some k'" "slots_ok k" "\<not> kdone k"
  shows "slots_ok k'" "(kernel_measure k', kernel_measure k) \<in> less_than <*lex*> less_than"
proof -
  obtain f fs where f: "kstack k = f # fs" "f \<noteq> Exit_loop"
    using assms(3) by (cases "kstack k") (auto simp: kdone_def)
  have "exec_frame f (k\<lparr>kstack := fs\<rparr>) = Some k'" using assms(1) f by (simp add: kstep_def)
  moreover have "slots_ok (k\<lparr>kstack := fs\<rparr>)" using assms(2) by (simp add: slots_ok_def)
  ultimately have "progress (frame_weight f) (k\<lparr>kstack := fs\<rparr>) k'" using f(2) by (rule exec_frame_progress)
  moreover have "work k = work (k\<lparr>kstack := fs\<rparr>) + frame_weight f" using f(1) by (simp add: work_def)
  ultimately show "slots_ok k'" "(kernel_measure k', kernel_measure k) \<in> less_than <*lex*> less_than"
    by (auto simp: progress_def kernel_measure_def)
qed

lemma krun_ends:
  "slots_ok k \<Longrightarrow> \<exists>n. \<forall>m\<ge>n. krun m k = krun n k \<and> (case krun n k of None \<Rightarrow> True | Some k' \<Rightarrow> kdone k')"
proof (induction k rule: wf_induct [of "inv_image (less_than <*lex*> less_than) kernel_measure"])
  case 1
  show ?case by (intro wf_inv_image wf_lex_prod wf_less_than)
next
  case (2 k)
  show ?case
  proof (cases "kdone k")
    case True
    then have "krun m k = Some k" for m by (cases m) auto
    with True show ?thesis by simp
  next
    case False
    show ?thesis
    proof (cases "kstep k")
      case None
      then have "krun (Suc m) k = None" for m using False by simp
      then have "\<forall>m\<ge>1. krun m k = None" by (metis Suc_le_D One_nat_def)
      then show ?thesis by (intro exI [of _ 1]) auto
    next
      case (Some k1)
      from kstep_progress [OF Some 2(2) False] 2(1) obtain n where
        n: "\<forall>m\<ge>n. krun m k1 = krun n k1 \<and> (case krun n k1 of None \<Rightarrow> True | Some k' \<Rightarrow> kdone k')"
        by (auto simp: in_inv_image)
      have "krun (Suc m) k = krun m k1" for m using Some False by simp
      with n show ?thesis by (intro exI [of _ "Suc n"]) (metis Suc_le_D Suc_le_mono)
    qed
  qed
qed

end
