(* ===== verification/Scheduling.thy ===== *)
theory Scheduling
  imports Kernel
begin

text \<open>
  What the scheduler and the process calls guarantee: the ready-queue invariant, the choice of
  \<open>schedule\<close>, the creation of processes, waking sleepers, waiting for children, and the cases in
  which a system call stops the kernel.
\<close>

subsection \<open>The ready queue invariant and the scheduler's choice\<close>

definition sched_inv :: "kernel \<Rightarrow> bool" where
  "sched_inv k \<longleftrightarrow> distinct (process_queue k) \<and> prio_sorted (prio k) (process_queue k)
     \<and> (\<forall>s \<in> set (process_queue k). s < PROCESS_TABLE_MAX_SIZE \<and> p_pid (proc k s) = int s + 1
          \<and> p_state (proc k s) = WAITING)
     \<and> (\<forall>r. running_process (ptable k) = Some r \<longrightarrow> r < PROCESS_TABLE_MAX_SIZE
          \<and> p_pid (proc k r) = int r + 1 \<and> r \<notin> set (process_queue k))"

lemma prio_sorted_cong:
  "(\<And>x. x \<in> set xs \<Longrightarrow> f x = g x) \<Longrightarrow> prio_sorted f xs = prio_sorted g xs"
  by (induction xs) auto

text \<open>\<open>schedule\<close> keeps the running process only when it can run and nobody as urgent is ready.\<close>

lemma schedule_pick_stay:
  assumes "sched_inv k" "running_process (ptable k) = Some old"
    and "current_size (ptable k) < PROCESS_TABLE_MAX_SIZE \<or> old = 0"
    and "process_queue k = [] \<or> p_state (proc k old) = RUNNING \<and> prio k (last (process_queue k)) < prio k old"
  shows "schedule_pick k = Some k"
  using assms by (auto simp: schedule_pick_def queue_top_def sched_inv_def)

lemma schedule_pick_switch:
  assumes inv: "sched_inv k" and run: "running_process (ptable k) = Some old"
    and room: "current_size (ptable k) < PROCESS_TABLE_MAX_SIZE \<or> old = 0"
    and q: "process_queue k = q @ [new]"
    and give: "p_state (proc k old) = RUNNING \<longrightarrow> prio k old \<le> prio k new"
  obtains k' where "schedule_pick k = Some k'" "sched_inv k'" "running_process (ptable k') = Some new"
    "process_queue k' = (if p_state (proc k old) = RUNNING then queue_insert (prio k) old q else q)"
    "kstack k' = kstacks k new" "kstacks k' old = kstack k"
    "\<And>s. proc k' s = (if s = new then (proc k s)\<lparr>p_state := RUNNING\<rparr>
       else if s = old \<and> p_state (proc k old) = RUNNING then (proc k s)\<lparr>p_state := WAITING\<rparr> else proc k s)"
proof -
  have facts: "new < PROCESS_TABLE_MAX_SIZE" "p_pid (proc k new) = int new + 1" "new \<noteq> old"
    "old < PROCESS_TABLE_MAX_SIZE" "p_pid (proc k old) = int old + 1" "old \<notin> set q" "new \<notin> set q"
    "distinct q" "prio_sorted (prio k) q"
    using inv run q by (auto simp: sched_inv_def sorted_wrt_append)
  define k1 where "k1 = (set_state new RUNNING (k\<lparr>process_queue := q\<rparr>))
    \<lparr>ptable := (ptable (set_state new RUNNING (k\<lparr>process_queue := q\<rparr>)))\<lparr>running_process := Some new\<rparr>\<rparr>"
  define k2 where "k2 = (if p_state (proc k old) = RUNNING
    then (set_state old WAITING k1)\<lparr>process_queue := queue_insert (prio k) old q\<rparr> else k1)"
  have prio1: "prio (set_state old WAITING k1) = prio k" by (auto simp: k1_def fun_eq_iff)
  have add: "(if p_state (proc k1 old) = RUNNING then kqueue_add old (set_state old WAITING k1) else Some k1) = Some k2"
  proof -
    have "process_queue (set_state old WAITING k1) = q" by (simp add: k1_def)
    moreover have "p_state (proc k1 old) = p_state (proc k old)" using facts(3) by (simp add: k1_def)
    ultimately show ?thesis using facts(6) by (simp only: kqueue_add_eq prio1 k2_def) simp
  qed
  have "process_switch old new (k\<lparr>process_queue := q\<rparr>) = Some (context_switch old new k2)"
    unfolding process_switch_def Let_def k1_def [symmetric] add by simp
  then have sp: "schedule_pick k = Some (context_switch old new k2)"
    using run room give facts q
    by (auto simp: schedule_pick_def queue_top_def queue_out_def)
  have procs: "proc k2 s = (if s = new then (proc k s)\<lparr>p_state := RUNNING\<rparr>
       else if s = old \<and> p_state (proc k old) = RUNNING then (proc k s)\<lparr>p_state := WAITING\<rparr> else proc k s)" for s
    using facts(3) by (auto simp: k2_def k1_def)
  have queue: "process_queue k2 = (if p_state (proc k old) = RUNNING then queue_insert (prio k) old q else q)"
    by (simp add: k2_def k1_def)
  have "prio_sorted (prio k) (process_queue k2)"
    using facts(9) by (simp add: queue prio_sorted_queue_insert)
  moreover have "\<And>s. prio k2 s = prio k s" by (simp add: procs)
  ultimately have "prio_sorted (prio k2) (process_queue k2)" by simp
  moreover have "running_process (ptable k2) = Some new" by (simp add: k2_def k1_def)
  ultimately have "sched_inv k2"
    using facts inv run q by (auto simp: sched_inv_def queue procs distinct_queue_insert)
  then have "sched_inv (context_switch old new k2)" by (simp add: sched_inv_def)
  moreover have "kstack (context_switch old new k2) = kstacks k new"
    "kstacks (context_switch old new k2) old = kstack k"
    using facts(3) by (auto simp: context_switch_def Let_def k2_def k1_def)
  ultimately show ?thesis using that [OF sp] \<open>running_process (ptable k2) = Some new\<close> queue procs by simp
qed

subsection \<open>The state at boot\<close>

definition blank_process_table :: process_table_t where
  "blank_process_table = \<lparr>data = (\<lambda>_. no_process), pids = (\<lambda>_. 0), pids_to_zombify = (\<lambda>_. 0),
     pids_to_destroy = (\<lambda>_. 0), pids_waiting = (\<lambda>_. 0), pids_consume_index = 0, pids_release_index = 0,
     current_size = 0, nb_to_zombify = 0, nb_to_destroy = 0, nb_waiting = 0, running_process = None\<rparr>"

text \<open>
  The tables after the initialisation calls of \<open>kernel_start\<close>, with allocators that succeed. The
  linker addresses are arbitrary numbers.
\<close>

definition boot_kernel :: kernel where
  "boot_kernel = \<lparr>ptable = process_table_init blank_process_table, process_queue = [],
     mqt = message_queues_init message_queue_table, kheap = ample_heap, uheap = ample_heap,
     memory = (\<lambda>_. 0), kstack = [], kstacks = (\<lambda>_. []), eax = 0, kclock = boot_clock,
     kconsole = initial_console, user_switch = 4096, user_exit_handler = 8192, exit_handler = 12288\<rparr>"

text \<open>A running process 1 with a ready process 2 and a sleeping process 3, for the concrete instances.\<close>

definition sample_process :: "nat \<Rightarrow> process_state_enum \<Rightarrow> int \<Rightarrow> process_t" where
  "sample_process s st pr = no_process\<lparr>p_pid := int s + 1, father_pid := 1, p_state := st, p_priority := pr\<rparr>"

definition sample_kernel :: kernel where
  "sample_kernel = boot_kernel\<lparr>ptable := (ptable boot_kernel)\<lparr>
       data := (data (ptable boot_kernel))(0 := sample_process 0 RUNNING 1, 1 := sample_process 1 WAITING 5,
         2 := sample_process 2 SLEEPING 3),
       pids_waiting := (pids_waiting (ptable boot_kernel))(0 := 3), nb_waiting := 1,
       pids_consume_index := 3, pids_release_index := 0, current_size := 3,
       running_process := Some 0\<rparr>,
     process_queue := [1], uheap := ample_heap\<lparr>answers := (\<lambda>i. i + 1048576)\<rparr>\<rparr>"

lemma sample_kernel_simps [simp]:
  "proc sample_kernel 0 = sample_process 0 RUNNING 1"
  "proc sample_kernel (Suc 0) = sample_process 1 WAITING 5"
  "proc sample_kernel 2 = sample_process 2 SLEEPING 3"
  "process_queue sample_kernel = [1]" "running_process (ptable sample_kernel) = Some 0"
  "nb_waiting (ptable sample_kernel) = 1" "pids_waiting (ptable sample_kernel) 0 = 3"
  "nb_to_zombify (ptable sample_kernel) = 0" "nb_to_destroy (ptable sample_kernel) = 0"
  "current_size (ptable sample_kernel) = 3" "kheap sample_kernel = ample_heap"
  "uheap sample_kernel = ample_heap\<lparr>answers := (\<lambda>i. i + 1048576)\<rparr>"
  "kclock sample_kernel = boot_clock" "mqt sample_kernel = message_queues_init message_queue_table"
  by (simp_all add: sample_kernel_def boot_kernel_def process_table_init_def)

lemma sample_process_simps [simp]:
  "p_pid (sample_process s st pr) = int s + 1" "p_state (sample_process s st pr) = st"
  "p_priority (sample_process s st pr) = pr" "father_pid (sample_process s st pr) = 1"
  "sealed (sample_process s st pr) = False" "deallocated (sample_process s st pr) = False"
  "childs_pids (sample_process s st pr) = []" "sleep_time (sample_process s st pr) = 0"
  by (simp_all add: sample_process_def no_process_def)

lemma sample_kernel_proc:
  "proc sample_kernel s = (if s = 0 then sample_process 0 RUNNING 1 else if s = 1 then sample_process 1 WAITING 5
     else if s = 2 then sample_process 2 SLEEPING 3 else no_process)"
  by (auto simp: sample_kernel_def boot_kernel_def process_table_init_def blank_process_table_def)

lemma slots_ok_sample [simp]: "slots_ok sample_kernel"
  by (auto simp: slots_ok_def sample_kernel_proc PROCESS_TABLE_MAX_SIZE_def no_process_def)

lemma sched_inv_sample [simp]: "sched_inv sample_kernel"
  by (simp add: sched_inv_def PROCESS_TABLE_MAX_SIZE_def)

lemma sample_kernel_pids: "pids_ok (ptable sample_kernel)"
  "free_pids (ptable sample_kernel) = 4 # map (\<lambda>i. int i + 1) [4..<PROCESS_TABLE_MAX_SIZE]"
proof -
  show "pids_ok (ptable sample_kernel)"
    by (simp add: pids_ok_def ring_ok_def PROCESS_TABLE_MAX_SIZE_def INDEXES_LOCK_VALUE_def)
       (simp add: sample_kernel_def)
  have size: "3 < PROCESS_TABLE_MAX_SIZE" by (simp add: PROCESS_TABLE_MAX_SIZE_def)
  have "\<And>i. i < PROCESS_TABLE_MAX_SIZE \<Longrightarrow> pids (ptable sample_kernel) i = int i + 1"
    by (simp add: sample_kernel_def boot_kernel_def process_table_init_def)
  moreover have "pids_consume_index (ptable sample_kernel) = 3" by (simp add: sample_kernel_def)
  ultimately have "free_pids (ptable sample_kernel) = map (\<lambda>i. int i + 1) [3..<PROCESS_TABLE_MAX_SIZE]"
    by (intro nth_equalityI) (auto simp: free_pids_def ring_list_def)
  also have "\<dots> = 4 # map (\<lambda>i. int i + 1) [4..<PROCESS_TABLE_MAX_SIZE]"
    using size by (subst upt_conv_Cons) simp_all
  finally show "free_pids (ptable sample_kernel) = 4 # map (\<lambda>i. int i + 1) [4..<PROCESS_TABLE_MAX_SIZE]" .
qed

subsection \<open>Properties of the scheduler\<close>

text \<open>C1: kernel code always comes to an end: whatever frames are on the kernel stacks, executing them
  reaches, after finitely many steps, the return to a process, the final loop of \<open>exit\<close>, or a
  failed assertion. In particular the mutual recursion of \<open>schedule\<close>, \<open>clean_processes\<close> and
  \<open>zombify\<close> through context switches terminates.\<close>

theorem kernel_code_ends:
  assumes "slots_ok k"
  shows "\<exists>n. \<forall>m\<ge>n. krun m k = krun n k \<and> (case krun n k of None \<Rightarrow> True | Some k' \<Rightarrow> kdone k')"
  using assms by (rule krun_ends)

theorem kernel_code_ends_witness:
  "\<exists>n. \<forall>m\<ge>n. krun m (push [Clean_zombify, Schedule_pick, Return 7] sample_kernel)
      = krun n (push [Clean_zombify, Schedule_pick, Return 7] sample_kernel)"
  using kernel_code_ends [of "push [Clean_zombify, Schedule_pick, Return 7] sample_kernel"] by auto



subsection \<open>Process creation\<close>

lemma set_word_simps [simp]:
  "ptable (set_word a v k) = ptable k" "process_queue (set_word a v k) = process_queue k"
  "kheap (set_word a v k) = kheap k" "uheap (set_word a v k) = uheap k" "mqt (set_word a v k) = mqt k"
  "kstack (set_word a v k) = kstack k" "kstacks (set_word a v k) = kstacks k"
  "memory (set_word a v k) = (memory k)(a := v)" "user_switch (set_word a v k) = user_switch k"
  "user_exit_handler (set_word a v k) = user_exit_handler k"
  by (simp_all add: set_word_def)

lemma set_context_simps [simp]:
  "ptable (set_context s i v k) = (ptable k)\<lparr>data := (data (ptable k))
     (s := (proc k s)\<lparr>execution_context := (execution_context (proc k s))(i := v)\<rparr>)\<rparr>"
  "process_queue (set_context s i v k) = process_queue k" "memory (set_context s i v k) = memory k"
  "kstack (set_context s i v k) = kstack k" "kstacks (set_context s i v k) = kstacks k"
  by (simp_all add: set_context_def update_proc_def)

lemma start_user_stacks_effect:
  fixes program argument :: int
  assumes "kernel_stack (proc k s) = ks" "user_stack (proc k s) = us" "user_stack_size (proc k s) = n + 8"
    and "ks + KERNEL_STACK_SIZE \<le> us \<or> us + (n + 8) \<le> ks"
  defines "k' \<equiv> start_user_stacks s program argument k"
  defines "esp \<equiv> execution_context (proc k' s) 1"
  shows "esp = ks + KERNEL_STACK_SIZE - 24"
    "map (\<lambda>i. memory k' (esp + 4 * i)) [0..<6]
      = [user_switch k, program, CODE_SEGMENT_USER_VALUE, EFLAGS_USER_VALUE, int (us + n), DATA_SEGMENT_USER_VALUE]"
    "memory k' (us + n) = user_exit_handler k" "memory k' (us + n + 4) = argument"
    "\<And>a. \<not> (ks \<le> a \<and> a < ks + KERNEL_STACK_SIZE) \<Longrightarrow> \<not> (us \<le> a \<and> a < us + (n + 8)) \<Longrightarrow>
      memory k' a = memory k a"
    "\<exists>c. ptable k' = (ptable k)\<lparr>data := (data (ptable k))(s := (proc k s)\<lparr>execution_context := c\<rparr>)\<rparr>"
    "process_queue k' = process_queue k" "kstack k' = kstack k" "kstacks k' = kstacks k"
proof -
  have upt6: "[0..<6] = [0, 1, 2, 3, 4, 5::nat]" by (simp add: upt_rec)
  have mem: "memory k' = (memory k)(us + n + 4 := argument, us + n := user_exit_handler k,
     ks + 2044 := DATA_SEGMENT_USER_VALUE, ks + 2040 := int (us + n), ks + 2036 := EFLAGS_USER_VALUE,
     ks + 2032 := CODE_SEGMENT_USER_VALUE, ks + 2028 := program, ks + 2024 := user_switch k)"
    using assms(1-3) by (simp add: k'_def start_user_stacks_def Let_def STACK_PARAMETER_SIZE_def
        KERNEL_STACK_SIZE_def add.commute)
  show esp: "esp = ks + KERNEL_STACK_SIZE - 24"
    using assms(1) by (simp add: esp_def k'_def start_user_stacks_def Let_def STACK_PARAMETER_SIZE_def)
  have "esp = ks + 2024" using esp by (simp add: KERNEL_STACK_SIZE_def)
  then show "map (\<lambda>i. memory k' (esp + 4 * i)) [0..<6]
      = [user_switch k, program, CODE_SEGMENT_USER_VALUE, EFLAGS_USER_VALUE, int (us + n), DATA_SEGMENT_USER_VALUE]"
    by (simp add: upt6 mem)
  show "memory k' (us + n) = user_exit_handler k" "memory k' (us + n + 4) = argument"
    using assms(4) by (auto simp: mem KERNEL_STACK_SIZE_def)
  show "memory k' a = memory k a"
    if "\<not> (ks \<le> a \<and> a < ks + KERNEL_STACK_SIZE)" "\<not> (us \<le> a \<and> a < us + (n + 8))" for a
    using that by (auto simp: mem KERNEL_STACK_SIZE_def)
  show "\<exists>c. ptable k' = (ptable k)\<lparr>data := (data (ptable k))(s := (proc k s)\<lparr>execution_context := c\<rparr>)\<rparr>"
    "process_queue k' = process_queue k" "kstack k' = kstack k" "kstacks k' = kstacks k"
    by (auto simp: k'_def start_user_stacks_def Let_def)
qed

lemma sched_inv_new_ready:
  assumes "sched_inv k" "s \<notin> set (process_queue k)" "running_process (ptable k) \<noteq> Some s"
    and "s < PROCESS_TABLE_MAX_SIZE" "p_pid q = int s + 1" "p_state q = WAITING"
    and "\<And>x. x \<noteq> s \<Longrightarrow> p_pid (d x) = p_pid (proc k x) \<and> p_state (d x) = p_state (proc k x)
      \<and> p_priority (d x) = prio k x" "d s = q"
    and "ptable k' = t" "data t = d" "running_process t = running_process (ptable k)"
    and "process_queue k' = queue_insert (\<lambda>x. p_priority (d x)) s (process_queue k)"
  shows "sched_inv k'"
proof -
  have "prio_sorted (\<lambda>x. p_priority (d x)) (process_queue k)"
    using assms(1,2,7) prio_sorted_cong [of "process_queue k" "\<lambda>x. p_priority (d x)" "prio k"]
    by (metis (no_types, lifting) sched_inv_def)
  then have "prio_sorted (prio k') (process_queue k')"
    using assms(9,10,12) prio_sorted_queue_insert by simp
  moreover have "x < PROCESS_TABLE_MAX_SIZE \<and> p_pid (d x) = int x + 1 \<and> p_state (d x) = WAITING"
    if "x \<in> set (process_queue k)" for x
    using that assms(1,2) assms(7) [of x] by (auto simp: sched_inv_def)
  moreover have "x < PROCESS_TABLE_MAX_SIZE \<and> p_pid (d x) = int x + 1 \<and> x \<notin> set (process_queue k')"
    if "running_process (ptable k) = Some x" for x
    using that assms(1,3,12) assms(7) [of x] by (auto simp: sched_inv_def)
  moreover have "distinct (process_queue k')"
    using assms(1,2,12) by (simp add: sched_inv_def distinct_queue_insert)
  ultimately show ?thesis using assms(4-6,8-12) by (auto simp: sched_inv_def)
qed

lemma start_steps:
  assumes run: "running_process (ptable k) = Some r" "p_pid (proc k r) = int r + 1" "r < PROCESS_TABLE_MAX_SIZE"
    and reg: "process_table_register (ptable k) = Some (p, t)" and s: "get_process p = Some s"
    and free: "s \<noteq> r" "s \<notin> set (process_queue k)" "s \<noteq> 0"
    and args: "PROCESS_MIN_PRIORITY \<le> pr" "pr \<le> PROCESS_MAX_PRIORITY" "stack_size + 8 < 2 ^ 32"
      "current_size (ptable k) < PROCESS_TABLE_MAX_SIZE"
    and mem: "answers (kheap k) (calls (kheap k)) = ks" "ks \<noteq> 0" "answers (kheap k) (Suc (calls (kheap k))) \<noteq> 0"
      "answers (uheap k) (calls (uheap k)) = us" "us \<noteq> 0"
  defines "n \<equiv> max stack_size PROCESS_MIN_STACK_SIZE"
  obtains k6 where
    "start program stack_size pr name argument k = start_ready s pr (start_user_stacks s program argument k6)"
    "process_queue k6 = process_queue k" "memory k6 = memory k" "kstack k6 = kstack k"
    "user_switch k6 = user_switch k" "user_exit_handler k6 = user_exit_handler k"
    "pids (ptable k6) = pids t" "pids_consume_index (ptable k6) = pids_consume_index t"
    "pids_release_index (ptable k6) = pids_release_index t" "current_size (ptable k6) = current_size t"
    "running_process (ptable k6) = Some r"
    "p_pid (proc k6 s) = p" "father_pid (proc k6 s) = int r + 1" "prio k6 s = pr" "childs_pids (proc k6 s) = []"
    "kernel_stack (proc k6 s) = ks" "user_stack (proc k6 s) = us" "user_stack_size (proc k6 s) = n + 8"
    "proc k6 r = (proc k r)\<lparr>childs_pids := p # childs_pids (proc k r)\<rparr>"
    "\<And>x. x \<noteq> s \<Longrightarrow> x \<noteq> r \<Longrightarrow> proc k6 x = proc k x"
proof -
  note frame = process_table_register_frame [OF reg]
  have p: "p = int s + 1" using s by (simp add: get_process_Some)
  define k2 where "k2 = start_fields s p pr name (k\<lparr>ptable := t\<rparr>)"
  define k3 where "k3 = update_proc s (\<lambda>q. q\<lparr>kernel_stack := ks\<rparr>) (k2\<lparr>kheap := (kheap k)\<lparr>calls := Suc (calls (kheap k))\<rparr>\<rparr>)"
  define k4 where "k4 = update_proc s (\<lambda>q. q\<lparr>user_stack_size := n + 8, user_stack := us\<rparr>)
    (k3\<lparr>uheap := (uheap k)\<lparr>calls := Suc (calls (uheap k))\<rparr>\<rparr>)"
  define k6 where "k6 = update_proc r (\<lambda>q. q\<lparr>childs_pids := p # childs_pids q\<rparr>)
    (k4\<lparr>kheap := (kheap k)\<lparr>calls := Suc (Suc (calls (kheap k)))\<rparr>\<rparr>)"
  have father: "father_pid (proc k3 s) = int r + 1" "p_pid (proc k3 s) = int s + 1"
    "father_pid (proc k2 s) = int r + 1"
    using run free(1) frame p by (simp_all add: k3_def k2_def start_fields_def getpid_def)
  have c: "\<not> (stack_size + USER_ADDITIONNAL_STACK_SIZE) mod 2 ^ 32 \<le> stack_size"
    using args(3) by (simp add: USER_ADDITIONNAL_STACK_SIZE_def STACK_PARAMETER_SIZE_def)
  have h: "heap_alloc (kheap k2) = (ks, (kheap k)\<lparr>calls := Suc (calls (kheap k))\<rparr>)"
    "heap_alloc (uheap k2) = (us, (uheap k)\<lparr>calls := Suc (calls (uheap k))\<rparr>)"
    using mem by (simp_all add: heap_alloc_def k2_def k3_def start_fields_def)
  have add: "process_child_list_add_head r (int s + 1) k4 = Some k6"
    using mem(3) p by (simp add: process_child_list_add_head_def heap_alloc_def k4_def k3_def k6_def Let_def)
  have "start program stack_size pr name argument k = start_ready s pr (start_user_stacks s program argument k6)"
  proof -
    have q: "s \<notin> set (process_queue (k\<lparr>ptable := t\<rparr>))" using free(2) by simp
    have n8: "max stack_size PROCESS_MIN_STACK_SIZE + USER_ADDITIONNAL_STACK_SIZE = n + 8"
      by (simp add: n_def USER_ADDITIONNAL_STACK_SIZE_def STACK_PARAMETER_SIZE_def)
    have f: "father_pid (proc k2 s) = int r + 1" "p_pid (proc k2 s) = int s + 1"
      using father by (simp_all add: k3_def)
    show ?thesis
      using args c reg s q mem(2,5) f add [unfolded k4_def k3_def] run(3) free(3)
      by (simp add: start_def Let_def k2_def [symmetric] h n8 PROCESS_NOT_FOUND_CODE_def)
  qed
  moreover have "proc k6 r = (proc k r)\<lparr>childs_pids := p # childs_pids (proc k r)\<rparr>"
    using free(1) frame by (simp add: k6_def k4_def k3_def k2_def start_fields_def)
  ultimately show ?thesis
    using that [of k6] free(1) frame run father p
    by (simp add: k6_def k4_def k3_def k2_def start_fields_def)
qed

lemma start_ready_effect:
  assumes "s \<notin> set (process_queue k)" "running_process (ptable k) = Some r" "r \<noteq> s"
  obtains k' where
    "start_ready s pr k = Some (push ((if pr > prio k r then schedule else []) @ [Start_return s]) k')"
    "data (ptable k') = (data (ptable k))(s := (proc k s)\<lparr>p_state := WAITING\<rparr>)" "memory k' = memory k"
    "process_queue k' = queue_insert (prio k) s (process_queue k)" "running_process (ptable k') = Some r"
    "pids (ptable k') = pids (ptable k)" "pids_consume_index (ptable k') = pids_consume_index (ptable k)"
    "pids_release_index (ptable k') = pids_release_index (ptable k)"
    "current_size (ptable k') = current_size (ptable k)" "kstacks k' s = []"
proof -
  let ?k1 = "set_state s WAITING (k\<lparr>kstacks := (kstacks k)(s := [])\<rparr>)"
  have prio: "prio ?k1 = prio k" by (auto simp: fun_eq_iff)
  have "kqueue_add s ?k1 = Some (?k1\<lparr>process_queue := queue_insert (prio k) s (process_queue k)\<rparr>)"
    using assms(1) by (simp only: kqueue_add_eq prio) simp
  then show ?thesis using that [of "?k1\<lparr>process_queue := queue_insert (prio k) s (process_queue k)\<rparr>"] assms
    by (simp add: start_ready_def)
qed

text \<open>C4: \<open>start\<close> from a running process, with arguments in range, a free identifier and memory: the
  identifier is the oldest free one; the process is a ready child of the caller with the requested
  priority; the words written on its kernel stack are exactly what \<open>context_switch\<close>, \<open>user_switch\<close>
  and \<open>iret\<close> pop (entry code, program, code segment, flags, user stack pointer, data segment),
  its user stack holds the exit handler as return address and the argument, all inside the two
  stacks just allocated, and no other memory is written. The scheduler is called exactly if the new
  process has the greater priority.\<close>

theorem start_creates_process:
  fixes program argument :: int
  assumes "sched_inv k" "running_process (ptable k) = Some r"
    and "pids_ok (ptable k)" "free_pids (ptable k) = p # ps" "get_process p = Some s"
    and "s \<noteq> r" "s \<notin> set (process_queue k)" "s \<noteq> 0"
    and "PROCESS_MIN_PRIORITY \<le> pr" "pr \<le> PROCESS_MAX_PRIORITY" "stack_size + 8 < 2 ^ 32"
    and "answers (kheap k) (calls (kheap k)) = ks" "ks \<noteq> 0" "answers (kheap k) (Suc (calls (kheap k))) \<noteq> 0"
    and "answers (uheap k) (calls (uheap k)) = us" "us \<noteq> 0"
    and "ks + KERNEL_STACK_SIZE \<le> us \<or> us + (max stack_size PROCESS_MIN_STACK_SIZE + 8) \<le> ks"
  defines "n \<equiv> max stack_size PROCESS_MIN_STACK_SIZE"
  shows "\<exists>k' esp. start program stack_size pr name argument k
      = Some (push ((if pr > prio k r then schedule else []) @ [Start_return s]) k')
    \<and> sched_inv k' \<and> pids_ok (ptable k') \<and> free_pids (ptable k') = ps
    \<and> p_pid (proc k' s) = p \<and> father_pid (proc k' s) = int r + 1 \<and> p_state (proc k' s) = WAITING
    \<and> prio k' s = pr \<and> proc k' r = (proc k r)\<lparr>childs_pids := p # childs_pids (proc k r)\<rparr>
    \<and> (\<forall>x. x \<noteq> s \<and> x \<noteq> r \<longrightarrow> proc k' x = proc k x)
    \<and> process_queue k' = queue_insert (prio k') s (process_queue k)
    \<and> esp = execution_context (proc k' s) 1 \<and> esp + 24 = ks + KERNEL_STACK_SIZE
    \<and> map (\<lambda>i. memory k' (esp + 4 * i)) [0..<6] = [user_switch k, program, CODE_SEGMENT_USER_VALUE,
        EFLAGS_USER_VALUE, int (us + n), DATA_SEGMENT_USER_VALUE]
    \<and> memory k' (us + n) = user_exit_handler k \<and> memory k' (us + n + 4) = argument
    \<and> (\<forall>a. \<not> (ks \<le> a \<and> a < ks + KERNEL_STACK_SIZE) \<and> \<not> (us \<le> a \<and> a < us + (n + 8)) \<longrightarrow>
        memory k' a = memory k a)"
proof -
  have r: "r < PROCESS_TABLE_MAX_SIZE" "p_pid (proc k r) = int r + 1"
    using assms(1,2) by (auto simp: sched_inv_def)
  have room: "current_size (ptable k) < PROCESS_TABLE_MAX_SIZE"
    using assms(4) length_free_pids [of "ptable k"] by simp
  obtain t where t: "process_table_register (ptable k) = Some (p, t)" "pids_ok t" "free_pids t = ps"
    using pid_get [OF assms(3,4)] by blast
  obtain k6 where k6:
    "start program stack_size pr name argument k = start_ready s pr (start_user_stacks s program argument k6)"
    "process_queue k6 = process_queue k" "memory k6 = memory k" "kstack k6 = kstack k"
    "user_switch k6 = user_switch k" "user_exit_handler k6 = user_exit_handler k"
    "pids (ptable k6) = pids t" "pids_consume_index (ptable k6) = pids_consume_index t"
    "pids_release_index (ptable k6) = pids_release_index t" "current_size (ptable k6) = current_size t"
    "running_process (ptable k6) = Some r"
    "p_pid (proc k6 s) = p" "father_pid (proc k6 s) = int r + 1" "prio k6 s = pr" "childs_pids (proc k6 s) = []"
    "kernel_stack (proc k6 s) = ks" "user_stack (proc k6 s) = us" "user_stack_size (proc k6 s) = n + 8"
    "proc k6 r = (proc k r)\<lparr>childs_pids := p # childs_pids (proc k r)\<rparr>"
    "\<And>x. x \<noteq> s \<Longrightarrow> x \<noteq> r \<Longrightarrow> proc k6 x = proc k x"
    using start_steps [OF assms(2) r(2,1) t(1) assms(5-11) room assms(12-16)] unfolding n_def by metis
  let ?k7 = "start_user_stacks s program argument k6"
  note st = start_user_stacks_effect [OF k6(16-18) assms(17) [folded n_def], where program = program and argument = argument]
  obtain c where c: "ptable ?k7 = (ptable k6)\<lparr>data := (data (ptable k6))(s := (proc k6 s)\<lparr>execution_context := c\<rparr>)\<rparr>"
    using st(6) by blast
  have q7: "s \<notin> set (process_queue ?k7)" "running_process (ptable ?k7) = Some r"
    using st(7) assms(7) k6(2,11) c by simp_all
  obtain k' where k': "start_ready s pr ?k7
      = Some (push ((if pr > prio ?k7 r then schedule else []) @ [Start_return s]) k')"
    "data (ptable k') = (data (ptable ?k7))(s := (proc ?k7 s)\<lparr>p_state := WAITING\<rparr>)" "memory k' = memory ?k7"
    "process_queue k' = queue_insert (prio ?k7) s (process_queue ?k7)" "running_process (ptable k') = Some r"
    "pids (ptable k') = pids (ptable ?k7)" "pids_consume_index (ptable k') = pids_consume_index (ptable ?k7)"
    "pids_release_index (ptable k') = pids_release_index (ptable ?k7)"
    "current_size (ptable k') = current_size (ptable ?k7)"
    using start_ready_effect [OF q7 assms(6) [symmetric]] by metis
  have prio: "\<And>x. prio ?k7 x = prio k' x" "prio k' r = prio k r"
    using k'(2) c k6(19) assms(6) by simp_all
  have queue: "process_queue k' = queue_insert (prio k') s (process_queue k)"
    using k'(4) st(7) k6(2) by (simp add: prio(1))
  have s: "s < PROCESS_TABLE_MAX_SIZE" "p = int s + 1" using assms(5) by (simp_all add: get_process_Some)
  have procs: "proc k' s = (proc k6 s)\<lparr>execution_context := c, p_state := WAITING\<rparr>"
    "proc k' r = (proc k r)\<lparr>childs_pids := p # childs_pids (proc k r)\<rparr>"
    "\<And>x. x \<noteq> s \<Longrightarrow> x \<noteq> r \<Longrightarrow> proc k' x = proc k x"
    using k'(2) c k6(19,20) assms(6) by simp_all
  have "sched_inv k'"
  proof (rule sched_inv_new_ready [OF assms(1,7) _ s(1), where q = "proc k' s" and d = "proc k'" and t = "ptable k'"])
    show "p_pid (proc k' x) = p_pid (proc k x) \<and> p_state (proc k' x) = p_state (proc k x)
        \<and> prio k' x = prio k x" if "x \<noteq> s" for x
      using procs that by (cases "x = r") simp_all
  qed (use procs(1) k6(12) s(2) assms(2,6) k'(5) queue in simp_all)
  moreover have "pids_ok (ptable k')" "free_pids (ptable k') = ps"
    using t(2,3) k'(6-9) c k6(7-10) by (simp_all add: pids_ok_def free_pids_def)
  moreover have "execution_context (proc k' s) 1 = execution_context (proc ?k7 s) 1"
    using k'(2) by simp
  ultimately show ?thesis
    using k6(1) k'(1,3) prio procs k6(12-15) st(1-5) queue k6(3,5,6)
    by (intro exI [of _ k'] exI [of _ "execution_context (proc k' s) 1"])
       (simp add: KERNEL_STACK_SIZE_def)
qed

theorem start_creates_process_witness:
  "\<exists>k'. start 77 4000 9 (\<lambda>_. 0) 5 sample_kernel = Some (push (schedule @ [Start_return 3]) k')
    \<and> p_pid (proc k' 3) = 4 \<and> process_queue k' = [1, 3]"
proof -
  have slot: "get_process 4 = Some 3" by (simp add: get_process_Some PROCESS_TABLE_MAX_SIZE_def)
  have hyps: "running_process (ptable sample_kernel) = Some 0" "(3::nat) \<noteq> 0"
    "3 \<notin> set (process_queue sample_kernel)" "PROCESS_MIN_PRIORITY \<le> 9" "9 \<le> PROCESS_MAX_PRIORITY"
    "(4000::nat) + 8 < 2 ^ 32" "answers (kheap sample_kernel) (calls (kheap sample_kernel)) = 1"
    "(1::nat) \<noteq> 0" "answers (kheap sample_kernel) (Suc (calls (kheap sample_kernel))) \<noteq> 0"
    "answers (uheap sample_kernel) (calls (uheap sample_kernel)) = 1048576" "(1048576::nat) \<noteq> 0"
    "1 + KERNEL_STACK_SIZE \<le> 1048576 \<or> 1048576 + (max 4000 PROCESS_MIN_STACK_SIZE + 8) \<le> 1"
    by (simp_all add: PROCESS_MIN_PRIORITY_def PROCESS_MAX_PRIORITY_def KERNEL_STACK_SIZE_def)
  obtain k' where k': "start 77 4000 9 (\<lambda>_. 0) 5 sample_kernel
      = Some (push ((if 9 > prio sample_kernel 0 then schedule else []) @ [Start_return 3]) k')"
    "p_pid (proc k' 3) = 4" "prio k' 3 = 9" "process_queue k' = queue_insert (prio k') 3 (process_queue sample_kernel)"
    "\<forall>x. x \<noteq> 3 \<and> x \<noteq> 0 \<longrightarrow> proc k' x = proc sample_kernel x"
    using start_creates_process [OF sched_inv_sample hyps(1) sample_kernel_pids slot hyps(2,3,2,4-12),
        of 77 "\<lambda>_. 0" 5] by blast
  moreover have "prio k' 1 = 5" using k'(5) by simp
  ultimately show ?thesis by (intro exI [of _ k']) simp
qed

end
