(* ===== verification/Process_Calls.thy ===== *)
theory Process_Calls
  imports Scheduling
begin

unbundle bit_operations_syntax

text \<open>
  Properties of the process system calls: sleeping and waking (\<open>clock_tick\<close>), waiting for children
  (\<open>waitpid\<close>, \<open>zombify\<close>), and the calls that stop or corrupt the kernel.
\<close>

subsection \<open>Waking sleepers\<close>

definition waits :: "kernel \<Rightarrow> int list" where
  "waits k = map (pids_waiting (ptable k)) [0..<nb_waiting (ptable k)]"

definition slot_of :: "int \<Rightarrow> nat" where
  "slot_of p = nat p - 1"

definition due :: "kernel \<Rightarrow> int \<Rightarrow> bool" where
  "due k p \<longleftrightarrow> sleep_time (proc k (slot_of p)) \<le> current_clock (kclock k)"

definition waits_ok :: "kernel \<Rightarrow> bool" where
  "waits_ok k \<longleftrightarrow> distinct (waits k)
     \<and> (\<forall>p\<in>set (waits k). 0 < p \<and> p \<le> int PROCESS_TABLE_MAX_SIZE \<and> slot_of p \<notin> set (process_queue k))"

lemma get_process_slot_of: "0 < p \<Longrightarrow> p \<le> int PROCESS_TABLE_MAX_SIZE \<Longrightarrow> get_process p = Some (slot_of p)"
  by (simp add: get_process_def slot_of_def)

lemma slot_of_inj: "0 < p \<Longrightarrow> 0 < p' \<Longrightarrow> slot_of p = slot_of p' \<longleftrightarrow> p = p'"
  by (auto simp: slot_of_def)

lemma length_waits [simp]: "length (waits k) = nb_waiting (ptable k)"
  by (simp add: waits_def)

lemma waits_nth: "i < nb_waiting (ptable k) \<Longrightarrow> waits k ! i = pids_waiting (ptable k) i"
  by (simp add: waits_def)

text \<open>Removing entry \<open>i\<close> by moving the last one over it.\<close>

lemma swap_remove:
  assumes "i < length xs"
  shows "mset (butlast (xs[i := last xs])) = mset xs - {#xs ! i#}"
    and "distinct xs \<Longrightarrow> distinct (butlast (xs[i := last xs]))"
    and "j < i \<Longrightarrow> butlast (xs[i := last xs]) ! j = xs ! j"
proof -
  have ne: "xs[i := last xs] \<noteq> []" using assms by auto
  have last: "last (xs[i := last xs]) = last xs"
    using assms ne by (simp add: last_conv_nth nth_list_update)
  have "mset (xs[i := last xs]) = add_mset (last xs) (mset (butlast (xs[i := last xs])))"
    using append_butlast_last_id [OF ne] last by (metis mset_append mset_single_iff_right union_mset_add_mset_right add_mset_add_single)
  moreover have "mset (xs[i := last xs]) = add_mset (last xs) (mset xs - {#xs ! i#})"
    using assms by (rule mset_update)
  ultimately show m: "mset (butlast (xs[i := last xs])) = mset xs - {#xs ! i#}" by simp
  show "distinct (butlast (xs[i := last xs]))" if "distinct xs"
  proof -
    have "count (mset xs - {#xs ! i#}) x \<le> 1" for x
      using that by (simp add: distinct_count_atmost_1)
    then show ?thesis unfolding m [symmetric] by (metis distinct_count_atmost_1 count_mset_0_iff le_less One_nat_def less_one)
  qed
  show "butlast (xs[i := last xs]) ! j = xs ! j" if "j < i"
    using that assms by (simp add: nth_butlast)
qed

lemma wake_entry_effect:
  assumes "waits_ok k" "i < nb_waiting (ptable k)"
  defines "p \<equiv> pids_waiting (ptable k) i"
  obtains k' where "wake_entry i (slot_of p) k = Some k'"
    "waits k' = butlast ((waits k)[i := last (waits k)])"
    "data (ptable k') = (data (ptable k))(slot_of p := (proc k (slot_of p))\<lparr>p_state := WAITING\<rparr>)"
    "process_queue k' = queue_insert (prio k) (slot_of p) (process_queue k)"
    "kclock k' = kclock k" "running_process (ptable k') = running_process (ptable k)" "kstack k' = kstack k"
proof -
  let ?n = "nb_waiting (ptable k)" and ?s = "slot_of p" and ?w = "pids_waiting (ptable k)"
  have "p \<in> set (waits k)" using assms(2) by (auto simp: p_def waits_def)
  then have q: "?s \<notin> set (process_queue k)" using assms(1) by (simp add: waits_ok_def)
  define k1 where "k1 = (set_state ?s WAITING k)\<lparr>ptable := (ptable (set_state ?s WAITING k))
    \<lparr>nb_waiting := ?n - 1, pids_waiting := ?w(i := ?w (?n - 1), ?n - 1 := PROCESS_NOT_FOUND_CODE)\<rparr>\<rparr>"
  have prio: "prio k1 = prio k" by (auto simp: k1_def fun_eq_iff)
  have "kqueue_add ?s k1 = Some (k1\<lparr>process_queue := queue_insert (prio k) ?s (process_queue k)\<rparr>)"
    using q by (simp only: kqueue_add_eq prio) (simp add: k1_def)
  moreover have "wake_entry i ?s k = kqueue_add ?s k1" by (simp add: wake_entry_def Let_def k1_def)
  moreover have "waits (k1\<lparr>process_queue := q'\<rparr>) = butlast ((waits k)[i := last (waits k)])" for q'
    using assms(2)
    by (intro nth_equalityI) (auto simp: waits_def k1_def nth_butlast nth_list_update last_conv_nth)
  ultimately show ?thesis using that by (simp add: k1_def)
qed

lemma waits_ok_wake:
  assumes "waits_ok k" "i < nb_waiting (ptable k)"
    and "waits k' = butlast ((waits k)[i := last (waits k)])"
    and "set (process_queue k') = insert (slot_of (waits k ! i)) (set (process_queue k))"
  shows "waits_ok k'"
proof -
  let ?p = "waits k ! i"
  have p: "?p \<in> set (waits k)" using assms(2) by simp
  have d: "distinct (waits k)" and pos: "\<And>p. p \<in> set (waits k) \<Longrightarrow> 0 < p"
    using assms(1) by (auto simp: waits_ok_def)
  have "set (waits k') = set (waits k) - {?p}"
    using swap_remove(1) [of i "waits k"] assms(2,3) d
    by (metis length_waits mset_set_set set_mset_mset finite_set mset_remove1 set_remove1_eq)
  moreover have "distinct (waits k')" using swap_remove(2) [of i "waits k"] assms(2,3) d by simp
  moreover have "slot_of p' \<noteq> slot_of ?p" if "p' \<in> set (waits k) - {?p}" for p'
    using slot_of_inj [of p' ?p] pos that p by auto
  ultimately show ?thesis using assms(1,4) by (auto simp: waits_ok_def)
qed

lemma tick_loop_wakes:
  assumes "waits_ok k" "prio_sorted (prio k) (process_queue k)"
    and "i \<le> nb_waiting (ptable k)" "\<forall>j<i. \<not> due k (waits k ! j)"
  shows "\<exists>k'. tick_loop i aw k = Some (aw \<or> (\<exists>p\<in>set (waits k). due k p), k')
    \<and> mset (waits k') = filter_mset (\<lambda>p. \<not> due k p) (mset (waits k))
    \<and> (\<forall>s. proc k' s = (if \<exists>p\<in>set (waits k). due k p \<and> s = slot_of p
         then (proc k s)\<lparr>p_state := WAITING\<rparr> else proc k s))
    \<and> mset (process_queue k') = mset (process_queue k) + image_mset slot_of (filter_mset (due k) (mset (waits k)))
    \<and> prio_sorted (prio k') (process_queue k')
    \<and> running_process (ptable k') = running_process (ptable k) \<and> kstack k' = kstack k"
  using assms
proof (induction i aw k rule: tick_loop.induct)
  case (1 i aw k)
  show ?case
  proof (cases "i < nb_waiting (ptable k)")
    case False
    then have none: "\<forall>p\<in>set (waits k). \<not> due k p" using "1.prems"(3,4) by (auto simp: in_set_conv_nth)
    then have "filter_mset (\<lambda>p. \<not> due k p) (mset (waits k)) = mset (waits k)"
      "filter_mset (due k) (mset (waits k)) = {#}"
      by (simp_all add: mset_filter [symmetric])
    with False none "1.prems"(2) show ?thesis by (auto simp: tick_loop.simps [of i])
  next
    case True
    let ?p = "pids_waiting (ptable k) i"
    have p: "?p \<in> set (waits k)" "waits k ! i = ?p" using True by (auto simp: waits_def)
    then have s: "get_process ?p = Some (slot_of ?p)" "0 < ?p"
      using "1.prems"(1) by (auto simp: waits_ok_def intro: get_process_slot_of)
    show ?thesis
    proof (cases "due k ?p")
      case late: True
      then have late': "sleep_time (proc k (slot_of ?p)) \<le> current_clock (kclock k)" by (simp add: due_def)
      obtain k1 where k1: "wake_entry i (slot_of ?p) k = Some k1"
        "waits k1 = butlast ((waits k)[i := last (waits k)])"
        "data (ptable k1) = (data (ptable k))(slot_of ?p := (proc k (slot_of ?p))\<lparr>p_state := WAITING\<rparr>)"
        "process_queue k1 = queue_insert (prio k) (slot_of ?p) (process_queue k)"
        "kclock k1 = kclock k" "running_process (ptable k1) = running_process (ptable k)" "kstack k1 = kstack k"
        using wake_entry_effect [OF "1.prems"(1) True] by blast
      have due1: "due k1 = due k" by (auto simp: due_def k1(3,5) fun_eq_iff)
      have m1: "mset (waits k1) = mset (waits k) - {#?p#}"
        using swap_remove(1) [of i "waits k"] True k1(2) p(2) by simp
      have mk: "mset (waits k) = add_mset ?p (mset (waits k1))" using m1 p(1) by simp
      have prio1: "\<And>x. prio k1 x = prio k x" by (simp add: k1(3))
      have step: "tick_loop i aw k = tick_loop i True k1"
        using True s(1) late' k1(1) by (simp add: tick_loop.simps [of i aw])
      have ok1: "waits_ok k1" using waits_ok_wake [OF "1.prems"(1) True k1(2)] k1(4) p(2) by simp
      have sorted1: "prio_sorted (prio k1) (process_queue k1)"
        using "1.prems"(2) by (simp add: prio1 k1(4) prio_sorted_queue_insert)
      have len1: "i \<le> nb_waiting (ptable k1)"
        using k1(2) True length_waits [of k1] by simp
      have pre1: "\<forall>j<i. \<not> due k1 (waits k1 ! j)"
        using "1.prems"(4) True k1(2) swap_remove(3) [of i "waits k"] by (simp add: due1)
      obtain k' where k': "tick_loop i True k1 = Some (True, k')"
        "mset (waits k') = filter_mset (\<lambda>p. \<not> due k p) (mset (waits k1))"
        "\<And>s. proc k' s = (if \<exists>p\<in>set (waits k1). due k p \<and> s = slot_of p
         then (proc k1 s)\<lparr>p_state := WAITING\<rparr> else proc k1 s)"
        "mset (process_queue k') = mset (process_queue k1) + image_mset slot_of (filter_mset (due k) (mset (waits k1)))"
        "prio_sorted (prio k') (process_queue k')"
        "running_process (ptable k') = running_process (ptable k)" "kstack k' = kstack k"
        using "1.IH"(1) [OF True s(1) late' k1(1) ok1 sorted1 len1 pre1] unfolding due1 k1(6,7) by auto
      have set: "set (waits k) = insert ?p (set (waits k1))"
        using mk by (metis set_mset_add_mset_insert set_mset_mset)
      have "proc k' s = (if \<exists>p\<in>set (waits k). due k p \<and> s = slot_of p
         then (proc k s)\<lparr>p_state := WAITING\<rparr> else proc k s)" for s
        unfolding k'(3) set using late by (auto simp: k1(3))
      then show ?thesis unfolding step
        using k' late p(1) mk by (intro exI [of _ k']) (auto simp: k1(4) mset_queue_insert)
    next
      case False
      then have "\<not> sleep_time (proc k (slot_of ?p)) \<le> current_clock (kclock k)" by (simp add: due_def)
      moreover from this have "tick_loop i aw k = tick_loop (Suc i) aw k"
        using True s(1) by (simp add: tick_loop.simps [of i aw])
      moreover have "\<forall>j<Suc i. \<not> due k (waits k ! j)"
        using "1.prems"(4) False p(2) by (auto simp: less_Suc_eq)
      ultimately show ?thesis
        using "1.IH"(2) [OF True s(1)] "1.prems"(1,2) True by simp
    qed
  qed
qed

text \<open>C10: \<open>clock_tick\<close> wakes exactly the sleepers whose time has come, whatever their positions in
  the waiting table: afterwards the table holds the others, the woken ones are ready and in the
  queue, no other process changes, the queue stays sorted, and \<open>schedule\<close> is called exactly if
  somebody was woken.\<close>

theorem clock_tick_wakes_due:
  assumes "waits_ok k" "prio_sorted (prio k) (process_queue k)"
  shows "\<exists>k'. clock_tick k = Some (if \<exists>p\<in>set (waits k). due k p then push schedule k' else k')
    \<and> mset (waits k') = filter_mset (\<lambda>p. \<not> due k p) (mset (waits k))
    \<and> (\<forall>s. proc k' s = (if \<exists>p\<in>set (waits k). due k p \<and> s = slot_of p
         then (proc k s)\<lparr>p_state := WAITING\<rparr> else proc k s))
    \<and> mset (process_queue k') = mset (process_queue k) + image_mset slot_of (filter_mset (due k) (mset (waits k)))
    \<and> prio_sorted (prio k') (process_queue k')
    \<and> running_process (ptable k') = running_process (ptable k)"
proof -
  obtain k' where k': "tick_loop 0 False k = Some (\<exists>p\<in>set (waits k). due k p, k')"
    "mset (waits k') = filter_mset (\<lambda>p. \<not> due k p) (mset (waits k))
    \<and> (\<forall>s. proc k' s = (if \<exists>p\<in>set (waits k). due k p \<and> s = slot_of p
         then (proc k s)\<lparr>p_state := WAITING\<rparr> else proc k s))
    \<and> mset (process_queue k') = mset (process_queue k) + image_mset slot_of (filter_mset (due k) (mset (waits k)))
    \<and> prio_sorted (prio k') (process_queue k')
    \<and> running_process (ptable k') = running_process (ptable k)"
    using tick_loop_wakes [OF assms, of 0 False] by auto
  from k'(1) have "clock_tick k = Some (if \<exists>p\<in>set (waits k). due k p then push schedule k' else k')"
    by (simp add: clock_tick_def)
  with k'(2) show ?thesis by blast
qed

theorem clock_tick_wakes_due_witness:
  "\<exists>k'. clock_tick sample_kernel = Some (push schedule k') \<and> waits k' = [] \<and> p_state (proc k' 2) = WAITING
    \<and> mset (process_queue k') = {#1, 2#}"
proof -
  have w: "waits sample_kernel = [3]" "slot_of 3 = 2" by (simp_all add: waits_def slot_of_def)
  have "due sample_kernel 3" by (simp add: due_def w(2))
  then show ?thesis
    using clock_tick_wakes_due [of sample_kernel] w
    by (auto simp: waits_ok_def PROCESS_TABLE_MAX_SIZE_def)
qed

subsection \<open>Waiting for a child\<close>

text \<open>C11: \<open>waitpid\<close> on a child that has ended and was not collected before: the exit code is stored
  where the caller asked (nothing is stored for a null pointer), the child is sealed and queued for
  destruction, and its identifier is returned; the caller does not block.\<close>

theorem waitpid_collects_zombie:
  assumes "get_process p = Some s" "p_pid (proc k s) = p" "p_state (proc k s) = ZOMBIE"
    and "\<not> sealed (proc k s)" "father_pid (proc k s) = getpid k"
    and "nb_to_destroy (ptable k) < PROCESS_TABLE_MAX_SIZE"
  shows "\<exists>k'. waitpid p a k = Some (push [Return p] k')
    \<and> memory k' = (if a \<noteq> 0 then (memory k)(a := return_code (proc k s)) else memory k)
    \<and> (\<forall>x. proc k' x = (if x = s then (proc k s)\<lparr>sealed := True\<rparr> else proc k x))
    \<and> nb_to_destroy (ptable k') = Suc (nb_to_destroy (ptable k))
    \<and> pids_to_destroy (ptable k') (nb_to_destroy (ptable k)) = p
    \<and> process_queue k' = process_queue k \<and> kstack k' = kstack k"
proof -
  have p: "p = int s + 1" "s < PROCESS_TABLE_MAX_SIZE" using assms(1) by (simp_all add: get_process_Some)
  have inc: "u32_inc (nb_to_destroy (ptable k)) = Suc (nb_to_destroy (ptable k))"
    using assms(6) by (simp add: PROCESS_TABLE_MAX_SIZE_def)
  let ?k0 = "store_result a (return_code (proc k s)) k"
  have k0: "ptable ?k0 = ptable k" "process_queue ?k0 = process_queue k" "kstack ?k0 = kstack k"
    "memory ?k0 = (if a \<noteq> 0 then (memory k)(a := return_code (proc k s)) else memory k)"
    by (simp_all add: store_result_def)
  have "\<exists>k'. request_destroy p ?k0 = Some k' \<and> memory k' = memory ?k0
    \<and> (\<forall>x. proc k' x = (if x = s then (proc k s)\<lparr>sealed := True\<rparr> else proc k x))
    \<and> nb_to_destroy (ptable k') = Suc (nb_to_destroy (ptable k))
    \<and> pids_to_destroy (ptable k') (nb_to_destroy (ptable k)) = p
    \<and> process_queue k' = process_queue ?k0 \<and> kstack k' = kstack ?k0"
    using assms p inc by (simp add: request_destroy_def Let_def k0(1))
  then obtain k' where k': "request_destroy p ?k0 = Some k'" "memory k' = memory ?k0"
    "\<forall>x. proc k' x = (if x = s then (proc k s)\<lparr>sealed := True\<rparr> else proc k x)"
    "nb_to_destroy (ptable k') = Suc (nb_to_destroy (ptable k))"
    "pids_to_destroy (ptable k') (nb_to_destroy (ptable k)) = p"
    "process_queue k' = process_queue ?k0" "kstack k' = kstack ?k0" by blast
  have "waitpid p a k = Some (push [Return p] k')"
    using assms p k'(1) by (simp add: waitpid_def PROCESS_NOT_FOUND_CODE_def)
  with k' k0 show ?thesis by (intro exI [of _ k']) simp
qed

definition zombie_kernel :: kernel where
  "zombie_kernel = update_proc 2 (\<lambda>q. q\<lparr>p_state := ZOMBIE, return_code := 42\<rparr>) sample_kernel"

theorem waitpid_collects_zombie_witness:
  "\<exists>k'. waitpid 3 5000 zombie_kernel = Some (push [Return 3] k') \<and> memory k' 5000 = 42"
proof -
  have "get_process 3 = Some 2" by (simp add: get_process_Some PROCESS_TABLE_MAX_SIZE_def)
  moreover have "getpid zombie_kernel = 1" by (simp add: zombie_kernel_def getpid_def)
  ultimately show ?thesis
    using waitpid_collects_zombie [of 3 2 zombie_kernel 5000]
    by (auto simp: zombie_kernel_def PROCESS_TABLE_MAX_SIZE_def)
qed

text \<open>C12: the error returns of \<open>waitpid\<close>: a number that is not a process identifier, a free table
  entry, a child already collected, a process that is not a child of the caller, or, for any child,
  no uncollected child at all, return -1 and change nothing.\<close>

theorem waitpid_errors:
  assumes "(p = 0 \<or> p > int PROCESS_TABLE_MAX_SIZE)
    \<or> (\<exists>s. get_process p = Some s \<and> (p_pid (proc k s) = PROCESS_NOT_FOUND_CODE \<or> sealed (proc k s)
        \<or> father_pid (proc k s) \<noteq> getpid k))
    \<or> p < 0 \<and> (\<exists>r. running_process (ptable k) = Some r \<and> (\<forall>c\<in>set (childs_pids (proc k r)).
        \<exists>s. get_process c = Some s \<and> sealed (proc k s)))"
  shows "waitpid p a k = Some (push [Return (-1)] k)"
proof -
  have scan: "\<forall>c\<in>set cs. \<exists>s. get_process c = Some s \<and> sealed (proc k s) \<Longrightarrow> scan_children cs n k = Some (Inr n)" for cs n
    by (induction cs) auto
  from assms consider "p = 0 \<or> p > int PROCESS_TABLE_MAX_SIZE"
    | s where "get_process p = Some s" "p_pid (proc k s) = PROCESS_NOT_FOUND_CODE \<or> sealed (proc k s)
        \<or> father_pid (proc k s) \<noteq> getpid k"
    | r where "p < 0" "running_process (ptable k) = Some r"
        "\<forall>c\<in>set (childs_pids (proc k r)). \<exists>s. get_process c = Some s \<and> sealed (proc k s)"
    by blast
  then show ?thesis
  proof cases
    case 1
    then show ?thesis by (auto simp: waitpid_def)
  next
    case (2 s)
    then have "0 < p" "p \<le> int PROCESS_TABLE_MAX_SIZE" by (auto simp: get_process_Some)
    with 2 show ?thesis by (auto simp: waitpid_def)
  next
    case (3 r)
    with scan [OF 3(3)] show ?thesis by (simp add: waitpid_def)
  qed
qed

theorem waitpid_errors_witness:
  "waitpid 0 5000 sample_kernel = Some (push [Return (-1)] sample_kernel)
   \<and> waitpid (-1) 5000 sample_kernel = Some (push [Return (-1)] sample_kernel)"
  using waitpid_errors [of 0 sample_kernel 5000] waitpid_errors [of "-1" sample_kernel 5000] by simp

text \<open>a blocked father is woken by the end of the child it waits for: when a childless zombie is
  released, a father blocked on that child (or on any child) becomes ready, is queued by priority
  and finds the child's identifier in \<open>waiting_code\<close>; both stacks of the child are given back.\<close>

theorem zombify_wakes_father:
  assumes "get_process p = Some s" "p_pid (proc k s) = p" "s \<noteq> 0" "p_state (proc k s) = ZOMBIE"
    and "running_process (ptable k) \<noteq> Some s" "\<not> deallocated (proc k s)" "\<not> sealed (proc k s)"
    and "childs_pids (proc k s) = []"
    and "get_process (father_pid (proc k s)) = Some f" "f \<noteq> s" "f \<noteq> 0" "p_pid (proc k f) = int f + 1"
    and "p_state (proc k f) = BLOCKED_BY_CHILD" "waiting_code (proc k f) < 0 \<or> waiting_code (proc k f) = p"
    and "f \<notin> set (process_queue k)"
  shows "\<exists>k'. zombify p k = Some k' \<and> p_state (proc k' f) = WAITING \<and> waiting_code (proc k' f) = p
    \<and> process_queue k' = queue_insert (prio k) f (process_queue k)
    \<and> deallocated (proc k' s) \<and> \<not> sealed (proc k' s) \<and> return_code (proc k' s) = return_code (proc k s)
    \<and> freed (kheap k') = (kernel_stack (proc k s), KERNEL_STACK_SIZE) # freed (kheap k)
    \<and> freed (uheap k') = (user_stack (proc k s), user_stack_size (proc k s)) # freed (uheap k)"
proof -
  have p: "p = int s + 1" "s < PROCESS_TABLE_MAX_SIZE" using assms(1) by (simp_all add: get_process_Some)
  obtain k1 where k1: "deallocate s k = Some k1"
    "data (ptable k1) = (data (ptable k))(s := (proc k s)\<lparr>user_stack := 0, user_stack_size := 0,
       kernel_stack := 0, deallocated := True\<rparr>)" "process_queue k1 = process_queue k"
    "freed (kheap k1) = (kernel_stack (proc k s), KERNEL_STACK_SIZE) # freed (kheap k)"
    "freed (uheap k1) = (user_stack (proc k s), user_stack_size (proc k s)) # freed (uheap k)"
    using assms(2,3,6) p by (simp add: deallocate_def heap_free_def)
  let ?k2 = "update_proc f (\<lambda>q. q\<lparr>waiting_code := p, p_state := WAITING\<rparr>) k1"
  have prio: "prio ?k2 = prio k" using assms(10) by (auto simp: k1(2) fun_eq_iff)
  have "kqueue_add f ?k2 = Some (?k2\<lparr>process_queue := queue_insert (prio k) f (process_queue k)\<rparr>)"
    using assms(15) by (simp only: kqueue_add_eq prio) (simp add: k1(3))
  then have "zombify p k = Some (?k2\<lparr>process_queue := queue_insert (prio k) f (process_queue k)\<rparr>)"
    using assms k1(1,2) p by (simp add: zombify_def)
  then show ?thesis using assms(7,10) k1 by simp
qed

definition blocked_father_kernel :: kernel where
  "blocked_father_kernel = update_proc 1 (\<lambda>q. q\<lparr>p_state := BLOCKED_BY_CHILD, waiting_code := -1\<rparr>)
     (update_proc 2 (\<lambda>q. q\<lparr>father_pid := 2\<rparr>) (zombie_kernel\<lparr>process_queue := []\<rparr>))"

theorem zombify_wakes_father_witness:
  "\<exists>k'. zombify 3 blocked_father_kernel = Some k' \<and> p_state (proc k' 1) = WAITING
    \<and> waiting_code (proc k' 1) = 3 \<and> process_queue k' = [1]"
proof -
  have g: "get_process 3 = Some 2" "get_process 2 = Some 1"
    by (simp_all add: get_process_Some PROCESS_TABLE_MAX_SIZE_def)
  have k: "proc blocked_father_kernel 2 = (sample_process 2 SLEEPING 3)\<lparr>p_state := ZOMBIE, return_code := 42, father_pid := 2\<rparr>"
    "proc blocked_father_kernel 1 = (sample_process 1 WAITING 5)\<lparr>p_state := BLOCKED_BY_CHILD, waiting_code := -1\<rparr>"
    "process_queue blocked_father_kernel = []" "running_process (ptable blocked_father_kernel) = Some 0"
    by (simp_all add: blocked_father_kernel_def zombie_kernel_def)
  show ?thesis using zombify_wakes_father [of 3 2 blocked_father_kernel 1] g k by auto
qed

subsection \<open>System calls that stop or corrupt the kernel\<close>

lemma request_zombify_effect:
  assumes "get_process p = Some s" "p_state (proc k s) \<noteq> ZOMBIE"
    and "nb_to_zombify (ptable k) < PROCESS_TABLE_MAX_SIZE" "running_process (ptable k) = Some r"
    and "p_pid (proc k r) \<noteq> p" "mqt_inv (mqt k)"
    and "p_state (proc k s) = WAITING \<and> s \<in> set (process_queue k)
      \<or> p_state (proc k s) \<notin> {WAITING, RUNNING, NO_STATE}"
  obtains k' where "request_zombify p k = Some k'"
    "data (ptable k') = (data (ptable k))(s := (proc k s)\<lparr>p_state := ZOMBIE\<rparr>)"
    "nb_to_zombify (ptable k') = Suc (nb_to_zombify (ptable k))"
    "pids_to_zombify (ptable k') = (pids_to_zombify (ptable k))(nb_to_zombify (ptable k) := p)"
    "nb_waiting (ptable k') = nb_waiting (ptable k)" "pids_waiting (ptable k') = pids_waiting (ptable k)"
    "running_process (ptable k') = running_process (ptable k)"
    "process_queue k' = (if p_state (proc k s) = WAITING then remove1 s (process_queue k) else process_queue k)"
    "kstack k' = kstack k"
proof -
  obtain t where t: "message_queues_notify_processus_killed p (mqt k) = Some t"
    using notify_killed_ok [OF assms(6)] by blast
  have inc: "u32_inc (nb_to_zombify (ptable k)) = Suc (nb_to_zombify (ptable k))"
    using assms(3) by (simp add: PROCESS_TABLE_MAX_SIZE_def)
  let ?c = "state_code (p_state (proc k s))"
  have code: "?c AND (state_code WAITING OR state_code RUNNING) = ?c \<longleftrightarrow> p_state (proc k s) = WAITING"
    using assms(7) by (cases "p_state (proc k s)") auto
  define k1 where "k1 = k\<lparr>ptable := (ptable k)\<lparr>
    pids_to_zombify := (pids_to_zombify (ptable k))(nb_to_zombify (ptable k) := p),
    nb_to_zombify := Suc (nb_to_zombify (ptable k))\<rparr>\<rparr>"
  define k2 where "k2 = (if p_state (proc k s) = WAITING
    then k1\<lparr>process_queue := remove1 s (process_queue k)\<rparr> else k1)"
  have "request_zombify p k = Some (set_state s ZOMBIE (k2\<lparr>mqt := t\<rparr>))"
    using assms t inc code
    by (auto simp: request_zombify_def Let_def notify_killed_def kqueue_del_eq k2_def k1_def)
  then show ?thesis using that by (simp add: k2_def k1_def)
qed

text \<open>\<open>kill(1)\<close> stops the kernel: called while process 1 is ready and no other zombie is pending,
  it is accepted, and the first step of the scheduler it calls fails the assertion of
  \<open>zombify\<close> that protects process 1.\<close>

theorem kill_init_stops_kernel:
  assumes "p_pid (proc k 0) = 1" "p_state (proc k 0) = WAITING" "0 \<in> set (process_queue k)"
    and "nb_to_zombify (ptable k) = 0" "running_process (ptable k) = Some r" "p_pid (proc k r) = int r + 1" "r \<noteq> 0"
    and "mqt_inv (mqt k)"
  shows "\<exists>k'. kill 1 k = Some k' \<and> kstack k' = schedule @ [Return 0] @ kstack k \<and> kstep k' = None"
proof -
  have g: "get_process 1 = Some 0" by (simp add: get_process_Some PROCESS_TABLE_MAX_SIZE_def)
  let ?k0 = "update_proc 0 (\<lambda>q. q\<lparr>return_code := 0\<rparr>) k"
  obtain k1 where k1: "request_zombify 1 ?k0 = Some k1"
    "data (ptable k1) = (data (ptable ?k0))(0 := (proc ?k0 0)\<lparr>p_state := ZOMBIE\<rparr>)"
    "nb_to_zombify (ptable k1) = Suc (nb_to_zombify (ptable ?k0))"
    "pids_to_zombify (ptable k1) = (pids_to_zombify (ptable ?k0))(nb_to_zombify (ptable ?k0) := 1)"
    "running_process (ptable k1) = running_process (ptable ?k0)" "kstack k1 = kstack ?k0"
    using request_zombify_effect [OF g, of ?k0 r] assms by (auto simp: PROCESS_TABLE_MAX_SIZE_def)
  have "kill 1 k = Some (push (schedule @ [Return 0]) k1)"
    using assms(1,2) g k1(1) by (simp add: kill_def PROCESS_TABLE_MAX_SIZE_def PROCESS_NOT_FOUND_CODE_def)
  moreover have "kstep (push (schedule @ [Return 0]) k1) = None"
    using k1 assms(4-7)
    by (simp add: kstep_def clean_zombify_def Let_def running_pid_is_def zombify_def)
  ultimately show ?thesis using k1(6) by (intro exI [of _ "push (schedule @ [Return 0]) k1"]) simp
qed

definition ready_init_kernel :: kernel where
  "ready_init_kernel = the (schedule_pick sample_kernel)"

lemma ready_init_kernel_simps:
  "proc ready_init_kernel 0 = (sample_process 0 RUNNING 1)\<lparr>p_state := WAITING\<rparr>"
  "proc ready_init_kernel (Suc 0) = (sample_process 1 WAITING 5)\<lparr>p_state := RUNNING\<rparr>"
  "process_queue ready_init_kernel = [0]" "running_process (ptable ready_init_kernel) = Some 1"
  "nb_to_zombify (ptable ready_init_kernel) = 0" "mqt ready_init_kernel = message_queues_init message_queue_table"
  by (simp_all add: ready_init_kernel_def schedule_pick_def queue_top_def queue_out_def process_switch_def
      kqueue_add_eq)

theorem kill_init_stops_kernel_witness:
  "\<exists>k'. kill 1 ready_init_kernel = Some k' \<and> kstep k' = None"
  using kill_init_stops_kernel [of ready_init_kernel 1] by (auto simp: ready_init_kernel_simps mqt_inv_init)

text \<open>\<open>chprio\<close> on a sleeping process other than the caller stops the kernel: a sleeping process is
  not in the ready queue, but its state is not one of the states excluded from the requeueing.\<close>

theorem chprio_sleeper_stops_kernel:
  assumes "get_process p = Some s" "p_pid (proc k s) = p" "p_state (proc k s) = SLEEPING"
    and "s \<notin> set (process_queue k)" "running_process (ptable k) = Some r" "p_pid (proc k r) \<noteq> p"
    and "PROCESS_MIN_PRIORITY \<le> pr" "pr \<le> PROCESS_MAX_PRIORITY"
  shows "chprio p pr k = None"
proof -
  have p: "p = int s + 1" "s < PROCESS_TABLE_MAX_SIZE" using assms(1) by (simp_all add: get_process_Some)
  have "r \<noteq> s" using assms(2,6) by auto
  then show ?thesis using assms p
    by (simp add: chprio_def BLOCKED_def kqueue_del_eq PROCESS_NOT_FOUND_CODE_def Let_def)
qed

theorem chprio_sleeper_stops_kernel_witness:
  "chprio 3 10 sample_kernel = None"
  using chprio_sleeper_stops_kernel [of 3 2 sample_kernel 0 10]
  by (simp add: get_process_Some PROCESS_TABLE_MAX_SIZE_def PROCESS_MIN_PRIORITY_def PROCESS_MAX_PRIORITY_def)

text \<open>C13: \<open>kill\<close> on a sleeping process removes the last entry of the waiting table, whoever it is: the
  killed process stays in the table, and the process of the last entry, which is still asleep, is
  no longer in it and will never be woken by the clock.\<close>

theorem kill_sleeper_drops_last_entry:
  assumes "get_process p = Some s" "p_pid (proc k s) = p" "p_state (proc k s) = SLEEPING"
    and "waits k = ps @ [q]" "p \<in> set ps" "q \<noteq> p" "length (waits k) \<le> PROCESS_TABLE_MAX_SIZE"
    and "running_process (ptable k) = Some r" "p_pid (proc k r) \<noteq> p" "mqt_inv (mqt k)"
    and "nb_to_zombify (ptable k) < PROCESS_TABLE_MAX_SIZE"
  shows "\<exists>k'. kill p k = Some (push (schedule @ [Return 0]) k') \<and> waits k' = ps \<and> p \<in> set (waits k')
    \<and> p_state (proc k' s) = ZOMBIE \<and> (\<forall>x. x \<noteq> s \<longrightarrow> proc k' x = proc k x)"
proof -
  have p: "p = int s + 1" "s < PROCESS_TABLE_MAX_SIZE" using assms(1) by (simp_all add: get_process_Some)
  have n: "nb_waiting (ptable k) = Suc (length ps)" using assms(4) length_waits [of k] by simp
  have dec: "u32_dec (nb_waiting (ptable k)) = length ps" "length ps < PROCESS_TABLE_MAX_SIZE"
    using n assms(7) by (simp_all add: PROCESS_TABLE_MAX_SIZE_def)
  define k0 where "k0 = update_proc s (\<lambda>q. q\<lparr>return_code := 0\<rparr>) (k\<lparr>ptable := (ptable k)\<lparr>nb_waiting := length ps,
    pids_waiting := (pids_waiting (ptable k))(length ps := PROCESS_NOT_FOUND_CODE)\<rparr>\<rparr>)"
  have k0: "p_state (proc k0 s) = SLEEPING" "running_process (ptable k0) = Some r" "mqt k0 = mqt k"
    "nb_to_zombify (ptable k0) = nb_to_zombify (ptable k)" "p_pid (proc k0 r) \<noteq> p"
    using assms(3,8,9) by (auto simp: k0_def)
  obtain k1 where k1: "request_zombify p k0 = Some k1"
    "data (ptable k1) = (data (ptable k0))(s := (proc k0 s)\<lparr>p_state := ZOMBIE\<rparr>)"
    "nb_waiting (ptable k1) = nb_waiting (ptable k0)" "pids_waiting (ptable k1) = pids_waiting (ptable k0)"
    using request_zombify_effect [OF assms(1), of k0 r] k0 assms(10,11) by auto
  have "kill p k = Some (push (schedule @ [Return 0]) k1)"
    using assms(1-3) p dec k1(1) by (simp add: kill_def Let_def k0_def PROCESS_NOT_FOUND_CODE_def)
  moreover have "waits k1 = ps"
  proof -
    have "waits k1 = butlast (waits k)"
      using n k1(3,4) by (simp add: waits_def k0_def)
    then show ?thesis using assms(4) by simp
  qed
  moreover have "p_state (proc k1 s) = ZOMBIE" "\<forall>x. x \<noteq> s \<longrightarrow> proc k1 x = proc k x"
    using k1(2) by (simp_all add: k0_def)
  ultimately show ?thesis using assms(5) by (intro exI [of _ k1]) simp
qed

definition two_sleepers_kernel :: kernel where
  "two_sleepers_kernel = sample_kernel\<lparr>ptable := (ptable sample_kernel)\<lparr>
     data := (data (ptable sample_kernel))(3 := sample_process 3 SLEEPING 3),
     pids_waiting := (pids_waiting (ptable sample_kernel))(1 := 4), nb_waiting := 2\<rparr>\<rparr>"

theorem kill_sleeper_drops_last_entry_witness:
  "\<exists>k'. kill 3 two_sleepers_kernel = Some (push (schedule @ [Return 0]) k') \<and> waits k' = [3]
    \<and> p_state (proc k' 2) = ZOMBIE \<and> p_state (proc k' 3) = SLEEPING"
proof -
  have w: "waits two_sleepers_kernel = [3] @ [4]"
    by (simp add: waits_def two_sleepers_kernel_def numeral_2_eq_2)
  have k: "proc two_sleepers_kernel 2 = sample_process 2 SLEEPING 3"
    "proc two_sleepers_kernel 3 = sample_process 3 SLEEPING 3"
    "proc two_sleepers_kernel 0 = sample_process 0 RUNNING 1"
    "running_process (ptable two_sleepers_kernel) = Some 0" "nb_to_zombify (ptable two_sleepers_kernel) = 0"
    "mqt two_sleepers_kernel = message_queues_init message_queue_table"
    "nb_waiting (ptable two_sleepers_kernel) = 2"
    by (simp_all add: two_sleepers_kernel_def)
  have g: "get_process 3 = Some 2" by (simp add: get_process_Some PROCESS_TABLE_MAX_SIZE_def)
  obtain k' where "kill 3 two_sleepers_kernel = Some (push (schedule @ [Return 0]) k')" "waits k' = [3]"
    "p_state (proc k' 2) = ZOMBIE" "\<forall>x. x \<noteq> 2 \<longrightarrow> proc k' x = proc two_sleepers_kernel x"
    using kill_sleeper_drops_last_entry [OF g _ _ w, of 0] k by (auto simp: PROCESS_TABLE_MAX_SIZE_def mqt_inv_init)
  then show ?thesis using k(2) by (intro exI [of _ k']) simp
qed

end
