(* ===== verification/Ipc.thy ===== *)
theory Ipc
  imports Scheduling
begin

text \<open>
  The message-passing calls of \<^verbatim>\<open>kernel/message_queue.c\<close> that wake, block or reschedule processes:
  \<open>psend\<close>, \<open>preceive\<close>, \<open>preset\<close>, \<open>pdelete\<close> and \<open>pcount\<close>, on the kernel state of \<open>Process\<close>.
  A call that blocks pushes \<open>schedule\<close> above \<open>Ipc_resume\<close>, the code that follows it.
\<close>

definition the_mq :: "int \<Rightarrow> kernel \<Rightarrow> message_queue_t" where
  "the_mq fid k = mq_data (mqt k) (nat fid)"

definition set_mq :: "int \<Rightarrow> message_queue_t \<Rightarrow> kernel \<Rightarrow> kernel" where
  "set_mq fid q k = k\<lparr>mqt := (mqt k)\<lparr>mq_data := (mq_data (mqt k))(nat fid := q)\<rparr>\<rparr>"

lemma process_queue_remove_first_size:
  "process_queue_remove_first lp = Some (c, lp') \<Longrightarrow> pq_size lp > 0 \<Longrightarrow> pq_size lp' < pq_size lp"
  by (auto simp: process_queue_remove_first_def u32_dec_less split: list.splits)

lemma message_queue_unregister_count:
  "message_queue_unregister q = Some (m, q') \<Longrightarrow> nb_messages q' = u32_dec (nb_messages q)"
  by (auto simp: message_queue_unregister_def Let_def split: if_splits)

text \<open>The first loop of \<open>message_queue_reset\<close>: every blocked process is woken with the answer -1.\<close>

function reset_loop :: "process_queue_t \<Rightarrow> bool \<Rightarrow> kernel \<Rightarrow> (process_queue_t \<times> bool \<times> kernel) option" where
  "reset_loop lp need k =
     (if pq_size lp > 0 then
        (case process_queue_remove_first lp of None \<Rightarrow> None
         | Some (c, lp') \<Rightarrow>
             (case awake (c_pid c) (store_result (c_destination c) (-1) k) of None \<Rightarrow> None
              | Some (a, k) \<Rightarrow> reset_loop lp' (a \<or> need)
                  (k\<lparr>mqt := (mqt k)\<lparr>reset_releases :=
                     (reset_releases (mqt k))(nat (c_pid c - 1) := True)\<rparr>\<rparr>)))
      else Some (lp, need, k))"
  by pat_completeness auto

termination
  by (relation "measure (\<lambda>(lp, need, k). pq_size lp)") (auto intro: process_queue_remove_first_size)

declare reset_loop.simps [simp del]

text \<open>The second loop discards the messages.\<close>

function drain_loop :: "message_queue_t \<Rightarrow> message_queue_t option" where
  "drain_loop q =
     (if nb_messages q > 0 then
        (case message_queue_unregister q of None \<Rightarrow> None | Some (m, q') \<Rightarrow> drain_loop q')
      else Some q)"
  by pat_completeness auto

termination
  by (relation "measure nb_messages") (auto simp: u32_dec_less dest: message_queue_unregister_count)

declare drain_loop.simps [simp del]

definition message_queue_reset :: "int \<Rightarrow> kernel \<Rightarrow> (int \<times> bool \<times> kernel) option" where
  "message_queue_reset fid k =
     (if \<not> valid_fid fid (mqt k) then Some (-1, False, k)
      else do {
        lp \<leftarrow> locked_processes (the_mq fid k);
        (lp, need, k) \<leftarrow> reset_loop lp False k;
        let k = set_mq fid ((the_mq fid k)\<lparr>locked_processes := Some lp\<rparr>) k;
        q \<leftarrow> drain_loop (the_mq fid k);
        Some (0, need, set_mq fid q k)
      })"

definition preset :: "int \<Rightarrow> kernel \<Rightarrow> kernel option" where
  "preset fid k = do {
     (result, need, k) \<leftarrow> message_queue_reset fid k;
     Some (push ((if need then schedule else []) @ [Return result]) k)
   }"

definition pdelete :: "int \<Rightarrow> kernel \<Rightarrow> kernel option" where
  "pdelete fid k = do {
     (result, need, k) \<leftarrow> message_queue_reset fid k;
     if result < 0 then Some (push [Return result] k)
     else do {
       let q = the_mq fid k;
       let k = k\<lparr>kheap := heap_free (buffer q) (mq_size q * 4) (kheap k)\<rparr>;
       let k = set_mq fid empty_message_queue k;
       t \<leftarrow> message_queue_table_unregister (mqt k) fid;
       Some (push ((if need then schedule else []) @ [Return result]) (k\<lparr>mqt := t\<rparr>))
     }
   }"

definition pcount :: "int \<Rightarrow> nat \<Rightarrow> kernel \<Rightarrow> kernel option" where
  "pcount fid count_ptr k =
     (if \<not> valid_fid fid (mqt k) then Some (push [Return (-1)] k)
      else if count_ptr \<noteq> 0 then do {
        v \<leftarrow> pcount_value (the_mq fid k);
        Some (push [Return 0] (set_word count_ptr v k))
      }
      else Some (push [Return 0] k))"

definition pcreate_call :: "int \<Rightarrow> kernel \<Rightarrow> kernel option" where
  "pcreate_call n k = do {
     (fid, t, h) \<leftarrow> pcreate n (mqt k) (kheap k);
     Some (push [Return fid] (k\<lparr>mqt := t, kheap := h\<rparr>))
   }"

text \<open>The blocking branch shared by \<open>psend\<close> (full queue) and \<open>preceive\<close> (empty queue).\<close>

definition block_on_queue :: "int \<Rightarrow> process_queue_t \<Rightarrow> int \<Rightarrow> nat \<Rightarrow> kernel \<Rightarrow> kernel option" where
  "block_on_queue fid lp message destination k = do {
     let p = getpid k;
     pr \<leftarrow> getprio p k;
     (lp, h) \<leftarrow> process_queue_add_on_priority lp
       \<lparr>c_pid = p, c_message = message, c_destination = destination, c_priority = pr\<rparr> (kheap k);
     let k = set_mq fid ((the_mq fid k)\<lparr>locked_processes := Some lp\<rparr>) (k\<lparr>kheap := h\<rparr>);
     k \<leftarrow> block_by_message p k;
     Some (push (schedule @ [Ipc_resume p]) k)
   }"

definition psend :: "int \<Rightarrow> int \<Rightarrow> kernel \<Rightarrow> kernel option" where
  "psend fid message k =
     (if \<not> valid_fid fid (mqt k) then Some (push [Return (-1)] k)
      else do {
        let q = the_mq fid k;
        lp \<leftarrow> locked_processes q;
        if nb_messages q = 0 \<and> pq_size lp > 0 then do {
          (c, lp) \<leftarrow> process_queue_remove_first lp;
          let k = set_mq fid (q\<lparr>locked_processes := Some lp\<rparr>) k;
          let k = store_result (c_destination c) message k;
          (a, k) \<leftarrow> awake (c_pid c) k;
          Some (push ((if a then schedule else []) @ [Return 0]) k)
        }
        else if nb_messages q = mq_size q then block_on_queue fid lp message 0 k
        else do {
          q \<leftarrow> message_queue_register q message;
          Some (push [Return 0] (set_mq fid q k))
        }
      })"

definition preceive :: "int \<Rightarrow> nat \<Rightarrow> kernel \<Rightarrow> kernel option" where
  "preceive fid message_ptr k =
     (if \<not> valid_fid fid (mqt k) then Some (push [Return (-1)] k)
      else do {
        let q = the_mq fid k;
        lp \<leftarrow> locked_processes q;
        if nb_messages q = mq_size q \<and> pq_size lp > 0 then do {
          (received, q) \<leftarrow> message_queue_unregister q;
          (c, lp) \<leftarrow> process_queue_remove_first lp;
          q \<leftarrow> message_queue_register (q\<lparr>locked_processes := Some lp\<rparr>) (c_message c);
          let k = store_result message_ptr received (set_mq fid q k);
          (a, k) \<leftarrow> awake (c_pid c) k;
          Some (push ((if a then schedule else []) @ [Return 0]) k)
        }
        else if nb_messages q = 0 then block_on_queue fid lp 0 message_ptr k
        else do {
          (received, q) \<leftarrow> message_queue_unregister q;
          Some (push [Return 0] (store_result message_ptr received (set_mq fid q k)))
        }
      })"

subsection \<open>Well-formed open queues\<close>

lemma the_mq_set_mq [simp]: "the_mq fid (set_mq fid q k) = q"
  by (simp add: the_mq_def set_mq_def)

lemma set_mq_simps [simp]:
  "ptable (set_mq fid q k) = ptable k" "process_queue (set_mq fid q k) = process_queue k"
  "memory (set_mq fid q k) = memory k" "kstack (set_mq fid q k) = kstack k"
  "kheap (set_mq fid q k) = kheap k"
  by (simp_all add: set_mq_def)

lemma store_result_simps [simp]:
  "ptable (store_result a v k) = ptable k" "process_queue (store_result a v k) = process_queue k"
  "mqt (store_result a v k) = mqt k" "the_mq fid (store_result a v k) = the_mq fid k"
  "kstack (store_result a v k) = kstack k"
  "a \<noteq> 0 \<Longrightarrow> memory (store_result a v k) a = v"
  by (auto simp: store_result_def set_word_def the_mq_def)

lemma the_mq_push [simp]: "the_mq fid (push fs k) = the_mq fid k"
  by (simp add: the_mq_def)

lemma open_queue:
  assumes "valid_fid fid (mqt k)" "mq_inv (the_mq fid k)"
  obtains lp where "locked_processes (the_mq fid k) = Some lp" "pq_ok lp" "buffer_ok (the_mq fid k)"
    "pq_nodes lp = mq_nodes (the_mq fid k)" "pq_size lp = length (mq_nodes (the_mq fid k))"
    "mq_nodes (the_mq fid k) \<noteq> [] \<longrightarrow> nb_messages (the_mq fid k) = 0
       \<or> nb_messages (the_mq fid k) = mq_size (the_mq fid k)"
    "0 < mq_size (the_mq fid k)"
proof -
  have b: "buffer (the_mq fid k) \<noteq> 0" using assms(1) by (simp add: valid_fid_def the_mq_def)
  with assms(2) obtain lp where "locked_processes (the_mq fid k) = Some lp" "pq_ok lp"
    "buffer_ok (the_mq fid k)"
    "pq_nodes lp \<noteq> [] \<longrightarrow> nb_messages (the_mq fid k) = 0 \<or> nb_messages (the_mq fid k) = mq_size (the_mq fid k)"
    by (auto simp: mq_inv_def)
  moreover have "0 < mq_size (the_mq fid k)" using mq_inv_size_pos [OF assms(2)] b by simp
  ultimately show ?thesis using that by (simp add: mq_nodes_def pq_ok_def)
qed

lemma mq_inv_open:
  "buffer_ok q \<Longrightarrow> locked_processes q = Some lp \<Longrightarrow> pq_ok lp \<Longrightarrow> buffer q \<noteq> 0 \<Longrightarrow>
   (pq_nodes lp \<noteq> [] \<longrightarrow> nb_messages q = 0 \<or> nb_messages q = mq_size q) \<Longrightarrow> mq_inv q"
  by (simp add: mq_inv_def)

lemma register_frame:
  "message_queue_register q m = Some q' \<Longrightarrow> buffer q' = buffer q \<and> locked_processes q' = locked_processes q"
  by (auto simp: message_queue_register_def Let_def split: if_splits)

lemma unregister_frame:
  "message_queue_unregister q = Some (m, q') \<Longrightarrow> buffer q' = buffer q \<and> locked_processes q' = locked_processes q"
  by (auto simp: message_queue_unregister_def Let_def split: if_splits)

lemma awake_eq:
  assumes "get_process p = Some s" "s \<notin> set (process_queue k)" "running_process (ptable k) = Some r" "r \<noteq> s"
  shows "awake p k = Some (prio k s > prio k r,
    (set_state s WAITING k)\<lparr>process_queue := queue_insert (prio k) s (process_queue k)\<rparr>)"
proof -
  have "prio (set_state s WAITING k) = prio k" by (auto simp: fun_eq_iff)
  with assms show ?thesis by (simp add: awake_def kqueue_add_eq)
qed

lemma the_mq_process_fields [simp]:
  "the_mq fid (k\<lparr>process_queue := x\<rparr>) = the_mq fid k" "the_mq fid (set_state s st k) = the_mq fid k"
  "the_mq fid (k\<lparr>kheap := h\<rparr>) = the_mq fid k" "the_mq fid (k\<lparr>memory := m\<rparr>) = the_mq fid k"
  by (simp_all add: the_mq_def)

subsection \<open>Sending and receiving\<close>

lemma psend_stores:
  assumes "valid_fid fid (mqt k)" "mq_inv (the_mq fid k)"
    and "nb_messages (the_mq fid k) < mq_size (the_mq fid k)" "mq_nodes (the_mq fid k) = []"
  obtains q where "psend fid m k = Some (push [Return 0] (set_mq fid q k))" "mq_inv q"
    "messages q = messages (the_mq fid k) @ [m]" "mq_nodes q = []" "mq_size q = mq_size (the_mq fid k)"
    "buffer q = buffer (the_mq fid k)"
proof -
  obtain lp where lp: "locked_processes (the_mq fid k) = Some lp" "pq_ok lp" "buffer_ok (the_mq fid k)"
    "pq_nodes lp = mq_nodes (the_mq fid k)" "pq_size lp = length (mq_nodes (the_mq fid k))"
    using open_queue [OF assms(1,2)] by blast
  obtain q where q: "message_queue_register (the_mq fid k) m = Some q" "buffer_ok q"
    "mq_size q = mq_size (the_mq fid k)" "messages q = messages (the_mq fid k) @ [m]"
    using mbuf_put [OF lp(3)] assms(3) by auto
  note f = register_frame [OF q(1)]
  have "buffer q \<noteq> 0" using assms(1) f by (simp add: valid_fid_def the_mq_def)
  then have "mq_inv q" using q(2) lp f assms(4) by (intro mq_inv_open [of q lp]) auto
  moreover have "psend fid m k = Some (push [Return 0] (set_mq fid q k))"
    using assms lp q(1) by (simp add: psend_def Let_def)
  ultimately show ?thesis using that q f lp assms(4) by (simp add: mq_nodes_def)
qed

lemma preceive_takes:
  assumes "valid_fid fid (mqt k)" "mq_inv (the_mq fid k)"
    and "messages (the_mq fid k) = m # ms" "mq_nodes (the_mq fid k) = []"
  obtains q where "preceive fid a k = Some (push [Return 0] (store_result a m (set_mq fid q k)))" "mq_inv q"
    "messages q = ms" "mq_nodes q = []" "mq_size q = mq_size (the_mq fid k)"
    "buffer q = buffer (the_mq fid k)"
proof -
  obtain lp where lp: "locked_processes (the_mq fid k) = Some lp" "pq_ok lp" "buffer_ok (the_mq fid k)"
    "pq_nodes lp = mq_nodes (the_mq fid k)" "pq_size lp = length (mq_nodes (the_mq fid k))"
    using open_queue [OF assms(1,2)] by blast
  obtain q where q: "message_queue_unregister (the_mq fid k) = Some (m, q)" "buffer_ok q"
    "mq_size q = mq_size (the_mq fid k)" "messages q = ms"
    using mbuf_get [OF lp(3) assms(3)] by blast
  have nb: "nb_messages (the_mq fid k) \<noteq> 0"
    using assms(3) length_messages [of "the_mq fid k"] by auto
  note f = unregister_frame [OF q(1)]
  have "buffer q \<noteq> 0" using assms(1) f by (simp add: valid_fid_def the_mq_def)
  then have "mq_inv q" using q(2) lp f assms(4) by (intro mq_inv_open [of q lp]) auto
  moreover have "preceive fid a k = Some (push [Return 0] (store_result a m (set_mq fid q k)))"
    using assms lp q(1) nb by (simp add: preceive_def Let_def)
  ultimately show ?thesis using that q f lp assms(4) by (simp add: mq_nodes_def)
qed

text \<open>A message sent to an empty queue with blocked receivers goes straight to the first of them.\<close>

lemma psend_hands_over:
  assumes "valid_fid fid (mqt k)" "mq_inv (the_mq fid k)"
    and "messages (the_mq fid k) = []" "mq_nodes (the_mq fid k) = c # cs"
    and "get_process (c_pid c) = Some s" "s \<notin> set (process_queue k)"
    and "running_process (ptable k) = Some r" "r \<noteq> s"
  obtains k' where
    "psend fid m k = Some (push ((if prio k s > prio k r then schedule else []) @ [Return 0]) k')"
    "mq_inv (the_mq fid k')" "messages (the_mq fid k') = []" "mq_nodes (the_mq fid k') = cs"
    "memory k' = (if c_destination c \<noteq> 0 then (memory k)(c_destination c := m) else memory k)"
    "p_state (proc k' s) = WAITING" "process_queue k' = queue_insert (prio k) s (process_queue k)"
    "\<And>s'. s' \<noteq> s \<Longrightarrow> proc k' s' = proc k s'" "running_process (ptable k') = Some r"
    "\<And>c'. c' \<in> set cs \<Longrightarrow> c_priority c' \<le> c_priority c"
proof -
  let ?q = "the_mq fid k"
  obtain lp where lp: "locked_processes ?q = Some lp" "pq_ok lp" "buffer_ok ?q"
    "pq_nodes lp = mq_nodes ?q" "pq_size lp = length (mq_nodes ?q)"
    using open_queue [OF assms(1,2)] by blast
  have nb: "nb_messages ?q = 0" using assms(3) length_messages [of ?q] by simp
  obtain lp' where rm: "process_queue_remove_first lp = Some (c, lp')" "pq_ok lp'" "pq_nodes lp' = cs"
    "\<forall>x\<in>set cs. c_priority x \<le> c_priority c"
    using process_queue_remove_first_ok [OF lp(2)] lp(4) assms(4)
    by (cases "process_queue_remove_first lp") (auto simp: process_queue_remove_first_def)
  define k0 where "k0 = store_result (c_destination c) m (set_mq fid (?q\<lparr>locked_processes := Some lp'\<rparr>) k)"
  define k' where "k' = (set_state s WAITING k0)\<lparr>process_queue := queue_insert (prio k) s (process_queue k)\<rparr>"
  have "awake (c_pid c) k0 = Some (prio k s > prio k r, k')"
    using awake_eq [OF assms(5), of k0 r] assms(6-8) by (simp add: k0_def k'_def)
  then have "psend fid m k = Some (push ((if prio k s > prio k r then schedule else []) @ [Return 0]) k')"
    using assms(1,4) lp(1,5) rm(1) nb by (simp add: psend_def Let_def k0_def)
  moreover have "mq_inv (?q\<lparr>locked_processes := Some lp'\<rparr>)"
    using lp(3) rm(2) assms(1) nb by (intro mq_inv_open) (auto simp: valid_fid_def the_mq_def)
  moreover have "memory k' = (if c_destination c \<noteq> 0 then (memory k)(c_destination c := m) else memory k)"
    by (simp add: k'_def k0_def store_result_def set_word_def)
  ultimately show ?thesis using that [of k'] assms(3,7) rm(3,4)
    by (simp add: k'_def k0_def mq_nodes_def)
qed

text \<open>Receiving from a full queue with blocked senders lets the first of them in.\<close>

lemma preceive_admits_sender:
  assumes "valid_fid fid (mqt k)" "mq_inv (the_mq fid k)"
    and "messages (the_mq fid k) = m # ms" "mq_nodes (the_mq fid k) = c # cs"
    and "get_process (c_pid c) = Some s" "s \<notin> set (process_queue k)"
    and "running_process (ptable k) = Some r" "r \<noteq> s"
  obtains k' where
    "preceive fid a k = Some (push ((if prio k s > prio k r then schedule else []) @ [Return 0]) k')"
    "mq_inv (the_mq fid k')" "messages (the_mq fid k') = ms @ [c_message c]" "mq_nodes (the_mq fid k') = cs"
    "memory k' = (if a \<noteq> 0 then (memory k)(a := m) else memory k)"
    "p_state (proc k' s) = WAITING" "process_queue k' = queue_insert (prio k) s (process_queue k)"
    "\<And>s'. s' \<noteq> s \<Longrightarrow> proc k' s' = proc k s'"
    "\<And>c'. c' \<in> set cs \<Longrightarrow> c_priority c' \<le> c_priority c"
proof -
  let ?q = "the_mq fid k"
  obtain lp where lp: "locked_processes ?q = Some lp" "pq_ok lp" "buffer_ok ?q"
    "pq_nodes lp = mq_nodes ?q" "pq_size lp = length (mq_nodes ?q)"
    "mq_nodes ?q \<noteq> [] \<longrightarrow> nb_messages ?q = 0 \<or> nb_messages ?q = mq_size ?q"
    using open_queue [OF assms(1,2)] by blast
  have len: "nb_messages ?q = Suc (length ms)" using assms(3) length_messages [of ?q] by simp
  then have full: "nb_messages ?q = mq_size ?q" using lp(6) assms(4) by simp
  obtain q1 where q1: "message_queue_unregister ?q = Some (m, q1)" "buffer_ok q1"
    "mq_size q1 = mq_size ?q" "messages q1 = ms"
    using mbuf_get [OF lp(3) assms(3)] by blast
  obtain lp' where rm: "process_queue_remove_first lp = Some (c, lp')" "pq_ok lp'" "pq_nodes lp' = cs"
    "\<forall>x\<in>set cs. c_priority x \<le> c_priority c"
    using process_queue_remove_first_ok [OF lp(2)] lp(4) assms(4)
    by (cases "process_queue_remove_first lp") (auto simp: process_queue_remove_first_def)
  have "length (messages (q1\<lparr>locked_processes := Some lp'\<rparr>)) < mq_size (q1\<lparr>locked_processes := Some lp'\<rparr>)"
    using q1(3,4) len full by (simp del: length_messages)
  then obtain q2 where q2: "message_queue_register (q1\<lparr>locked_processes := Some lp'\<rparr>) (c_message c) = Some q2"
    "buffer_ok q2" "mq_size q2 = mq_size ?q" "messages q2 = ms @ [c_message c]"
    using mbuf_put [of "q1\<lparr>locked_processes := Some lp'\<rparr>"] q1 by auto
  note f = register_frame [OF q2(1)] unregister_frame [OF q1(1)]
  have "nb_messages q2 = mq_size q2" using q2(3,4) len full length_messages [of q2] by simp
  then have inv: "mq_inv q2" using q2(2) rm(2) f assms(1)
    by (intro mq_inv_open [of q2 lp']) (auto simp: valid_fid_def the_mq_def)
  define k0 where "k0 = store_result a m (set_mq fid q2 k)"
  define k' where "k' = (set_state s WAITING k0)\<lparr>process_queue := queue_insert (prio k) s (process_queue k)\<rparr>"
  have "awake (c_pid c) k0 = Some (prio k s > prio k r, k')"
    using awake_eq [OF assms(5), of k0 r] assms(6-8) by (simp add: k0_def k'_def)
  then have "preceive fid a k = Some (push ((if prio k s > prio k r then schedule else []) @ [Return 0]) k')"
    using assms(1,4) lp(1,5) rm(1) full q1(1) q2(1) by (simp add: preceive_def Let_def k0_def)
  moreover have "memory k' = (if a \<noteq> 0 then (memory k)(a := m) else memory k)"
    by (simp add: k'_def k0_def store_result_def set_word_def)
  ultimately show ?thesis using that [of k'] inv q2(4) f rm(3,4)
    by (simp add: k'_def k0_def mq_nodes_def)
qed

text \<open>Sending to a full queue, or receiving from an empty one, blocks the caller.\<close>

lemma block_on_queue_blocks:
  assumes "r < PROCESS_TABLE_MAX_SIZE" "running_process (ptable k) = Some r" "p_pid (proc k r) = int r + 1"
    and "answers (kheap k) (calls (kheap k)) \<noteq> 0" "pq_ok lp" "length (pq_nodes lp) < PROCESS_TABLE_MAX_SIZE"
  obtains k' lp' where "block_on_queue fid lp m a k = Some (push (schedule @ [Ipc_resume (int r + 1)]) k')"
    "the_mq fid k' = (the_mq fid k)\<lparr>locked_processes := Some lp'\<rparr>" "pq_ok lp'"
    "mset (pq_nodes lp') = add_mset \<lparr>c_pid = int r + 1, c_message = m, c_destination = a, c_priority = prio k r\<rparr>
       (mset (pq_nodes lp))"
    "p_state (proc k' r) = BLOCKED_BY_MESSAGE" "process_queue k' = process_queue k"
    "\<And>s. s \<noteq> r \<Longrightarrow> proc k' s = proc k s" "running_process (ptable k') = Some r" "kstack k' = kstack k"
proof -
  note r = assms(1)
  let ?c = "\<lparr>c_pid = int r + 1, c_message = m, c_destination = a, c_priority = prio k r\<rparr>"
  obtain lp' h where add: "process_queue_add_on_priority lp ?c (kheap k) = Some (lp', h)"
    using assms(4) by (simp add: process_queue_add_on_priority_def heap_alloc_def)
  note ok = process_queue_add_ok [OF assms(5) add assms(6)]
  define k1 where "k1 = set_mq fid ((the_mq fid k)\<lparr>locked_processes := Some lp'\<rparr>) (k\<lparr>kheap := h\<rparr>)"
  have "block_by_message (int r + 1) k1 = Some (set_state r BLOCKED_BY_MESSAGE k1)"
    using assms(2,3) r by (simp add: block_by_message_def k1_def)
  then have "block_on_queue fid lp m a k
      = Some (push (schedule @ [Ipc_resume (int r + 1)]) (set_state r BLOCKED_BY_MESSAGE k1))"
    using assms(2,3) r add by (simp add: block_on_queue_def getpid_def getprio_def k1_def Let_def)
  then show ?thesis using that ok assms(2) by (simp add: k1_def)
qed

subsection \<open>Resetting a queue\<close>

lemma reset_loop_wakes:
  assumes "pq_ok lp" "map (\<lambda>c. get_process (c_pid c)) (pq_nodes lp) = map Some ss" "distinct ss"
    and "set ss \<inter> set (process_queue k) = {}" "running_process (ptable k) = Some r" "r \<notin> set ss"
  shows "\<exists>need' k'. reset_loop lp need k = Some (lp\<lparr>pq_nodes := [], pq_size := 0\<rparr>, need', k')
    \<and> need' = (need \<or> (\<exists>s\<in>set ss. prio k s > prio k r))
    \<and> process_queue k' = fold (queue_insert (prio k)) ss (process_queue k)
    \<and> (\<forall>s. proc k' s = (if s \<in> set ss then (proc k s)\<lparr>p_state := WAITING\<rparr> else proc k s))
    \<and> (\<forall>s. reset_releases (mqt k') s \<longleftrightarrow> s \<in> set ss \<or> reset_releases (mqt k) s)
    \<and> mq_data (mqt k') = mq_data (mqt k) \<and> running_process (ptable k') = Some r \<and> kstack k' = kstack k
    \<and> memory k' = fold (\<lambda>c m. if c_destination c \<noteq> 0 then m(c_destination c := -1) else m)
        (pq_nodes lp) (memory k)"
  using assms
proof (induction "pq_nodes lp" arbitrary: lp ss k need)
  case Nil
  then have "pq_size lp = 0" "pq_nodes lp = []" "ss = []" by (auto simp: pq_ok_def)
  then show ?case using Nil.prems(5) by (simp add: reset_loop.simps)
next
  case (Cons c cs)
  then obtain s ss' where ss: "ss = s # ss'" "get_process (c_pid c) = Some s"
    and rest: "map (\<lambda>c. get_process (c_pid c)) cs = map Some ss'"
    by (cases ss) (auto simp: Cons.hyps(2) [symmetric])
  have size: "pq_size lp > 0" using Cons.prems(1) Cons.hyps(2) by (auto simp: pq_ok_def)
  define lp' where "lp' = lp\<lparr>pq_nodes := cs, pq_size := u32_dec (pq_size lp)\<rparr>"
  have rm1: "process_queue_remove_first lp = Some (c, lp')"
    using Cons.hyps(2) [symmetric] by (simp add: process_queue_remove_first_def lp'_def)
  have rm: "process_queue_remove_first lp = Some (c, lp')" "pq_ok lp'" "pq_nodes lp' = cs"
    using rm1 process_queue_remove_first_ok [OF Cons.prems(1) rm1] by (simp_all add: lp'_def)
  have lp': "lp'\<lparr>pq_nodes := [], pq_size := 0\<rparr> = lp\<lparr>pq_nodes := [], pq_size := 0\<rparr>"
    by (simp add: lp'_def)
  define k0 where "k0 = store_result (c_destination c) (-1) k"
  define k1 where "k1 = (set_state s WAITING k0)\<lparr>process_queue := queue_insert (prio k) s (process_queue k)\<rparr>"
  define k2 where "k2 = k1\<lparr>mqt := (mqt k1)\<lparr>reset_releases := (reset_releases (mqt k1))(nat (c_pid c - 1) := True)\<rparr>\<rparr>"
  have slot: "nat (c_pid c - 1) = s" using ss(2) by (auto simp: get_process_Some)
  have "awake (c_pid c) k0 = Some (prio k s > prio k r, k1)"
    using awake_eq [OF ss(2), of k0 r] Cons.prems(4-6) ss(1) by (simp add: k0_def k1_def)
  then have step: "reset_loop lp need k = reset_loop lp' (prio k s > prio k r \<or> need) k2"
    using size rm(1) by (subst reset_loop.simps) (simp add: k0_def k2_def)
  have prio: "\<And>x. prio k2 x = prio k x" by (simp add: k2_def k1_def k0_def)
  have "\<exists>need' k'. reset_loop lp' (prio k s > prio k r \<or> need) k2
      = Some (lp'\<lparr>pq_nodes := [], pq_size := 0\<rparr>, need', k')
    \<and> need' = ((prio k s > prio k r \<or> need) \<or> (\<exists>s\<in>set ss'. prio k2 s > prio k2 r))
    \<and> process_queue k' = fold (queue_insert (prio k2)) ss' (process_queue k2)
    \<and> (\<forall>s. proc k' s = (if s \<in> set ss' then (proc k2 s)\<lparr>p_state := WAITING\<rparr> else proc k2 s))
    \<and> (\<forall>s. reset_releases (mqt k') s \<longleftrightarrow> s \<in> set ss' \<or> reset_releases (mqt k2) s)
    \<and> mq_data (mqt k') = mq_data (mqt k2) \<and> running_process (ptable k') = Some r \<and> kstack k' = kstack k2
    \<and> memory k' = fold (\<lambda>c m. if c_destination c \<noteq> 0 then m(c_destination c := -1) else m)
        (pq_nodes lp') (memory k2)"
    using Cons.prems(3-6) ss(1) rest rm(2,3)
    by (intro Cons.hyps(1)) (auto simp: k2_def k1_def k0_def)
  then obtain need' k' where ih: "reset_loop lp' (prio k s > prio k r \<or> need) k2
      = Some (lp'\<lparr>pq_nodes := [], pq_size := 0\<rparr>, need', k')"
    "need' = ((prio k s > prio k r \<or> need) \<or> (\<exists>s\<in>set ss'. prio k s > prio k r))"
    "process_queue k' = fold (queue_insert (prio k)) ss' (process_queue k2)"
    "\<And>x. proc k' x = (if x \<in> set ss' then (proc k2 x)\<lparr>p_state := WAITING\<rparr> else proc k2 x)"
    "\<And>x. reset_releases (mqt k') x \<longleftrightarrow> x \<in> set ss' \<or> reset_releases (mqt k2) x"
    "mq_data (mqt k') = mq_data (mqt k2)" "running_process (ptable k') = Some r" "kstack k' = kstack k2"
    "memory k' = fold (\<lambda>c m. if c_destination c \<noteq> 0 then m(c_destination c := -1) else m) cs (memory k2)"
    unfolding prio rm(3) by blast
  have mem: "memory k2 = (if c_destination c \<noteq> 0 then (memory k)(c_destination c := -1) else memory k)"
    by (simp add: k2_def k1_def k0_def store_result_def set_word_def)
  have k2: "process_queue k2 = queue_insert (prio k) s (process_queue k)" "kstack k2 = kstack k"
    "mq_data (mqt k2) = mq_data (mqt k)"
    "\<And>x. reset_releases (mqt k2) x \<longleftrightarrow> x = s \<or> reset_releases (mqt k) x"
    "\<And>x. proc k2 x = (if x = s then (proc k s)\<lparr>p_state := WAITING\<rparr> else proc k x)"
    by (simp_all add: k2_def k1_def k0_def slot)
  show ?case unfolding step ih(1) lp' Cons.hyps(2) [symmetric] ss(1)
    by (intro exI [of _ need'] exI [of _ k'] conjI) (use ih(2-) k2 mem in auto)
qed

lemma drain_loop_empties:
  "buffer_ok q \<Longrightarrow> \<exists>q'. drain_loop q = Some q' \<and> messages q' = [] \<and> buffer_ok q'
     \<and> buffer q' = buffer q \<and> locked_processes q' = locked_processes q \<and> mq_size q' = mq_size q"
proof (induction "messages q" arbitrary: q)
  case Nil
  then have "nb_messages q = 0" using length_messages [of q] by simp
  with Nil show ?case by (simp add: drain_loop.simps)
next
  case (Cons m ms)
  have n: "nb_messages q = Suc (length ms)"
    using Cons.hyps(2) length_messages [of q] by (metis length_Cons)
  obtain q1 where q1: "message_queue_unregister q = Some (m, q1)" "buffer_ok q1" "mq_size q1 = mq_size q"
    "messages q1 = ms"
    using mbuf_get [OF Cons.prems Cons.hyps(2) [symmetric]] by blast
  have "drain_loop q = drain_loop q1"
    using n q1(1) by (subst drain_loop.simps) simp
  with Cons.hyps(1) [OF q1(4) [symmetric] q1(2)] q1(3) unregister_frame [OF q1(1)] show ?case by auto
qed

lemma message_queue_reset_effect:
  assumes "valid_fid fid (mqt k)" "mq_inv (the_mq fid k)"
    and "map (\<lambda>c. get_process (c_pid c)) (mq_nodes (the_mq fid k)) = map Some ss" "distinct ss"
    and "set ss \<inter> set (process_queue k) = {}" "running_process (ptable k) = Some r" "r \<notin> set ss"
  obtains k' where
    "message_queue_reset fid k = Some (0, \<exists>s\<in>set ss. prio k s > prio k r, k')"
    "mq_inv (the_mq fid k')" "messages (the_mq fid k') = []" "mq_nodes (the_mq fid k') = []"
    "mq_size (the_mq fid k') = mq_size (the_mq fid k)"
    "process_queue k' = fold (queue_insert (prio k)) ss (process_queue k)"
    "\<And>s. proc k' s = (if s \<in> set ss then (proc k s)\<lparr>p_state := WAITING\<rparr> else proc k s)"
    "\<And>s. reset_releases (mqt k') s \<longleftrightarrow> s \<in> set ss \<or> reset_releases (mqt k) s"
    "running_process (ptable k') = Some r" "kstack k' = kstack k"
    "\<And>i. i \<noteq> nat fid \<Longrightarrow> mq_data (mqt k') i = mq_data (mqt k) i"
proof -
  let ?q = "the_mq fid k"
  obtain lp where lp: "locked_processes ?q = Some lp" "pq_ok lp" "buffer_ok ?q" "pq_nodes lp = mq_nodes ?q"
    using open_queue [OF assms(1,2)] by blast
  obtain need k1 where k1: "reset_loop lp False k = Some (lp\<lparr>pq_nodes := [], pq_size := 0\<rparr>, need, k1)"
    "need = (\<exists>s\<in>set ss. prio k s > prio k r)"
    "process_queue k1 = fold (queue_insert (prio k)) ss (process_queue k)"
    "\<And>s. proc k1 s = (if s \<in> set ss then (proc k s)\<lparr>p_state := WAITING\<rparr> else proc k s)"
    "\<And>s. reset_releases (mqt k1) s \<longleftrightarrow> s \<in> set ss \<or> reset_releases (mqt k) s"
    "mq_data (mqt k1) = mq_data (mqt k)" "running_process (ptable k1) = Some r" "kstack k1 = kstack k"
    using reset_loop_wakes [OF lp(2) assms(3) [folded lp(4)] assms(4-7), of False] by auto
  have q1: "the_mq fid k1 = ?q" using k1(6) by (simp add: the_mq_def)
  let ?q1 = "?q\<lparr>locked_processes := Some (lp\<lparr>pq_nodes := [], pq_size := 0\<rparr>)\<rparr>"
  obtain q2 where q2: "drain_loop ?q1 = Some q2" "messages q2 = []" "buffer_ok q2" "buffer q2 = buffer ?q1"
    "locked_processes q2 = locked_processes ?q1" "mq_size q2 = mq_size ?q1"
    using drain_loop_empties [of ?q1] lp(3) by auto
  define k' where "k' = set_mq fid q2 (set_mq fid ?q1 k1)"
  have "message_queue_reset fid k = Some (0, need, k')"
    using assms(1) lp(1) k1(1) q1 q2(1) by (simp add: message_queue_reset_def Let_def k'_def)
  moreover have "mq_inv q2" using q2 assms(1)
    by (intro mq_inv_open) (auto simp: pq_ok_def valid_fid_def the_mq_def)
  moreover have "mq_nodes q2 = []" using q2(5) by (simp add: mq_nodes_def)
  ultimately show ?thesis
    using that [of k'] k1 q2 by (simp add: k'_def set_mq_def the_mq_def)
qed

subsection \<open>Properties\<close>

text \<open>Open queues of size 2 for the concrete instances.\<close>

definition sample_queue :: "nat \<Rightarrow> process_node_content_t list \<Rightarrow> message_queue_t" where
  "sample_queue n cs = \<lparr>buffer = 1, buffer_cells = (\<lambda>i. if i = 0 then 10 else 20), nb_messages = n, mq_size = 2,
     message_consume_index = 0, message_produce_index = (if n = 2 then INDEXES_LOCK_VALUE else int n),
     locked_processes = Some \<lparr>pq_nodes = cs, pq_size = length cs\<rparr>\<rparr>"

definition ipc_kernel :: "nat \<Rightarrow> process_node_content_t list \<Rightarrow> kernel" where
  "ipc_kernel n cs = set_mq 0 (sample_queue n cs) sample_kernel"

lemma ipc_kernel_simps [simp]:
  "the_mq 0 (ipc_kernel n cs) = sample_queue n cs" "valid_fid 0 (mqt (ipc_kernel n cs))"
  "mq_nodes (sample_queue n cs) = cs" "mq_size (sample_queue n cs) = 2" "nb_messages (sample_queue n cs) = n"
  "ptable (ipc_kernel n cs) = ptable sample_kernel" "process_queue (ipc_kernel n cs) = [1]"
  by (simp_all add: ipc_kernel_def sample_queue_def mq_nodes_def valid_fid_def set_mq_def the_mq_def NBQUEUE_def)

lemma sample_queue_messages: "messages (sample_queue n cs) = map (\<lambda>i. if i mod 2 = 0 then 10 else 20) [0..<n]"
  by (simp add: messages_def ring_list_def sample_queue_def)

lemma sample_queue_inv:
  "n \<le> 2 \<Longrightarrow> pq_ok \<lparr>pq_nodes = cs, pq_size = length cs\<rparr> \<Longrightarrow> (cs \<noteq> [] \<longrightarrow> n = 0 \<or> n = 2) \<Longrightarrow>
   mq_inv (sample_queue n cs)"
  by (intro mq_inv_open [where lp = "\<lparr>pq_nodes = cs, pq_size = length cs\<rparr>"])
     (auto simp: sample_queue_def buffer_ok_def ring_ok_def MESSAGE_QUEUE_BUFFER_MAX_SIZE_def INDEXES_LOCK_VALUE_def)

text \<open>Sending to a queue with room and nobody blocked stores the message behind the others and
  returns 0; nothing else in the kernel changes.\<close>

lemma psend_appends:
  assumes "valid_fid fid (mqt k)" "mq_inv (the_mq fid k)"
    and "nb_messages (the_mq fid k) < mq_size (the_mq fid k)" "mq_nodes (the_mq fid k) = []"
  shows "\<exists>q. psend fid m k = Some (push [Return 0] (set_mq fid q k)) \<and> mq_inv q
    \<and> messages q = messages (the_mq fid k) @ [m] \<and> mq_nodes q = [] \<and> mq_size q = mq_size (the_mq fid k)"
  using psend_stores [OF assms] by metis

lemma psend_appends_sample:
  "\<exists>q. psend 0 7 (ipc_kernel 1 []) = Some (push [Return 0] (set_mq 0 q (ipc_kernel 1 [])))
    \<and> messages q = [10, 7]"
  using psend_appends [of 0 "ipc_kernel 1 []" 7] sample_queue_inv [of 1 "[]"]
  by (auto simp: sample_queue_messages pq_ok_def)

text \<open>C5: receiving from a queue that holds messages, with nobody blocked, gives the oldest one, stores
  it where the caller asked and returns 0; the other messages keep their order.\<close>

theorem preceive_takes_oldest:
  assumes "valid_fid fid (mqt k)" "mq_inv (the_mq fid k)"
    and "messages (the_mq fid k) = m # ms" "mq_nodes (the_mq fid k) = []"
  shows "\<exists>q. preceive fid a k = Some (push [Return 0] (store_result a m (set_mq fid q k))) \<and> mq_inv q
    \<and> messages q = ms \<and> mq_nodes q = [] \<and> mq_size q = mq_size (the_mq fid k)"
  using preceive_takes [OF assms] by metis

theorem preceive_takes_oldest_witness:
  "\<exists>q. preceive 0 5000 (ipc_kernel 2 []) = Some (push [Return 0] (store_result 5000 10 (set_mq 0 q (ipc_kernel 2 []))))
    \<and> messages q = [20]"
  using preceive_takes_oldest [of 0 "ipc_kernel 2 []" 10 "[20]" 5000] sample_queue_inv [of 2 "[]"]
  by (auto simp: sample_queue_messages pq_ok_def upt_rec)

text \<open>C6: a message sent to an empty queue with blocked receivers goes straight to the first of them,
  which has the highest priority among them: it is stored at the address that process gave, the
  process becomes ready and is queued, the buffer stays empty, and the scheduler is called
  exactly if the woken process has the greater priority.\<close>

theorem psend_wakes_receiver:
  assumes "valid_fid fid (mqt k)" "mq_inv (the_mq fid k)"
    and "messages (the_mq fid k) = []" "mq_nodes (the_mq fid k) = c # cs"
    and "get_process (c_pid c) = Some s" "s \<notin> set (process_queue k)"
    and "running_process (ptable k) = Some r" "r \<noteq> s"
  shows "\<exists>k'. psend fid m k = Some (push ((if prio k s > prio k r then schedule else []) @ [Return 0]) k')
    \<and> mq_inv (the_mq fid k') \<and> messages (the_mq fid k') = [] \<and> mq_nodes (the_mq fid k') = cs
    \<and> memory k' = (if c_destination c \<noteq> 0 then (memory k)(c_destination c := m) else memory k)
    \<and> p_state (proc k' s) = WAITING \<and> process_queue k' = queue_insert (prio k) s (process_queue k)
    \<and> (\<forall>s'. s' \<noteq> s \<longrightarrow> proc k' s' = proc k s') \<and> (\<forall>c'\<in>set cs. c_priority c' \<le> c_priority c)"
proof -
  obtain k' where "psend fid m k = Some (push ((if prio k s > prio k r then schedule else []) @ [Return 0]) k')"
    "mq_inv (the_mq fid k')" "messages (the_mq fid k') = []" "mq_nodes (the_mq fid k') = cs"
    "memory k' = (if c_destination c \<noteq> 0 then (memory k)(c_destination c := m) else memory k)"
    "p_state (proc k' s) = WAITING" "process_queue k' = queue_insert (prio k) s (process_queue k)"
    "\<And>s'. s' \<noteq> s \<Longrightarrow> proc k' s' = proc k s'" "\<And>c'. c' \<in> set cs \<Longrightarrow> c_priority c' \<le> c_priority c"
    using psend_hands_over [OF assms] by blast
  then show ?thesis by blast
qed

theorem psend_wakes_receiver_witness:
  "\<exists>k'. psend 0 7 (ipc_kernel 0 [\<lparr>c_pid = 3, c_message = 0, c_destination = 5000, c_priority = 3\<rparr>])
      = Some (push (schedule @ [Return 0]) k')
    \<and> memory k' 5000 = 7 \<and> p_state (proc k' 2) = WAITING"
proof -
  let ?c = "\<lparr>c_pid = 3, c_message = 0, c_destination = 5000, c_priority = 3\<rparr>"
  have "get_process (c_pid ?c) = Some 2" by (simp add: get_process_Some PROCESS_TABLE_MAX_SIZE_def)
  then show ?thesis
    using psend_wakes_receiver [of 0 "ipc_kernel 0 [?c]" ?c "[]" 2 0 7] sample_queue_inv [of 0 "[?c]"]
    by (auto simp: sample_queue_messages pq_ok_def PROCESS_TABLE_MAX_SIZE_def)
qed

text \<open>C7: receiving from a full queue with blocked senders gives the oldest message and lets the first
  blocked sender in: its message is stored behind the others, so the queue is full again and no
  message is lost or overtaken, and that process becomes ready.\<close>

theorem preceive_wakes_sender:
  assumes "valid_fid fid (mqt k)" "mq_inv (the_mq fid k)"
    and "messages (the_mq fid k) = m # ms" "mq_nodes (the_mq fid k) = c # cs"
    and "get_process (c_pid c) = Some s" "s \<notin> set (process_queue k)"
    and "running_process (ptable k) = Some r" "r \<noteq> s"
  shows "\<exists>k'. preceive fid a k = Some (push ((if prio k s > prio k r then schedule else []) @ [Return 0]) k')
    \<and> mq_inv (the_mq fid k') \<and> messages (the_mq fid k') = ms @ [c_message c] \<and> mq_nodes (the_mq fid k') = cs
    \<and> memory k' = (if a \<noteq> 0 then (memory k)(a := m) else memory k)
    \<and> p_state (proc k' s) = WAITING \<and> process_queue k' = queue_insert (prio k) s (process_queue k)
    \<and> (\<forall>s'. s' \<noteq> s \<longrightarrow> proc k' s' = proc k s') \<and> (\<forall>c'\<in>set cs. c_priority c' \<le> c_priority c)"
proof -
  obtain k' where "preceive fid a k = Some (push ((if prio k s > prio k r then schedule else []) @ [Return 0]) k')"
    "mq_inv (the_mq fid k')" "messages (the_mq fid k') = ms @ [c_message c]" "mq_nodes (the_mq fid k') = cs"
    "memory k' = (if a \<noteq> 0 then (memory k)(a := m) else memory k)"
    "p_state (proc k' s) = WAITING" "process_queue k' = queue_insert (prio k) s (process_queue k)"
    "\<And>s'. s' \<noteq> s \<Longrightarrow> proc k' s' = proc k s'" "\<And>c'. c' \<in> set cs \<Longrightarrow> c_priority c' \<le> c_priority c"
    using preceive_admits_sender [OF assms] by blast
  then show ?thesis by blast
qed

theorem preceive_wakes_sender_witness:
  "\<exists>k'. preceive 0 5000 (ipc_kernel 2 [\<lparr>c_pid = 3, c_message = 99, c_destination = 0, c_priority = 3\<rparr>])
      = Some (push (schedule @ [Return 0]) k')
    \<and> memory k' 5000 = 10 \<and> messages (the_mq 0 k') = [20, 99]"
proof -
  let ?c = "\<lparr>c_pid = 3, c_message = 99, c_destination = 0, c_priority = 3\<rparr>"
  have "get_process (c_pid ?c) = Some 2" by (simp add: get_process_Some PROCESS_TABLE_MAX_SIZE_def)
  then show ?thesis
    using preceive_wakes_sender [of 0 "ipc_kernel 2 [?c]" 10 "[20]" ?c "[]" 2 0 5000] sample_queue_inv [of 2 "[?c]"]
    by (auto simp: sample_queue_messages pq_ok_def PROCESS_TABLE_MAX_SIZE_def upt_rec)
qed

text \<open>C8: sending to a full queue and receiving from an empty one block the caller: it leaves the
  running state, one entry with its identifier, priority, message and destination joins the list of
  blocked processes, which stays sorted by decreasing priority, the messages are untouched and the
  scheduler is called.\<close>

theorem full_or_empty_queue_blocks:
  assumes "valid_fid fid (mqt k)" "mq_inv (the_mq fid k)" "slots_ok k"
    and "running_process (ptable k) = Some r" "p_pid (proc k r) = int r + 1"
    and "answers (kheap k) (calls (kheap k)) \<noteq> 0" "length (mq_nodes (the_mq fid k)) < PROCESS_TABLE_MAX_SIZE"
    and "call = psend fid m k \<and> nb_messages (the_mq fid k) = mq_size (the_mq fid k) \<and> msg = m \<and> dest = 0
      \<or> call = preceive fid a k \<and> nb_messages (the_mq fid k) = 0 \<and> msg = 0 \<and> dest = a"
  shows "\<exists>k'. call = Some (push (schedule @ [Ipc_resume (int r + 1)]) k') \<and> mq_inv (the_mq fid k')
    \<and> messages (the_mq fid k') = messages (the_mq fid k)
    \<and> mset (mq_nodes (the_mq fid k')) = add_mset \<lparr>c_pid = int r + 1, c_message = msg, c_destination = dest,
        c_priority = prio k r\<rparr> (mset (mq_nodes (the_mq fid k)))
    \<and> p_state (proc k' r) = BLOCKED_BY_MESSAGE \<and> process_queue k' = process_queue k
    \<and> (\<forall>s. s \<noteq> r \<longrightarrow> proc k' s = proc k s)"
proof -
  let ?q = "the_mq fid k"
  obtain lp where lp: "locked_processes ?q = Some lp" "pq_ok lp" "buffer_ok ?q" "pq_nodes lp = mq_nodes ?q"
    "0 < mq_size ?q"
    using open_queue [OF assms(1,2)] by blast
  have call: "call = block_on_queue fid lp msg dest k" and edge: "nb_messages ?q = 0 \<or> nb_messages ?q = mq_size ?q"
    using assms(1,8) lp(1,5) by (auto simp: psend_def preceive_def Let_def)
  obtain k' lp' where k': "block_on_queue fid lp msg dest k = Some (push (schedule @ [Ipc_resume (int r + 1)]) k')"
    "the_mq fid k' = ?q\<lparr>locked_processes := Some lp'\<rparr>" "pq_ok lp'"
    "mset (pq_nodes lp') = add_mset \<lparr>c_pid = int r + 1, c_message = msg, c_destination = dest, c_priority = prio k r\<rparr>
       (mset (pq_nodes lp))"
    "p_state (proc k' r) = BLOCKED_BY_MESSAGE" "process_queue k' = process_queue k"
    "\<And>s. s \<noteq> r \<Longrightarrow> proc k' s = proc k s"
    using block_on_queue_blocks [OF _ assms(4-6) lp(2)] lp(4) assms(3,4,7) unfolding slots_ok_def by metis
  have "mq_inv (the_mq fid k')" using lp(3) k'(2,3) edge assms(1)
    by (intro mq_inv_open [of _ lp']) (auto simp: valid_fid_def the_mq_def)
  then show ?thesis using call k' lp(4) by (intro exI [of _ k']) (simp add: mq_nodes_def [of "_\<lparr>locked_processes := _\<rparr>"])
qed

theorem full_or_empty_queue_blocks_witness:
  "\<exists>k'. psend 0 7 (ipc_kernel 2 []) = Some (push (schedule @ [Ipc_resume 1]) k')
    \<and> p_state (proc k' 0) = BLOCKED_BY_MESSAGE
    \<and> mq_nodes (the_mq 0 k') = [\<lparr>c_pid = 1, c_message = 7, c_destination = 0, c_priority = 1\<rparr>]"
proof -
  have "slots_ok (ipc_kernel 2 [])" using slots_ok_sample by (simp add: slots_ok_def)
  moreover have "kheap (ipc_kernel 2 []) = ample_heap" by (simp add: ipc_kernel_def)
  ultimately show ?thesis
    using full_or_empty_queue_blocks [of 0 "ipc_kernel 2 []" 0 "psend 0 7 (ipc_kernel 2 [])" 7 7 0 0]
      sample_queue_inv [of 2 "[]"]
    by (auto simp: pq_ok_def PROCESS_TABLE_MAX_SIZE_def)
qed

text \<open>C9: \<open>preset\<close> empties a queue and releases everybody blocked on it: all messages are dropped, every
  blocked process becomes ready, joins the ready queue and is marked so that its own call will
  return -1, other queues and processes are untouched, and the scheduler is called exactly if one
  of the released processes has a greater priority than the caller.\<close>

theorem preset_releases_all:
  assumes "valid_fid fid (mqt k)" "mq_inv (the_mq fid k)"
    and "map (\<lambda>c. get_process (c_pid c)) (mq_nodes (the_mq fid k)) = map Some ss" "distinct ss"
    and "set ss \<inter> set (process_queue k) = {}" "running_process (ptable k) = Some r" "r \<notin> set ss"
  shows "\<exists>k'. preset fid k
      = Some (push ((if \<exists>s\<in>set ss. prio k s > prio k r then schedule else []) @ [Return 0]) k')
    \<and> mq_inv (the_mq fid k') \<and> messages (the_mq fid k') = [] \<and> mq_nodes (the_mq fid k') = []
    \<and> process_queue k' = fold (queue_insert (prio k)) ss (process_queue k)
    \<and> (\<forall>s. proc k' s = (if s \<in> set ss then (proc k s)\<lparr>p_state := WAITING\<rparr> else proc k s))
    \<and> (\<forall>s. reset_releases (mqt k') s \<longleftrightarrow> s \<in> set ss \<or> reset_releases (mqt k) s)
    \<and> (\<forall>i. i \<noteq> nat fid \<longrightarrow> mq_data (mqt k') i = mq_data (mqt k) i)"
proof -
  obtain k' where "message_queue_reset fid k = Some (0, \<exists>s\<in>set ss. prio k s > prio k r, k')"
    "mq_inv (the_mq fid k')" "messages (the_mq fid k') = []" "mq_nodes (the_mq fid k') = []"
    "process_queue k' = fold (queue_insert (prio k)) ss (process_queue k)"
    "\<And>s. proc k' s = (if s \<in> set ss then (proc k s)\<lparr>p_state := WAITING\<rparr> else proc k s)"
    "\<And>s. reset_releases (mqt k') s \<longleftrightarrow> s \<in> set ss \<or> reset_releases (mqt k) s"
    "\<And>i. i \<noteq> nat fid \<Longrightarrow> mq_data (mqt k') i = mq_data (mqt k) i"
    by (rule message_queue_reset_effect [OF assms], rule that, assumption+)
  then show ?thesis by (intro exI [of _ k']) (simp add: preset_def)
qed

theorem preset_releases_all_witness:
  "\<exists>k'. preset 0 (ipc_kernel 2 [\<lparr>c_pid = 3, c_message = 99, c_destination = 0, c_priority = 3\<rparr>])
      = Some (push (schedule @ [Return 0]) k')
    \<and> messages (the_mq 0 k') = [] \<and> p_state (proc k' 2) = WAITING \<and> reset_releases (mqt k') 2"
proof -
  let ?c = "\<lparr>c_pid = 3, c_message = 99, c_destination = 0, c_priority = 3\<rparr>"
  have "get_process (c_pid ?c) = Some 2" by (simp add: get_process_Some PROCESS_TABLE_MAX_SIZE_def)
  then have hyps: "map (\<lambda>c. get_process (c_pid c)) (mq_nodes (the_mq 0 (ipc_kernel 2 [?c]))) = map Some [2]"
    "mq_inv (the_mq 0 (ipc_kernel 2 [?c]))"
    using sample_queue_inv [of 2 "[?c]"] by (simp_all add: pq_ok_def PROCESS_TABLE_MAX_SIZE_def)
  obtain k' where "preset 0 (ipc_kernel 2 [?c]) = Some (push ((if \<exists>s\<in>set [2]. prio (ipc_kernel 2 [?c]) s
        > prio (ipc_kernel 2 [?c]) 0 then schedule else []) @ [Return 0]) k')"
    "messages (the_mq 0 k') = []"
    "\<forall>s. proc k' s = (if s \<in> set [2] then (proc (ipc_kernel 2 [?c]) s)\<lparr>p_state := WAITING\<rparr>
      else proc (ipc_kernel 2 [?c]) s)"
    "\<forall>s. reset_releases (mqt k') s \<longleftrightarrow> s \<in> set [2] \<or> reset_releases (mqt (ipc_kernel 2 [?c])) s"
    using preset_releases_all [OF _ hyps(2,1), of 0] by auto
  then show ?thesis by (intro exI [of _ k']) simp
qed

end
