(* ===== verification/Kmem.thy ===== *)
theory Kmem
  imports Prelude
begin

unbundle bit_operations_syntax

text \<open>
  The block functions of \<^verbatim>\<open>shared/string.c\<close> (\<open>memccpy\<close> to \<open>memswap\<close>) in the variant compiled for
  i386, and what each computes.

  Pointers are addresses, 0 is \<open>NULL\<close>. The inline assembly is modelled by its instructions:
  \<open>rep movsb\<close> and \<open>rep stosb\<close> byte by byte in the direction of the direction flag, \<open>rep movsl\<close> and
  \<open>rep stosl\<close> four bytes at a time with the read before the write, so that overlapping zones are
  treated as the processor treats them. A conversion to \<open>char\<close> is \<open>to_char\<close>.
\<close>

definition to_char :: "int \<Rightarrow> nat" where
  "to_char c = nat (c mod 256)"

subsection \<open>The functions\<close>

fun memccpy_loop :: "nat \<Rightarrow> nat \<Rightarrow> nat \<Rightarrow> nat \<Rightarrow> memory \<Rightarrow> nat \<times> memory" where
  "memccpy_loop q p c 0 m = (0, m)"
| "memccpy_loop q p c (Suc n) m =
     (let ch = m p; m = m(q := ch)
      in if ch = c then (q + 1, m) else memccpy_loop (q + 1) (p + 1) c n m)"

definition memccpy :: "nat \<Rightarrow> nat \<Rightarrow> int \<Rightarrow> nat \<Rightarrow> memory \<Rightarrow> nat \<times> memory" where
  "memccpy dst src c n m = memccpy_loop dst src (to_char c) n m"

fun memchr_loop :: "nat \<Rightarrow> nat \<Rightarrow> nat \<Rightarrow> memory \<Rightarrow> nat" where
  "memchr_loop sp c 0 m = 0"
| "memchr_loop sp c (Suc n) m = (if m sp = c then sp else memchr_loop (sp + 1) c n m)"

definition memchr :: "nat \<Rightarrow> int \<Rightarrow> nat \<Rightarrow> memory \<Rightarrow> nat" where
  "memchr s c n m = memchr_loop s (to_char c) n m"

fun memrchr_loop :: "nat \<Rightarrow> nat \<Rightarrow> nat \<Rightarrow> memory \<Rightarrow> nat" where
  "memrchr_loop sp c 0 m = 0"
| "memrchr_loop sp c (Suc n) m = (if m sp = c then sp else memrchr_loop (sp - 1) c n m)"

definition memrchr :: "nat \<Rightarrow> int \<Rightarrow> nat \<Rightarrow> memory \<Rightarrow> nat" where
  "memrchr s c n m = memrchr_loop (s + n - 1) (to_char c) n m"

fun memcmp_loop :: "nat \<Rightarrow> nat \<Rightarrow> int \<Rightarrow> nat \<Rightarrow> memory \<Rightarrow> int" where
  "memcmp_loop c1 c2 d 0 m = d"
| "memcmp_loop c1 c2 d (Suc n) m =
     (let d = int (m c1) - int (m c2) in if d \<noteq> 0 then d else memcmp_loop (c1 + 1) (c2 + 1) d n m)"

definition memcmp :: "nat \<Rightarrow> nat \<Rightarrow> nat \<Rightarrow> memory \<Rightarrow> int" where
  "memcmp s1 s2 n m = memcmp_loop s1 s2 0 n m"

text \<open>The string instructions with a repeat prefix: the count in \<open>ecx\<close>, the source in \<open>esi\<close>, the
  destination in \<open>edi\<close>.\<close>

fun rep_movsb :: "nat \<Rightarrow> nat \<Rightarrow> nat \<Rightarrow> memory \<Rightarrow> memory" where
  "rep_movsb 0 p q m = m"
| "rep_movsb (Suc n) p q m = rep_movsb n (p + 1) (q + 1) (m(q := m p))"

fun rep_movsb_down :: "nat \<Rightarrow> nat \<Rightarrow> nat \<Rightarrow> memory \<Rightarrow> memory" where
  "rep_movsb_down 0 p q m = m"
| "rep_movsb_down (Suc n) p q m = rep_movsb_down n (p - 1) (q - 1) (m(q := m p))"

fun rep_movsl :: "nat \<Rightarrow> nat \<Rightarrow> nat \<Rightarrow> memory \<Rightarrow> memory" where
  "rep_movsl 0 p q m = m"
| "rep_movsl (Suc n) p q m = rep_movsl n (p + 4) (q + 4) (store_bytes q (bytes_at m p 4) m)"

definition long_bytes :: "nat \<Rightarrow> nat list" where
  "long_bytes w = map (\<lambda>i. w div 256 ^ i mod 256) [0..<4]"

fun rep_stosl :: "nat \<Rightarrow> nat \<Rightarrow> nat \<Rightarrow> memory \<Rightarrow> memory" where
  "rep_stosl w 0 q m = m"
| "rep_stosl w (Suc n) q m = rep_stosl w n (q + 4) (store_bytes q (long_bytes w) m)"

fun rep_stosb :: "nat \<Rightarrow> nat \<Rightarrow> nat \<Rightarrow> memory \<Rightarrow> memory" where
  "rep_stosb w 0 q m = m"
| "rep_stosb w (Suc n) q m = rep_stosb w n (q + 1) (m(q := w mod 256))"

definition memcpy :: "nat \<Rightarrow> nat \<Rightarrow> nat \<Rightarrow> memory \<Rightarrow> nat \<times> memory" where
  "memcpy dst src n m =
     (let nl = drop_bit 2 n; m = rep_movsl nl src dst m
      in (dst, rep_movsb (n AND 3) (src + 4 * nl) (dst + 4 * nl) m))"

text \<open>\<open>memmove\<close> returns, beside the destination, the direction flag it leaves behind.\<close>

definition memmove :: "nat \<Rightarrow> nat \<Rightarrow> nat \<Rightarrow> memory \<Rightarrow> nat \<times> bool \<times> memory" where
  "memmove dst src n m =
     (if dst < src then (dst, False, rep_movsb n src dst m)
      else (dst, True, rep_movsb_down n (src + n - 1) (dst + n - 1) m))"

definition memset :: "nat \<Rightarrow> int \<Rightarrow> nat \<Rightarrow> memory \<Rightarrow> nat \<times> memory" where
  "memset dst c n m =
     (let nl = drop_bit 2 n; w = to_char c * 0x01010101; m = rep_stosl w nl dst m
      in (dst, rep_stosb w (n AND 3) (dst + 4 * nl) m))"

text \<open>\<open>memmem\<close> sets the two strides before its loop: \<open>k\<close> is 2 and \<open>l\<close> is 1 where the first two bytes of
  the needle agree (\<open>same\<close>), the other way round otherwise.\<close>

abbreviation stride_k :: "bool \<Rightarrow> nat" where "stride_k same \<equiv> (if same then 2 else 1)"

abbreviation stride_l :: "bool \<Rightarrow> nat" where "stride_l same \<equiv> (if same then 1 else 2)"

function memmem_loop :: "bool \<Rightarrow> nat \<Rightarrow> nat \<Rightarrow> nat \<Rightarrow> nat \<Rightarrow> nat \<Rightarrow> memory \<Rightarrow> nat" where
  "memmem_loop same n len x y j m =
     (if j \<le> n - len then
        (if m (x + 1) \<noteq> m (y + j + 1) then memmem_loop same n len x y (j + stride_k same) m
         else if memcmp (x + 2) (y + j + 2) (len - 2) m = 0 \<and> m x = m (y + j) then y + j
         else memmem_loop same n len x y (j + stride_l same) m)
      else 0)"
  by pat_completeness auto
termination
  by (relation "measure (\<lambda>(same, n, len, x, y, j, m). Suc n - j)") auto

fun memmem_byte :: "nat \<Rightarrow> nat \<Rightarrow> nat \<Rightarrow> memory \<Rightarrow> nat" where
  "memmem_byte x y 0 m = 0"
| "memmem_byte x y (Suc n) m = (if m y = m x then y else memmem_byte x (y + 1) n m)"

definition memmem :: "nat \<Rightarrow> nat \<Rightarrow> nat \<Rightarrow> nat \<Rightarrow> memory \<Rightarrow> nat" where
  "memmem haystack n needle len m =
     (if len > n \<or> len = 0 \<or> n = 0 then 0
      else if len \<noteq> 1 then
        memmem_loop (m needle = m (needle + 1)) n len needle haystack 0 m
      else memmem_byte needle haystack n m)"

fun memswap :: "nat \<Rightarrow> nat \<Rightarrow> nat \<Rightarrow> memory \<Rightarrow> memory" where
  "memswap p q 0 m = m"
| "memswap p q (Suc n) m = (let tmp = m p; m = m(p := m q); m = m(q := tmp) in memswap (p + 1) (q + 1) n m)"

declare memmem_loop.simps [simp del]

subsection \<open>Copying and filling\<close>

lemma to_char_less [simp]: "to_char c < 256"
  by (simp add: to_char_def nat_less_iff)

lemma to_char_id [simp]: "b < 256 \<Longrightarrow> to_char (int b) = b"
  by (simp add: to_char_def)

lemma and_3: "(n :: nat) AND 3 = n mod 4"
proof -
  have "n AND 3 = n AND mask 2" by (simp add: mask_eq_exp_minus_1)
  also have "\<dots> = n mod 4" by (simp add: take_bit_eq_mod flip: take_bit_eq_mask)
  finally show ?thesis .
qed

lemma rep_movsb_copies:
  "q \<le> p \<or> p + n \<le> q \<Longrightarrow> rep_movsb n p q m = store_bytes q (bytes_at m p n) m"
proof (induction n arbitrary: p q m)
  case (Suc n)
  have "bytes_at (m(q := m p)) (Suc p) n = bytes_at m (Suc p) n"
    using Suc.prems by (intro bytes_at_cong) auto
  moreover have "Suc q \<le> Suc p \<or> Suc p + n \<le> Suc q" using Suc.prems by auto
  ultimately show ?case
    using Suc.IH [of "Suc q" "Suc p" "m(q := m p)"]
    by (simp add: bytes_at_Suc store_bytes_Cons del: fun_upd_apply)
qed simp

lemma rep_movsb_down_copies:
  "p \<le> q \<or> q + n \<le> p \<Longrightarrow> rep_movsb_down n (p + n - 1) (q + n - 1) m = store_bytes q (bytes_at m p n) m"
proof (induction n arbitrary: m)
  case (Suc n)
  define m' where "m' = m(q + n := m (p + n))"
  have "bytes_at m' p n = bytes_at m p n"
    using Suc.prems by (intro bytes_at_cong) (auto simp: m'_def)
  moreover have "store_bytes q bs m' = store_bytes q (bs @ [m (p + n)]) m" if "length bs = n" for bs
    using that by (auto simp: m'_def store_bytes_def fun_eq_iff nth_append)
  moreover have "rep_movsb_down n (p + n - 1) (q + n - 1) m' = store_bytes q (bytes_at m' p n) m'"
    using Suc by auto
  ultimately show ?case by (simp add: m'_def [symmetric] bytes_at_snoc)
qed simp

lemma rep_movsl_copies:
  "q \<le> p \<or> p + 4 * n \<le> q \<Longrightarrow> rep_movsl n p q m = store_bytes q (bytes_at m p (4 * n)) m"
proof (induction n arbitrary: p q m)
  case (Suc n)
  let ?m = "store_bytes q (bytes_at m p 4) m"
  have "rep_movsl n (p + 4) (q + 4) ?m = store_bytes (q + 4) (bytes_at ?m (p + 4) (4 * n)) ?m"
    using Suc.prems by (intro Suc.IH) auto
  also have "bytes_at ?m (p + 4) (4 * n) = bytes_at m (p + 4) (4 * n)"
    using Suc.prems by (intro bytes_at_store_disjoint) auto
  also have "store_bytes (q + 4) (bytes_at m (p + 4) (4 * n)) ?m = store_bytes q (bytes_at m p (4 + 4 * n)) m"
    by (simp add: bytes_at_add store_bytes_append)
  finally show ?case by simp
qed simp

lemma memcpy_copies:
  assumes "dst \<le> src \<or> src + n \<le> dst"
  shows "memcpy dst src n m = (dst, store_bytes dst (bytes_at m src n) m)"
proof -
  define k where "k = n div 4"
  define r where "r = n mod 4"
  have n: "n = 4 * k + r" by (simp add: k_def r_def)
  let ?m = "store_bytes dst (bytes_at m src (4 * k)) m"
  have "rep_movsl k src dst m = ?m" using assms n by (intro rep_movsl_copies) auto
  moreover have "rep_movsb r (src + 4 * k) (dst + 4 * k) ?m
      = store_bytes (dst + 4 * k) (bytes_at ?m (src + 4 * k) r) ?m"
    using assms n by (intro rep_movsb_copies) auto
  moreover have "bytes_at ?m (src + 4 * k) r = bytes_at m (src + 4 * k) r"
    using assms n by (intro bytes_at_store_disjoint) auto
  ultimately have "memcpy dst src n m
      = (dst, store_bytes (dst + 4 * k) (bytes_at m (src + 4 * k) r) ?m)"
    by (simp add: memcpy_def Let_def and_3 drop_bit_eq_div k_def r_def)
  then show ?thesis by (simp add: n bytes_at_add store_bytes_append)
qed

lemma memmove_copies: "memmove dst src n m = (dst, src \<le> dst, store_bytes dst (bytes_at m src n) m)"
  by (auto simp: memmove_def rep_movsb_copies rep_movsb_down_copies simp del: One_nat_def)

lemma long_bytes_fill: "c < 256 \<Longrightarrow> long_bytes (c * 0x01010101) = replicate 4 c"
proof -
  assume c: "c < 256"
  define w2 where "w2 = c + 256 * c"
  define w1 where "w1 = c + 256 * w2"
  define w where "w = c + 256 * w1"
  have g: "(c + 256 * x) div 256 = x" "(c + 256 * x) mod 256 = c" for x using c by simp_all
  have step: "w div 256 = w1" "w1 div 256 = w2" "w2 div 256 = c" "w mod 256 = c" "w1 mod 256 = c" "w2 mod 256 = c"
    by (simp_all only: w_def g, simp_all only: w1_def g, simp_all only: w2_def g)
  have "[0..<4] = [0, 1, 2, 3 :: nat]" by (simp add: upt_rec)
  moreover have "w div 256 ^ 2 = w div 256 div 256" "w div 256 ^ 3 = w div 256 div 256 div 256"
    by (simp_all add: power2_eq_square power3_eq_cube div_mult2_eq)
  ultimately have "long_bytes w = [c, c, c, c]" using c by (simp add: long_bytes_def step del: One_nat_def)
  moreover have "c * 0x01010101 = w" by (simp add: w_def w1_def w2_def)
  moreover have "replicate 4 c = [c, c, c, c]" by (simp add: numeral_eq_Suc)
  ultimately show ?thesis by (simp only:)
qed

lemma rep_stosl_fills:
  "long_bytes w = replicate 4 c \<Longrightarrow> rep_stosl w n q m = store_bytes q (replicate (4 * n) c) m"
  by (induction n arbitrary: q m) (simp_all add: store_bytes_append replicate_add)

lemma rep_stosb_fills: "rep_stosb w n q m = store_bytes q (replicate n (w mod 256)) m"
  by (induction n arbitrary: q m) (simp_all add: store_bytes_Cons)

lemma memset_fills: "memset dst c n m = (dst, store_bytes dst (replicate n (to_char c)) m)"
proof -
  have "to_char c * 0x01010101 = to_char c + 256 * (to_char c * 0x010101)" by simp
  then have "to_char c * 0x01010101 mod 256 = to_char c"
    by (simp only: mod_mult_self2 mod_less to_char_less)
  moreover have "replicate n (to_char c) = replicate (4 * (n div 4)) (to_char c) @ replicate (n mod 4) (to_char c)"
    by (simp flip: replicate_add)
  ultimately show ?thesis
    by (simp add: memset_def Let_def and_3 drop_bit_eq_div rep_stosl_fills [OF long_bytes_fill]
        rep_stosb_fills store_bytes_append)
qed

lemma memccpy_loop_copies:
  "q \<le> p \<or> p + n \<le> q \<Longrightarrow> memccpy_loop q p c n m =
     (let k = length (takeWhile (\<lambda>b. b \<noteq> c) (bytes_at m p n))
      in if k < n then (q + k + 1, store_bytes q (bytes_at m p (k + 1)) m)
         else (0, store_bytes q (bytes_at m p n) m))"
proof (induction n arbitrary: p q m)
  case (Suc n)
  let ?m = "m(q := m p)"
  have b: "bytes_at ?m (Suc p) k = bytes_at m (Suc p) k" if "k \<le> n" for k
    using Suc.prems that by (intro bytes_at_cong) auto
  have "Suc q \<le> Suc p \<or> Suc p + n \<le> Suc q" using Suc.prems by auto
  from Suc.IH [OF this, of ?m] show ?case
    by (simp add: bytes_at_Suc [of m p] store_bytes_Cons Let_def b Suc_leI del: fun_upd_apply)
qed simp

lemma memswap_swaps:
  "p + n \<le> q \<or> q + n \<le> p \<Longrightarrow>
   memswap p q n m = store_bytes p (bytes_at m q n) (store_bytes q (bytes_at m p n) m)"
proof (induction n arbitrary: p q m)
  case (Suc n)
  let ?m = "m(p := m q, q := m p)"
  have b: "bytes_at ?m (Suc q) n = bytes_at m (Suc q) n" "bytes_at ?m (Suc p) n = bytes_at m (Suc p) n"
    using Suc.prems by (auto intro!: bytes_at_cong)
  have "memswap p q (Suc n) m = memswap (Suc p) (Suc q) n ?m" by (simp add: Let_def)
  also have "\<dots> = store_bytes (Suc p) (bytes_at m (Suc q) n) (store_bytes (Suc q) (bytes_at m (Suc p) n) ?m)"
    using Suc.IH [of "Suc p" "Suc q" ?m] Suc.prems b by (auto simp del: fun_upd_apply)
  also have "\<dots> = store_bytes p (bytes_at m q (Suc n)) (store_bytes q (bytes_at m p (Suc n)) m)"
    using Suc.prems by (auto simp: store_bytes_def fun_eq_iff bytes_at_Suc nth_Cons')
  finally show ?case .
qed simp

subsection \<open>Searching and comparing\<close>

lemma memchr_loop_first:
  "memchr_loop p c n m = (let k = length (takeWhile (\<lambda>b. b \<noteq> c) (bytes_at m p n)) in if k < n then p + k else 0)"
  by (induction n arbitrary: p) (simp_all add: bytes_at_Suc Let_def)

lemma memrchr_loop_last:
  "memrchr_loop (p + n - 1) c n m =
    (let k = length (takeWhile (\<lambda>b. b \<noteq> c) (rev (bytes_at m p n))) in if k < n then p + n - 1 - k else 0)"
proof (induction n)
  case (Suc n)
  then show ?case by (cases n) (simp_all add: bytes_at_snoc Let_def)
qed simp

lemma memcmp_loop_eq:
  "memcmp_loop a b 0 n m =
    (let k = length (takeWhile (\<lambda>i. m (a + i) = m (b + i)) [0..<n])
     in if k < n then int (m (a + k)) - int (m (b + k)) else 0)"
proof (induction n arbitrary: a b)
  case (Suc n)
  have "[0..<Suc n] = 0 # map Suc [0..<n]" by (simp add: map_Suc_upt upt_conv_Cons)
  then show ?case using Suc [of "Suc a" "Suc b"]
    by (simp add: Let_def takeWhile_map comp_def)
qed simp

lemma memcmp_0_iff: "memcmp a b n m = 0 \<longleftrightarrow> bytes_at m a n = bytes_at m b n"
proof -
  have "memcmp_loop a b 0 n m = 0 \<longleftrightarrow> (\<forall>i<n. m (a + i) = m (b + i))"
  proof (induction n arbitrary: a b)
    case (Suc n)
    have "(\<forall>i<Suc n. m (a + i) = m (b + i)) \<longleftrightarrow> m a = m b \<and> (\<forall>i<n. m (Suc a + i) = m (Suc b + i))"
      by (metis Suc_less_eq add_Suc_shift add.right_neutral less_Suc_eq_0_disj)
    with Suc [of "Suc a" "Suc b"] show ?case by (simp add: Let_def)
  qed simp
  then show ?thesis by (simp add: memcmp_def bytes_at_eq_iff)
qed

definition occurs_at :: "nat \<Rightarrow> nat \<Rightarrow> nat \<Rightarrow> nat \<Rightarrow> memory \<Rightarrow> nat \<Rightarrow> bool" where
  "occurs_at y n x len m j \<longleftrightarrow> j + len \<le> n \<and> bytes_at m (y + j) len = bytes_at m x len"

definition first_occurrence :: "nat \<Rightarrow> nat \<Rightarrow> nat \<Rightarrow> nat \<Rightarrow> memory \<Rightarrow> nat" where
  "first_occurrence y n x len m =
     (if \<exists>j. occurs_at y n x len m j then y + (LEAST j. occurs_at y n x len m j) else 0)"

lemma first_occurrenceI:
  "occurs_at y n x len m j \<Longrightarrow> (\<And>i. i < j \<Longrightarrow> \<not> occurs_at y n x len m i) \<Longrightarrow> first_occurrence y n x len m = y + j"
  by (auto simp: first_occurrence_def intro!: Least_equality) (metis not_le)

lemma occurs_at_unfold:
  "2 \<le> len \<Longrightarrow> len \<le> n \<Longrightarrow> occurs_at y n x len m j \<longleftrightarrow> j \<le> n - len \<and> m x = m (y + j)
     \<and> m (x + 1) = m (y + j + 1) \<and> memcmp (x + 2) (y + j + 2) (len - 2) m = 0"
proof -
  assume l: "2 \<le> len" "len \<le> n"
  then obtain k where k: "len = Suc (Suc k)" by (metis One_nat_def Suc_1 Suc_le_D Suc_le_mono)
  then show ?thesis using l by (auto simp: occurs_at_def memcmp_0_iff bytes_at_Suc)
qed

lemma memmem_loop_first:
  assumes "2 \<le> len" "len \<le> n" "same = (m x = m (x + 1))" "\<And>i. i < j \<Longrightarrow> \<not> occurs_at y n x len m i"
  shows "memmem_loop same n len x y j m = first_occurrence y n x len m"
  using assms
proof (induction same n len x y j m rule: memmem_loop.induct)
  case (1 same n len x y j m)
  note occ = occurs_at_unfold [OF 1(3,4)]
  show ?case
  proof (cases "j \<le> n - len")
    case False
    then have "\<not> occurs_at y n x len m i" for i
      using 1(6) [of i] by (cases "i < j") (auto simp: occ)
    with False show ?thesis by (subst memmem_loop.simps) (simp add: first_occurrence_def)
  next
    case True
    consider (skip) "m (x + 1) \<noteq> m (y + j + 1)"
      | (hit) "occurs_at y n x len m j"
      | (miss) "m (x + 1) = m (y + j + 1)" "\<not> occurs_at y n x len m j" by auto
    then show ?thesis
    proof cases
      case skip
      have "\<not> occurs_at y n x len m i" if "i < j + stride_k same" for i
        using that 1(5) 1(6) [of i] skip by (auto simp: occ less_Suc_eq)
      with 1(1) [OF True skip 1(3-5)] show ?thesis
        using True skip by (subst memmem_loop.simps) simp
    next
      case hit
      with 1(6) first_occurrenceI [OF hit] show ?thesis
        using occ by (subst memmem_loop.simps) simp
    next
      case miss
      have "\<not> occurs_at y n x len m i" if "i < j + stride_l same" for i
        using that 1(5) 1(6) [of i] miss by (auto simp: occ less_Suc_eq)
      with 1(2) [OF True _ _ 1(3-5)] show ?thesis
        using True miss occ by (subst memmem_loop.simps) auto
    qed
  qed
qed

lemma memmem_byte_first: "memmem_byte x y n m = first_occurrence y n x 1 m"
proof (induction n arbitrary: y)
  case 0
  then show ?case by (simp add: first_occurrence_def occurs_at_def)
next
  case (Suc n)
  have occ: "occurs_at y n x 1 m j \<longleftrightarrow> j < n \<and> m (y + j) = m x" for y n j
    by (auto simp: occurs_at_def bytes_at_Suc)
  show ?case
  proof (cases "m y = m x")
    case True
    then show ?thesis using first_occurrenceI [of y "Suc n" x 1 m 0] by (simp add: occ del: One_nat_def)
  next
    case False
    have sh: "occurs_at y (Suc n) x 1 m j \<longleftrightarrow> (\<exists>i. j = Suc i \<and> occurs_at (Suc y) n x 1 m i)" for j
      using False by (cases j) (auto simp: occ simp del: One_nat_def)
    have "(LEAST j. occurs_at y (Suc n) x 1 m j) = Suc (LEAST i. occurs_at (Suc y) n x 1 m i)"
      if "occurs_at (Suc y) n x 1 m i" for i
      using that LeastI [of "occurs_at (Suc y) n x 1 m"]
      by (intro Least_equality) (auto simp: sh simp del: One_nat_def intro: Least_le)
    moreover have "memmem_byte x y (Suc n) m = first_occurrence (Suc y) n x 1 m"
      using Suc [of "Suc y"] False by simp
    ultimately show ?thesis by (auto simp: first_occurrence_def sh simp del: One_nat_def)
  qed
qed

subsection \<open>What the functions compute\<close>

text \<open>\<open>memmove\<close> moves the block whatever the overlap of the two zones: the destination holds the
  bytes the source held before the call and nothing else changes. The direction flag stays set when
  the copy ran downwards.\<close>

theorem memmove_moves_block:
  "memmove dst src n m = (dst, src \<le> dst, store_bytes dst (bytes_at m src n) m)"
  by (rule memmove_copies)

text \<open>the copies and fills by double words: \<open>memset\<close> stores the byte everywhere in the zone and only
  there; where the destination is not inside the source zone behind its start, \<open>memcpy\<close> is \<open>memmove\<close>
  and \<open>memccpy\<close> stops after the first byte looked for; \<open>memswap\<close> exchanges two disjoint zones.\<close>

theorem block_functions_copy_and_fill:
  "memset dst c n m = (dst, store_bytes dst (replicate n (to_char c)) m) \<and>
   (dst \<le> src \<or> src + n \<le> dst \<longrightarrow> memcpy dst src n m = (dst, store_bytes dst (bytes_at m src n) m)) \<and>
   (dst \<le> src \<or> src + n \<le> dst \<longrightarrow> memccpy dst src c n m =
      (let k = length (takeWhile (\<lambda>b. b \<noteq> to_char c) (bytes_at m src n))
       in if k < n then (dst + k + 1, store_bytes dst (bytes_at m src (k + 1)) m)
          else (0, store_bytes dst (bytes_at m src n) m))) \<and>
   (dst + n \<le> src \<or> src + n \<le> dst \<longrightarrow>
      bytes_at (memswap dst src n m) dst n = bytes_at m src n \<and>
      bytes_at (memswap dst src n m) src n = bytes_at m dst n)"
proof -
  have "bytes_at (memswap dst src n m) dst n = bytes_at m src n \<and>
      bytes_at (memswap dst src n m) src n = bytes_at m dst n" if "dst + n \<le> src \<or> src + n \<le> dst"
  proof -
    have "length (bytes_at m src n) = n" "length (bytes_at m dst n) = n" by simp_all
    then show ?thesis
      using that bytes_at_store_bytes [of dst "bytes_at m src n"] bytes_at_store_bytes [of src "bytes_at m dst n"]
      by (simp add: memswap_swaps bytes_at_store_disjoint disj_commute)
  qed
  then show ?thesis
    by (simp add: memset_fills memcpy_copies memccpy_def memccpy_loop_copies)
qed

theorem block_functions_copy_and_fill_witness:
  "memcpy 10 20 7 (\<lambda>a. a mod 256) = (10, store_bytes 10 [20, 21, 22, 23, 24, 25, 26] (\<lambda>a. a mod 256)) \<and>
   memccpy 10 20 22 7 (\<lambda>a. a mod 256) = (13, store_bytes 10 [20, 21, 22] (\<lambda>a. a mod 256)) \<and>
   bytes_at (memswap 10 20 2 (\<lambda>a. a mod 256)) 10 2 = [20, 21]"
proof -
  have b: "bytes_at (\<lambda>a. a mod 256) 20 7 = [20, 21, 22, 23, 24, 25, 26]"
    "bytes_at (\<lambda>a. a mod 256) 20 (Suc (Suc (Suc 0))) = [20, 21, 22]" "bytes_at (\<lambda>a. a mod 256) 20 2 = [20, 21]"
    by (simp_all add: bytes_at_def upt_rec)
  show ?thesis
    using block_functions_copy_and_fill [of 10 22 7 "\<lambda>a. a mod 256" 20]
      block_functions_copy_and_fill [of 10 22 2 "\<lambda>a. a mod 256" 20]
    by (simp add: b to_char_def Let_def)
qed

text \<open>C35: the Not So Naive search of \<open>memmem\<close> returns the first occurrence of a non-empty needle, or
  \<open>NULL\<close> where there is none, although its strides skip positions.\<close>

theorem memmem_finds_first:
  assumes "0 < len"
  shows "memmem haystack n needle len m =
    (if \<exists>j. j + len \<le> n \<and> bytes_at m (haystack + j) len = bytes_at m needle len
     then haystack + (LEAST j. j + len \<le> n \<and> bytes_at m (haystack + j) len = bytes_at m needle len)
     else 0)"
proof -
  have "memmem haystack n needle len m = first_occurrence haystack n needle len m"
  proof (cases "len > n")
    case True
    then show ?thesis by (auto simp: memmem_def first_occurrence_def occurs_at_def)
  next
    case False
    then show ?thesis
      using assms memmem_loop_first [of len n _ m needle 0 haystack]
      by (auto simp: memmem_def memmem_byte_first)
  qed
  then show ?thesis by (simp only: first_occurrence_def occurs_at_def)
qed

theorem memmem_finds_first_witness:
  "memmem 100 6 50 3 (store_bytes 100 [97, 97, 97, 98, 97, 98] (store_bytes 50 [97, 97, 98] (\<lambda>_. 0))) = 101"
proof -
  let ?m = "store_bytes 100 [97, 97, 97, 98, 97, 98] (store_bytes 50 [97, 97, 98] (\<lambda>_. 0))"
  let ?occ = "\<lambda>j. j + 3 \<le> (6 :: nat) \<and> bytes_at ?m (100 + j) 3 = bytes_at ?m 50 3"
  have b: "bytes_at ?m a 3 = [?m a, ?m (a + 1), ?m (a + 2)]" for a
    by (simp add: numeral_3_eq_3 bytes_at_Suc)
  have "\<not> ?occ 0" "?occ 1" by (simp_all only: b) (simp_all add: store_bytes_def)
  have "1 \<le> j" if "?occ j" for j using \<open>\<not> ?occ 0\<close> that by (cases j) auto
  with \<open>?occ 1\<close> have l: "(LEAST j. ?occ j) = 1" by (intro Least_equality) blast+
  have "memmem 100 6 50 3 ?m = (if \<exists>j. ?occ j then 100 + (LEAST j. ?occ j) else 0)"
    by (rule memmem_finds_first) simp
  also have "\<dots> = 100 + (LEAST j. ?occ j)"
    by (rule if_P, rule exI [of ?occ 1], rule \<open>?occ 1\<close>)
  finally show ?thesis unfolding l by simp
qed

text \<open>\<open>memchr\<close> and \<open>memrchr\<close> return the first and the last position of the byte in the zone, \<open>memcmp\<close>
  the difference at the first position where the zones differ.\<close>

theorem byte_searches:
  "memchr s c n m =
     (let k = length (takeWhile (\<lambda>b. b \<noteq> to_char c) (bytes_at m s n)) in if k < n then s + k else 0) \<and>
   memrchr s c n m =
     (let k = length (takeWhile (\<lambda>b. b \<noteq> to_char c) (rev (bytes_at m s n))) in if k < n then s + n - 1 - k else 0) \<and>
   memcmp s s' n m =
     (let k = length (takeWhile (\<lambda>i. m (s + i) = m (s' + i)) [0..<n])
      in if k < n then int (m (s + k)) - int (m (s' + k)) else 0)"
  by (simp only: memchr_def memrchr_def memcmp_def memchr_loop_first memrchr_loop_last memcmp_loop_eq simp_thms)

end
