(* ===== verification/Allocator.thy ===== *)
theory Allocator
  imports Kmem
begin

text \<open>
  The part of \<^verbatim>\<open>shared/malloc.c.h\<close> that belongs to the program: \<open>sbrk\<close> at its beginning, from which the allocator
  takes memory, and the defensive wrapper at its end, through which the kernel and the user programs call it. The
  allocator between them is third-party code: its entry points \<open>public_mALLOc\<close> and \<open>public_fREe\<close> are parameters.

  A block is framed by two words before and two behind the zone that the caller gets. \<open>None\<close> is \<open>mem_bug\<close>, which
  prints a message and writes to address 0; the first page is protected (\<^verbatim>\<open>kernel/crt0.S\<close>), so it does not
  return.
\<close>

subsection \<open>The break\<close>

text \<open>Addresses are compared as unsigned numbers; \<open>s + diff\<close> wraps at 32 bits. The result is the old break or -1.\<close>

definition sbrk :: "nat \<Rightarrow> int \<Rightarrow> nat \<Rightarrow> nat \<times> nat" where
  "sbrk mem_heap_end diff curptr =
     (let s = curptr; c = nat ((int s + diff) mod 2 ^ 32)
      in if c < curptr \<or> c > mem_heap_end then (2 ^ 32 - 1, curptr) else (s, c))"

subsection \<open>The wrapper\<close>

text \<open>The number of words of a block, with its frame, and the address of a word of it.\<close>

definition block_words :: "32 word \<Rightarrow> 32 word" where
  "block_words n = (n + 4 - 1) div 4 + 4"

definition word_addr :: "nat \<Rightarrow> 32 word \<Rightarrow> nat" where
  "word_addr p i = unat (of_nat p + 4 * i)"

definition store_word :: "nat \<Rightarrow> 32 word \<Rightarrow> memory \<Rightarrow> memory" where
  "store_word a w m = store_bytes a (word_bytes w) m"

definition mem_alloc :: "(32 word \<Rightarrow> memory \<Rightarrow> nat \<times> memory) \<Rightarrow> 32 word \<Rightarrow> memory \<Rightarrow> nat \<times> memory" where
  "mem_alloc public_mALLOc n m =
     (let l = block_words n; l2 = l * 4
      in if n = 0 then (0, m)
         else if l2 \<le> n then (0, m)
         else
           (let (p, m) = public_mALLOc l2 m
            in if p = 0 then (0, m)
               else
                 (let m = store_word p n m;
                      m = store_word (word_addr p 1) 0xa51234ab m;
                      m = store_word (word_addr p (l - 2)) 0xdeadfedc m;
                      m = store_word (word_addr p (l - 1)) (of_nat p) m;
                      p = word_addr p 2
                  in (p, snd (memset p 0 (unat (l2 - 4 * 4)) m)))))"

definition mem_bug :: "memory option" where
  "mem_bug = None"

definition mem_free :: "(nat \<Rightarrow> memory \<Rightarrow> memory) \<Rightarrow> nat \<Rightarrow> 32 word \<Rightarrow> memory \<Rightarrow> memory option" where
  "mem_free public_fREe zone n m =
     (let l = block_words n; p = word_addr zone (- 2)
      in if n = 0 then Some m
         else if word_at m (word_addr p 1) \<noteq> 0xa51234ab then mem_bug
         else if word_at m p \<noteq> n then mem_bug
         else if word_at m (word_addr p (l - 2)) \<noteq> 0xdeadfedc then mem_bug
         else if word_at m (word_addr p (l - 1)) \<noteq> of_nat p then mem_bug
         else Some (public_fREe p (snd (memset p 0 (unat (l * 4)) m))))"

definition mem_free_nolength :: "(nat \<Rightarrow> memory \<Rightarrow> memory) \<Rightarrow> nat \<Rightarrow> memory \<Rightarrow> memory option" where
  "mem_free_nolength public_fREe zone m = mem_free public_fREe zone (word_at m (word_addr zone (- 2))) m"

subsection \<open>Sizes\<close>

text \<open>The guard against overflow is exact: a request is refused just when the block with its frame would not fit into
  32 bits, and otherwise the block has the size computed without wrap-around.\<close>

lemma block_size:
  assumes "0 < unat n" "unat n \<le> 2 ^ 32 - 20"
  shows "unat (block_words n) = (unat n + 3) div 4 + 4" "unat (block_words n * 4) = 4 * ((unat n + 3) div 4) + 16"
proof -
  have n3: "unat (n + 4 - 1) = unat n + 3"
    using assms(2) by (simp add: unat_word_ariths)
  then have d: "unat ((n + 4 - 1) div 4) = (unat n + 3) div 4" by (simp add: unat_div)
  have "(unat n + 3) div 4 < 2 ^ 30" using assms(2) by simp
  then show w: "unat (block_words n) = (unat n + 3) div 4 + 4"
    using d unfolding block_words_def by (simp add: unat_word_ariths)
  have "4 * ((unat n + 3) div 4) + 16 < 2 ^ 32" using assms(2) by simp
  then show "unat (block_words n * 4) = 4 * ((unat n + 3) div 4) + 16"
    using w by (simp add: unat_word_ariths)
qed

lemma refused_iff: "n \<noteq> 0 \<Longrightarrow> block_words n * 4 \<le> n \<longleftrightarrow> 2 ^ 32 - 20 < unat n"
proof -
  assume n: "n \<noteq> 0"
  show "block_words n * 4 \<le> n \<longleftrightarrow> 2 ^ 32 - 20 < unat n"
  proof (cases "unat n \<le> 2 ^ 32 - 20")
    case True
    have "0 < unat n" using n unat_gt_0 by blast
    from block_size(2) [OF this True] have "unat n < unat (block_words n * 4)" by presburger
    then show ?thesis using True by (simp add: word_le_nat_alt)
  next
    case False
    have k: "unat n < 2 ^ 32" by (rule unat_bound)
    have n3: "n + 4 - 1 = n + 3" by simp
    have "unat (block_words n * 4) \<le> 16"
    proof (cases "unat n + 3 < 2 ^ 32")
      case fits: True
      then have "unat ((n + 3) div 4) = (unat n + 3) div 4" by (simp add: unat_word_ariths unat_div)
      moreover have "2 ^ 30 - 4 \<le> (unat n + 3) div 4" "(unat n + 3) div 4 < 2 ^ 30" using False fits by simp_all
      ultimately have q: "unat ((n + 3) div 4) = 2 ^ 30 - 4 + (unat ((n + 3) div 4) - (2 ^ 30 - 4))"
        "unat ((n + 3) div 4) - (2 ^ 30 - 4) < 4" by simp_all
      define q where "q = unat ((n + 3) div 4) - (2 ^ 30 - 4)"
      have q: "unat ((n + 3) div 4) = 2 ^ 30 - 4 + q" "q < 4" using q by (simp_all only: q_def)
      then show ?thesis unfolding block_words_def n3 by (simp add: unat_word_ariths)
    next
      case wraps: False
      then have "unat (n + 3) < 4" using k by (simp add: unat_word_ariths le_mod_geq)
      then have "unat ((n + 3) div 4) = 0" by (simp add: unat_div)
      then show ?thesis unfolding block_words_def n3 by (simp add: unat_word_ariths)
    qed
    then show ?thesis using False by (simp add: word_le_nat_alt)
  qed
qed

subsection \<open>Frames\<close>

text \<open>The zone of a request, rounded up to whole words, and the frame of the block at \<open>p\<close>.\<close>

definition zone_size :: "32 word \<Rightarrow> nat" where
  "zone_size n = 4 * ((unat n + 3) div 4)"

definition framed :: "32 word \<Rightarrow> nat \<Rightarrow> memory \<Rightarrow> bool" where
  "framed n p m \<longleftrightarrow> word_at m p = n \<and> word_at m (p + 4) = 0xa51234ab
     \<and> word_at m (p + 8 + zone_size n) = 0xdeadfedc \<and> word_at m (p + 12 + zone_size n) = of_nat p"

lemma zone_size_covers: "unat n \<le> zone_size n" "zone_size n < unat n + 4"
  by (simp_all add: zone_size_def)

lemma word_addr_small: "p + 4 * unat i < 2 ^ 32 \<Longrightarrow> word_addr p i = p + 4 * unat i"
  unfolding word_addr_def by (simp add: unat_word_ariths unat_of_nat)

lemma block_addresses:
  assumes "0 < unat n" "unat n \<le> 2 ^ 32 - 20" "p + zone_size n + 16 \<le> 2 ^ 32"
  shows "word_addr p 1 = p + 4" "word_addr p 2 = p + 8" "word_addr (p + 8) (- 2) = p"
    "word_addr p (block_words n - 2) = p + 8 + zone_size n" "word_addr p (block_words n - 1) = p + 12 + zone_size n"
    "unat (block_words n * 4) = zone_size n + 16" "unat (block_words n * 4 - 4 * 4) = zone_size n"
proof -
  note w = block_size [OF assms(1,2)]
  show l2: "unat (block_words n * 4) = zone_size n + 16" using w(2) by (simp add: zone_size_def)
  have "(4 * 4 :: 32 word) \<le> block_words n * 4" using l2 by (simp add: word_le_nat_alt)
  then show "unat (block_words n * 4 - 4 * 4) = zone_size n" using l2 by (simp add: unat_sub)
  have "unat (block_words n - 2) = unat (block_words n) - 2" "unat (block_words n - 1) = unat (block_words n) - 1"
    using w(1) by (simp_all add: unat_sub word_le_nat_alt)
  then have i: "4 * unat (block_words n - 2) = zone_size n + 8" "4 * unat (block_words n - 1) = zone_size n + 12"
    using w(1) by (simp_all add: zone_size_def)
  then show "word_addr p (block_words n - 2) = p + 8 + zone_size n" "word_addr p (block_words n - 1) = p + 12 + zone_size n"
    using word_addr_small [of p "block_words n - 2"] word_addr_small [of p "block_words n - 1"] assms(3) by simp_all
  show "word_addr p 1 = p + 4" "word_addr p 2 = p + 8"
    using word_addr_small [of p 1] word_addr_small [of p 2] assms(3) by simp_all
  have "of_nat (p + 8) + 4 * (- 2) = (of_nat p :: 32 word)" by simp
  then show "word_addr (p + 8) (- 2) = p" unfolding word_addr_def using assms(3) by (simp only: unat_of_nat) simp
qed

lemma mem_alloc_block:
  assumes "n \<noteq> 0" "unat n \<le> 2 ^ 32 - 20" "public_mALLOc (block_words n * 4) m = (p, m1)" "p \<noteq> 0"
    and "p + zone_size n + 16 \<le> 2 ^ 32"
  obtains m2 where "mem_alloc public_mALLOc n m = (p + 8, m2)" "framed n p m2"
    "bytes_at m2 (p + 8) (zone_size n) = replicate (zone_size n) 0"
    "\<And>a. a < p \<or> p + zone_size n + 16 \<le> a \<Longrightarrow> m2 a = m1 a"
proof -
  have n: "0 < unat n" using assms(1) unat_gt_0 by blast
  note addr = block_addresses [OF n assms(2,5)]
  define m2 where "m2 = store_bytes (p + 8) (replicate (zone_size n) 0) (store_word (p + 12 + zone_size n) (of_nat p)
    (store_word (p + 8 + zone_size n) 0xdeadfedc (store_word (p + 4) 0xa51234ab (store_word p n m1))))"
  have "\<not> block_words n * 4 \<le> n" using refused_iff [OF assms(1)] assms(2) by simp
  then have "mem_alloc public_mALLOc n m = (p + 8, m2)"
    unfolding mem_alloc_def Let_def addr assms(3) using assms(1,4)
    by (simp add: memset_fills addr m2_def Kmem.to_char_def)
  moreover have "framed n p m2" by (simp add: framed_def m2_def store_word_def)
  moreover have "bytes_at m2 (p + 8) (zone_size n) = replicate (zone_size n) 0"
    unfolding m2_def by (metis bytes_at_store_bytes length_replicate)
  moreover have "m2 a = m1 a" if "a < p \<or> p + zone_size n + 16 \<le> a" for a
    using that by (auto simp: m2_def store_word_def)
  ultimately show ?thesis using that by blast
qed

lemma mem_free_block:
  assumes "n \<noteq> 0" "unat n \<le> 2 ^ 32 - 20" "p + zone_size n + 16 \<le> 2 ^ 32"
  shows "mem_free public_fREe (p + 8) n m
    = (if framed n p m then Some (public_fREe p (store_bytes p (replicate (zone_size n + 16) 0) m)) else None)"
proof -
  have n: "0 < unat n" using assms(1) unat_gt_0 by blast
  note addr = block_addresses [OF n assms(2,3)]
  show ?thesis
    unfolding mem_free_def Let_def addr using assms(1)
    by (simp add: memset_fills framed_def mem_bug_def Kmem.to_char_def)
qed

subsection \<open>The contract of the wrapper\<close>

text \<open>The break never moves back and never passes the end of the heap, and a refused request leaves it alone.\<close>

lemma sbrk_bounds:
  assumes "curptr \<le> mem_heap_end" "mem_heap_end < 2 ^ 32"
  shows "case sbrk mem_heap_end diff curptr of (r, c) \<Rightarrow> curptr \<le> c \<and> c \<le> mem_heap_end \<and> (r = curptr \<or> r = 2 ^ 32 - 1 \<and> c = curptr)"
  using assms by (simp add: sbrk_def Let_def)

lemma sbrk_extends:
  assumes "curptr + d \<le> mem_heap_end" "mem_heap_end < 2 ^ 32"
  shows "sbrk mem_heap_end (int d) curptr = (curptr, curptr + d)"
proof -
  have "(int curptr + int d) mod 2 ^ 32 = int (curptr + d)" using assms by simp
  then show ?thesis using assms(1) by (simp only: sbrk_def Let_def nat_int) simp
qed

text \<open>A request that cannot be framed never reaches the allocator, whatever that is.\<close>

lemma mem_alloc_refuses: "n = 0 \<or> 2 ^ 32 - 20 < unat n \<Longrightarrow> mem_alloc public_mALLOc n m = (0, m)"
  using refused_iff [of n] by (auto simp: mem_alloc_def Let_def)

text \<open>The frame of the zone at \<open>zone\<close> reads the same in both memories.\<close>

definition frame_kept :: "32 word \<Rightarrow> nat \<Rightarrow> memory \<Rightarrow> memory \<Rightarrow> bool" where
  "frame_kept n zone m m' \<longleftrightarrow> (\<forall>a \<in> {zone - 8, zone - 4, zone + zone_size n, zone + zone_size n + 4}. word_at m' a = word_at m a)"

lemma frame_kept_iff: "framed n p m \<Longrightarrow> frame_kept n (p + 8) m m' \<longleftrightarrow> framed n p m'"
  unfolding frame_kept_def framed_def by (simp add: add.commute add.left_commute)

text \<open>C36: An allocation that the wrapper grants gives a zone of at least the requested length filled with zeros, inside
  the block that the allocator gave; freeing it with its length, later and in any memory, fails exactly when one of
  the four words around the zone was changed, and otherwise clears the block and gives it back to the allocator; and
  freeing it without its length is then the same. The allocator is arbitrary: only its block must not leave the
  address space.\<close>

theorem mem_alloc_free:
  assumes block: "\<And>p m0. public_mALLOc (block_words n * 4) m = (p, m0) \<Longrightarrow> p + unat (block_words n * 4) \<le> 2 ^ 32"
    and alloc: "mem_alloc public_mALLOc n m = (zone, m1)" "zone \<noteq> 0"
  shows "fst (public_mALLOc (block_words n * 4) m) = zone - 8 \<and> unat n \<le> zone_size n
    \<and> zone_size n + 16 = unat (block_words n * 4)
    \<and> bytes_at m1 zone (zone_size n) = replicate (zone_size n) 0
    \<and> (\<forall>a. a < zone - 8 \<or> zone + zone_size n + 8 \<le> a \<longrightarrow> m1 a = snd (public_mALLOc (block_words n * 4) m) a)
    \<and> (\<forall>m2. mem_free public_fREe zone n m2
         = (if frame_kept n zone m1 m2
            then Some (public_fREe (zone - 8) (store_bytes (zone - 8) (replicate (zone_size n + 16) 0) m2)) else None))
    \<and> (\<forall>m2. frame_kept n zone m1 m2 \<longrightarrow> mem_free_nolength public_fREe zone m2 = mem_free public_fREe zone n m2)"
proof -
  obtain p m0 where p: "public_mALLOc (block_words n * 4) m = (p, m0)" by fastforce
  have n: "n \<noteq> 0" "unat n \<le> 2 ^ 32 - 20" using mem_alloc_refuses [of n public_mALLOc m] alloc by fastforce+
  then have n0: "0 < unat n" using unat_gt_0 by blast
  have p0: "p \<noteq> 0" using alloc p by (auto simp: mem_alloc_def Let_def split: if_splits)
  have size: "unat (block_words n * 4) = zone_size n + 16" using block_size(2) [OF n0 n(2)] by (simp add: zone_size_def)
  then have fits: "p + zone_size n + 16 \<le> 2 ^ 32" using block [OF p] by simp
  obtain m2 where m2: "mem_alloc public_mALLOc n m = (p + 8, m2)" "framed n p m2"
    "bytes_at m2 (p + 8) (zone_size n) = replicate (zone_size n) 0"
    "\<And>a. a < p \<or> p + zone_size n + 16 \<le> a \<Longrightarrow> m2 a = m0 a"
    using mem_alloc_block [of n public_mALLOc m p m0, OF n p p0 fits] by blast
  then have zone: "zone = p + 8" "m1 = m2" using alloc by simp_all
  note addr = block_addresses [OF n0 n(2) fits]
  have "mem_free_nolength public_fREe (p + 8) m3 = mem_free public_fREe (p + 8) n m3" if "framed n p m3" for m3
    using that by (simp add: mem_free_nolength_def addr framed_def)
  then show ?thesis
    unfolding zone frame_kept_iff [OF m2(2)] using m2 p size zone_size_covers(1) mem_free_block [OF n fits]
    by (simp add: add.commute add.left_commute)
qed

text \<open>An allocator that always gives the block at 4096: a request of five bytes.\<close>

theorem mem_alloc_free_witness:
  "unat (5 :: 32 word) \<le> zone_size 5
   \<and> (case mem_alloc (\<lambda>l m. (4096, m)) 5 (\<lambda>a. 7) of (zone, m1) \<Rightarrow> zone = 4104
        \<and> mem_free (\<lambda>p m. m) zone 5 m1 \<noteq> None \<and> mem_free (\<lambda>p m. m) zone 5 (store_word 4112 0 m1) = None)"
proof -
  obtain m1 where a: "mem_alloc (\<lambda>l m. (4096, m)) 5 (\<lambda>a. 7) = (4104, m1)"
    by (auto simp: mem_alloc_def Let_def block_words_def word_addr_def)
  have b: "unat (block_words 5 * 4) = 24" "zone_size 5 = 8" by (simp_all add: block_words_def zone_size_def)
  note t = mem_alloc_free [of "\<lambda>l m. (4096, m)" 5 "\<lambda>a. 7" 4104 m1 "\<lambda>p m. m", OF _ a]
  have f: "mem_free (\<lambda>p m. m) 4104 5 m2 = (if frame_kept 5 4104 m1 m2 then Some (store_bytes 4096 (replicate 24 0) m2) else None)" for m2
    using t b by simp
  have s: "frame_kept 5 4104 m1 m1" by (simp add: frame_kept_def)
  then have w: "word_at m1 4112 = 0xdeadfedc" using f [of m1]
    by (simp add: mem_free_def Let_def mem_bug_def word_addr_def block_words_def split: if_splits)
  then have "\<not> frame_kept 5 4104 m1 (store_word 4112 0 m1)" by (simp add: frame_kept_def b store_word_def)
  then show ?thesis using a b s t f by simp
qed

end
