(* ===== verification/Kstring.thy ===== *)
theory Kstring
  imports Kmem
begin

text \<open>
  The string functions of \<^verbatim>\<open>shared/string.c\<close> (\<open>strcat\<close> to \<open>strtok\<close>, and the helper \<open>__strxspn\<close>) on byte
  memory.

  A loop that runs to the end of a string is a \<open>partial_function\<close>: \<open>None\<close> is a loop that never ends
  because no zero byte stops it. The theorems show that every function returns on zero-terminated
  strings (\<open>cstring\<close>), and what it returns.
\<close>

subsection \<open>The functions\<close>

partial_function (option) strlen_loop :: "nat \<Rightarrow> memory \<Rightarrow> nat option" where
  "strlen_loop ss m = (if m ss \<noteq> 0 then strlen_loop (ss + 1) m else Some ss)"

definition strlen :: "nat \<Rightarrow> memory \<Rightarrow> nat option" where
  "strlen s m = do { ss \<leftarrow> strlen_loop s m; Some (ss - s) }"

partial_function (option) strchr_loop :: "nat \<Rightarrow> nat \<Rightarrow> memory \<Rightarrow> nat option" where
  "strchr_loop s c m =
     (if m s \<noteq> c then (if m s = 0 then Some 0 else strchr_loop (s + 1) c m) else Some s)"

definition strchr :: "nat \<Rightarrow> int \<Rightarrow> memory \<Rightarrow> nat option" where
  "strchr s c m = strchr_loop s (to_char c) m"

partial_function (option) strrchr_loop :: "nat \<Rightarrow> nat \<Rightarrow> nat \<Rightarrow> memory \<Rightarrow> nat option" where
  "strrchr_loop found s c m =
     (if m s \<noteq> 0 then strrchr_loop (if m s = c then s else found) (s + 1) c m else Some found)"

definition strrchr :: "nat \<Rightarrow> int \<Rightarrow> memory \<Rightarrow> nat option" where
  "strrchr s c m = strrchr_loop 0 s (to_char c) m"

partial_function (option) strcmp_loop :: "nat \<Rightarrow> nat \<Rightarrow> memory \<Rightarrow> int option" where
  "strcmp_loop c1 c2 m =
     (let ch = m c1; d = int ch - int (m c2)
      in if d \<noteq> 0 \<or> ch = 0 then Some d else strcmp_loop (c1 + 1) (c2 + 1) m)"

definition strcmp :: "nat \<Rightarrow> nat \<Rightarrow> memory \<Rightarrow> int option" where
  "strcmp s1 s2 m = strcmp_loop s1 s2 m"

partial_function (option) strcpy_loop :: "nat \<Rightarrow> nat \<Rightarrow> memory \<Rightarrow> memory option" where
  "strcpy_loop q p m =
     (let ch = m p; m = m(q := ch) in if ch \<noteq> 0 then strcpy_loop (q + 1) (p + 1) m else Some m)"

definition strcpy :: "nat \<Rightarrow> nat \<Rightarrow> memory \<Rightarrow> (nat \<times> memory) option" where
  "strcpy dst src m = do { m \<leftarrow> strcpy_loop dst src m; Some (dst, m) }"

definition strcat :: "nat \<Rightarrow> nat \<Rightarrow> memory \<Rightarrow> (nat \<times> memory) option" where
  "strcat dst src m = do { q \<leftarrow> strchr dst 0 m; (_, m) \<leftarrow> strcpy q src m; Some (dst, m) }"

fun strnlen_loop :: "nat \<Rightarrow> nat \<Rightarrow> memory \<Rightarrow> nat" where
  "strnlen_loop ss 0 m = ss"
| "strnlen_loop ss (Suc maxlen) m = (if m ss \<noteq> 0 then strnlen_loop (ss + 1) maxlen m else ss)"

definition strnlen :: "nat \<Rightarrow> nat \<Rightarrow> memory \<Rightarrow> nat" where
  "strnlen s maxlen m = strnlen_loop s maxlen m - s"

fun strncat_loop :: "nat \<Rightarrow> nat \<Rightarrow> nat \<Rightarrow> memory \<Rightarrow> memory" where
  "strncat_loop q p 0 m = m(q := 0)"
| "strncat_loop q p (Suc n) m =
     (let ch = m p; m = m(q := ch) in if ch = 0 then m else strncat_loop (q + 1) (p + 1) n m)"

definition strncat :: "nat \<Rightarrow> nat \<Rightarrow> nat \<Rightarrow> memory \<Rightarrow> (nat \<times> memory) option" where
  "strncat dst src n m = do { q \<leftarrow> strchr dst 0 m; Some (dst, strncat_loop q src n m) }"

text \<open>The first loop of \<open>strlcat\<close>, on the number \<open>sz - bytes\<close> of bytes left.\<close>

fun strlcat_skip :: "nat \<Rightarrow> nat \<Rightarrow> nat \<Rightarrow> memory \<Rightarrow> nat \<times> nat" where
  "strlcat_skip 0 q bytes m = (q, bytes)"
| "strlcat_skip (Suc left) q bytes m =
     (if m q \<noteq> 0 then strlcat_skip left (q + 1) (bytes + 1) m else (q, bytes))"

partial_function (option) strlcat_loop ::
  "nat \<Rightarrow> nat \<Rightarrow> nat \<Rightarrow> nat \<Rightarrow> memory \<Rightarrow> (nat \<times> nat \<times> memory) option" where
  "strlcat_loop q p bytes sz m =
     (let ch = m p
      in if ch = 0 then Some (q, bytes, m)
         else if bytes + 1 < sz then strlcat_loop (q + 1) (p + 1) (bytes + 1) sz (m(q := ch))
         else strlcat_loop q (p + 1) (bytes + 1) sz m)"

definition strlcat :: "nat \<Rightarrow> nat \<Rightarrow> nat \<Rightarrow> memory \<Rightarrow> (nat \<times> memory) option" where
  "strlcat dst src sz m =
     (let (q, bytes) = strlcat_skip sz dst 0 m
      in if bytes = sz then do { n \<leftarrow> strlen src m; Some (bytes + n, m) }
         else do { (q, bytes, m) \<leftarrow> strlcat_loop q src bytes sz m; Some (bytes, m(q := 0)) })"

fun strncmp_loop :: "nat \<Rightarrow> nat \<Rightarrow> int \<Rightarrow> nat \<Rightarrow> memory \<Rightarrow> int" where
  "strncmp_loop c1 c2 d 0 m = d"
| "strncmp_loop c1 c2 d (Suc n) m =
     (let ch = m c1; d = int ch - int (m c2)
      in if d \<noteq> 0 \<or> ch = 0 then d else strncmp_loop (c1 + 1) (c2 + 1) d n m)"

definition strncmp :: "nat \<Rightarrow> nat \<Rightarrow> nat \<Rightarrow> memory \<Rightarrow> int" where
  "strncmp s1 s2 n m = strncmp_loop s1 s2 0 n m"

fun strncpy_loop :: "nat \<Rightarrow> nat \<Rightarrow> nat \<Rightarrow> memory \<Rightarrow> nat \<times> nat \<times> memory" where
  "strncpy_loop q p 0 m = (q, 0, m)"
| "strncpy_loop q p (Suc n) m =
     (let ch = m p; m = m(q := ch) in if ch = 0 then (q + 1, n, m) else strncpy_loop (q + 1) (p + 1) n m)"

definition strncpy :: "nat \<Rightarrow> nat \<Rightarrow> nat \<Rightarrow> memory \<Rightarrow> nat \<times> memory" where
  "strncpy dst src n m = (let (q, n, m) = strncpy_loop dst src n m in (dst, snd (memset q 0 n m)))"

text \<open>\<open>__strxspn\<close>: the match map is an array of 256 entries, indexed by an unsigned character.\<close>

partial_function (option) matchmap_loop :: "nat \<Rightarrow> (nat \<Rightarrow> nat) \<Rightarrow> memory \<Rightarrow> (nat \<Rightarrow> nat) option" where
  "matchmap_loop p mm m = (if m p \<noteq> 0 then matchmap_loop (p + 1) (mm(m p := 1)) m else Some mm)"

partial_function (option) span_loop :: "nat \<Rightarrow> (nat \<Rightarrow> nat) \<Rightarrow> nat \<Rightarrow> nat \<Rightarrow> memory \<Rightarrow> nat option" where
  "span_loop s mm parity n m =
     (if xor (mm (m s)) parity \<noteq> 0 then span_loop (s + 1) mm parity (n + 1) m else Some n)"

definition strxspn :: "nat \<Rightarrow> nat \<Rightarrow> nat \<Rightarrow> memory \<Rightarrow> nat option" where
  "strxspn s charmap parity m = do {
     mm \<leftarrow> matchmap_loop charmap (\<lambda>_. 0) m;
     span_loop s (mm(0 := parity)) parity 0 m
   }"

definition strcspn :: "nat \<Rightarrow> nat \<Rightarrow> memory \<Rightarrow> nat option" where
  "strcspn s reject m = strxspn s reject 1 m"

definition strspn :: "nat \<Rightarrow> nat \<Rightarrow> memory \<Rightarrow> nat option" where
  "strspn s accept m = strxspn s accept 0 m"

definition strpbrk :: "nat \<Rightarrow> nat \<Rightarrow> memory \<Rightarrow> nat option" where
  "strpbrk s accept m = do {
     n \<leftarrow> strxspn s accept 1 m;
     let ss = s + n;
     Some (if m ss \<noteq> 0 then ss else 0)
   }"

text \<open>\<open>strsep\<close> takes the pointer stored at \<open>stringp\<close> and returns it with its new value.\<close>

definition strsep :: "nat \<Rightarrow> nat \<Rightarrow> memory \<Rightarrow> (nat \<times> nat \<times> memory) option" where
  "strsep stringp delim m =
     (let s = stringp
      in if s = 0 then Some (0, stringp, m)
         else do {
           e \<leftarrow> strpbrk s delim m;
           Some (if e \<noteq> 0 then (s, e + 1, m(e := 0)) else (s, 0, m))
         })"

definition strstr :: "nat \<Rightarrow> nat \<Rightarrow> memory \<Rightarrow> nat option" where
  "strstr haystack needle m = do {
     n \<leftarrow> strlen haystack m;
     l \<leftarrow> strlen needle m;
     Some (memmem haystack n needle l m)
   }"

text \<open>\<open>strtok\<close> keeps its position in the static variable \<open>holder\<close>.\<close>

definition strtok :: "nat \<Rightarrow> nat \<Rightarrow> nat \<Rightarrow> memory \<Rightarrow> (nat \<times> nat \<times> memory) option" where
  "strtok s delim holder m = (let holder = (if s \<noteq> 0 then s else holder) in strsep holder delim m)"

subsection \<open>Zero-terminated strings\<close>

fun cstring :: "memory \<Rightarrow> nat \<Rightarrow> nat list \<Rightarrow> bool" where
  "cstring m p [] \<longleftrightarrow> m p = 0"
| "cstring m p (c # s) \<longleftrightarrow> c \<noteq> 0 \<and> m p = c \<and> cstring m (Suc p) s"

lemma cstring_iff: "cstring m p s \<longleftrightarrow> 0 \<notin> set s \<and> bytes_at m p (Suc (length s)) = s @ [0]"
proof (induction s arbitrary: p)
  case (Cons c s)
  then show ?case by (auto simp: bytes_at_Suc [of m p])
qed (simp add: bytes_at_Suc)

lemma cstring_nonzero: "cstring m p s \<Longrightarrow> 0 \<notin> set s"
  by (simp add: cstring_iff)

lemma cstring_bytes: "cstring m p s \<Longrightarrow> bytes_at m p (length s) = s"
  by (simp add: cstring_iff bytes_at_snoc)

lemma cstring_end: "cstring m p s \<Longrightarrow> m (p + length s) = 0"
  by (simp add: cstring_iff bytes_at_snoc)

lemma cstring_cong:
  "(\<And>i. i \<le> length s \<Longrightarrow> m (p + i) = m' (p + i)) \<Longrightarrow> cstring m p s \<longleftrightarrow> cstring m' p s"
  using bytes_at_cong [of "Suc (length s)" m p m' p] by (simp add: cstring_iff)

lemma cstring_store: "0 \<notin> set s \<Longrightarrow> cstring (store_bytes p (s @ [0]) m) p s"
  using bytes_at_store_bytes [of p "s @ [0]" m] by (simp add: cstring_iff del: bytes_at_store_bytes)

lemma cstring_drop: "cstring m p s \<Longrightarrow> k \<le> length s \<Longrightarrow> cstring m (p + k) (drop k s)"
proof (induction s arbitrary: p k)
  case (Cons c s)
  then show ?case using Cons.IH [of "Suc p" "k - 1"] by (cases k) auto
qed simp

lemma cstring_unique: "cstring m p s \<Longrightarrow> cstring m p t \<Longrightarrow> s = t"
proof (induction s arbitrary: p t)
  case Nil
  then show ?case by (cases t) auto
next
  case (Cons c s)
  then show ?case by (cases t) auto
qed

subsection \<open>Loops over a string\<close>

lemma strlen_loop_end: "cstring m p s \<Longrightarrow> strlen_loop p m = Some (p + length s)"
  by (induction s arbitrary: p; subst strlen_loop.simps) auto

lemma strlen_length: "cstring m p s \<Longrightarrow> strlen p m = Some (length s)"
  by (simp add: strlen_def strlen_loop_end)

lemma strchr_loop_first:
  "cstring m p s \<Longrightarrow> strchr_loop p c m =
     Some (let k = length (takeWhile (\<lambda>b. b \<noteq> c) (s @ [0])) in if k \<le> length s then p + k else 0)"
proof (induction s arbitrary: p)
  case Nil
  then show ?case by (subst strchr_loop.simps) (auto simp: Let_def)
next
  case (Cons a s)
  then show ?case by (subst strchr_loop.simps) (auto simp: Let_def)
qed

lemma strchr_end: "cstring m p s \<Longrightarrow> strchr p 0 m = Some (p + length s)"
proof -
  assume s: "cstring m p s"
  have "takeWhile (\<lambda>b. b \<noteq> 0) (s @ [0]) = s"
    using cstring_nonzero [OF s] by (subst takeWhile_append2) (auto intro!: gr0I)
  then show ?thesis
    using strchr_loop_first [OF s, of 0] by (simp add: strchr_def to_char_def Let_def del: neq0_conv)
qed

lemma strrchr_loop_last:
  "cstring m p s \<Longrightarrow> strrchr_loop f p c m =
     Some (if c \<in> set s then p + length s - 1 - length (takeWhile (\<lambda>b. b \<noteq> c) (rev s)) else f)"
proof (induction s arbitrary: p f)
  case Nil
  then show ?case by (subst strrchr_loop.simps) simp
next
  case (Cons a s)
  have "length (takeWhile (\<lambda>b. b \<noteq> c) (rev s @ [a])) = length (takeWhile (\<lambda>b. b \<noteq> c) (rev s))" if "c \<in> set s"
    using that by (subst takeWhile_append1 [of c]) auto
  moreover have "takeWhile (\<lambda>b. b \<noteq> c) (rev s @ [c]) = rev s" if "c \<notin> set s"
    using that by (subst takeWhile_append2) auto
  ultimately show ?case using Cons by (subst strrchr_loop.simps) auto
qed

lemma strcpy_loop_copies:
  "cstring m p s \<Longrightarrow> q \<le> p \<or> p + length s < q \<Longrightarrow> strcpy_loop q p m = Some (store_bytes q (s @ [0]) m)"
proof (induction s arbitrary: p q m)
  case Nil
  then show ?case by (subst strcpy_loop.simps) (simp add: store_bytes_Cons)
next
  case (Cons a s)
  have "cstring (m(q := a)) (Suc p) s"
    using Cons.prems by (subst cstring_cong [of _ _ _ m]) auto
  moreover have "Suc q \<le> Suc p \<or> Suc p + length s < Suc q" using Cons.prems by auto
  ultimately show ?case
    using Cons.IH [of "m(q := a)" "Suc p" "Suc q"] Cons.prems
    by (subst strcpy_loop.simps) (simp add: store_bytes_Cons del: fun_upd_apply)
qed

lemma strnlen_loop_end:
  "cstring m p s \<Longrightarrow> strnlen_loop p n m = p + min n (length s)"
proof (induction n arbitrary: p s)
  case (Suc n)
  then show ?case by (cases s) auto
qed simp

lemma strncat_loop_copies:
  "cstring m p s \<Longrightarrow> q + min n (length s) < p \<or> p + length s < q \<Longrightarrow>
   strncat_loop q p n m = store_bytes q (take n s @ [0]) m"
proof (induction n arbitrary: p q s m)
  case 0
  then show ?case by (simp add: store_bytes_Cons)
next
  case (Suc n)
  show ?case
  proof (cases s)
    case Nil
    with Suc.prems show ?thesis by (simp add: Let_def store_bytes_Cons)
  next
    case (Cons a s')
    have "cstring (m(q := a)) (Suc p) s'"
      using Suc.prems Cons by (subst cstring_cong [of _ _ _ m]) auto
    moreover have "Suc q + min n (length s') < Suc p \<or> Suc p + length s' < Suc q"
      using Suc.prems Cons by auto
    ultimately show ?thesis
      using Suc.IH [of "m(q := a)" "Suc p" s' "Suc q"] Suc.prems Cons
      by (simp add: Let_def store_bytes_Cons del: fun_upd_apply)
  qed
qed

lemma strncpy_loop_copies:
  "cstring m p s \<Longrightarrow> q + n \<le> p \<or> p + length s < q \<Longrightarrow>
   strncpy_loop q p n m =
     (if length s < n then (q + Suc (length s), n - Suc (length s), store_bytes q (s @ [0]) m)
      else (q + n, 0, store_bytes q (take n s) m))"
proof (induction n arbitrary: p q s m)
  case (Suc n)
  show ?case
  proof (cases s)
    case Nil
    with Suc.prems show ?thesis by (simp add: Let_def store_bytes_Cons)
  next
    case (Cons a s')
    have "cstring (m(q := a)) (Suc p) s'"
      using Suc.prems Cons by (subst cstring_cong [of _ _ _ m]) auto
    moreover have "Suc q + n \<le> Suc p \<or> Suc p + length s' < Suc q"
      using Suc.prems Cons by auto
    ultimately show ?thesis
      using Suc.IH [of "m(q := a)" "Suc p" s' "Suc q"] Suc.prems Cons
      by (simp add: Let_def store_bytes_Cons del: fun_upd_apply)
  qed
qed simp

lemma strlcat_skip_end:
  "cstring m p s \<Longrightarrow> strlcat_skip left p k m = (p + min left (length s), k + min left (length s))"
proof (induction left arbitrary: p s k)
  case (Suc left)
  then show ?case by (cases s) auto
qed simp

lemma strlcat_loop_copies:
  "cstring m p s \<Longrightarrow> q + (sz - Suc k) < p \<or> p + length s < q \<Longrightarrow> k < sz \<Longrightarrow>
   strlcat_loop q p k sz m =
     (let t = take (sz - Suc k) s in Some (q + length t, k + length s, store_bytes q t m))"
proof (induction s arbitrary: p q k m)
  case Nil
  then show ?case by (subst strlcat_loop.simps) simp
next
  case (Cons a s)
  show ?case
  proof (cases "Suc k < sz")
    case True
    have "cstring (m(q := a)) (Suc p) s"
      using Cons.prems True by (subst cstring_cong [of _ _ _ m]) auto
    moreover have "Suc q + (sz - Suc (Suc k)) < Suc p \<or> Suc p + length s < Suc q"
      using Cons.prems True by auto
    moreover have "take (sz - Suc k) (a # s) = a # take (sz - Suc (Suc k)) s"
      using True by (cases "sz - Suc k") (auto simp: diff_Suc split: nat.splits)
    ultimately show ?thesis
      using Cons.IH [of "m(q := a)" "Suc p" "Suc q" "Suc k"] Cons.prems True
      by (subst strlcat_loop.simps) (simp add: Let_def store_bytes_Cons del: fun_upd_apply)
  next
    case False
    have skip: "strlcat_loop q p k sz m = Some (q, k + length s, m)"
      if "cstring m p s" "\<not> Suc k < sz" for p k s
      using that
    proof (induction s arbitrary: p k)
      case Nil
      then show ?case by (subst strlcat_loop.simps) simp
    next
      case (Cons b t)
      then show ?case using Cons.IH [of "Suc p" "Suc k"] by (subst strlcat_loop.simps) simp
    qed
    show ?thesis using skip [OF Cons.prems(1) False] False Cons.prems(3) by (simp add: Let_def)
  qed
qed

subsection \<open>Spans, comparison, tokens\<close>

lemma matchmap_loop_marks:
  "cstring m p s \<Longrightarrow> matchmap_loop p mm m = Some (\<lambda>c. if c \<in> set s then 1 else mm c)"
proof (induction s arbitrary: p mm)
  case Nil
  then show ?case by (subst matchmap_loop.simps) simp
next
  case (Cons a s)
  then show ?case using Cons.IH [of "Suc p" "mm(a := 1)"]
    by (subst matchmap_loop.simps) (auto simp: fun_eq_iff)
qed

lemma span_loop_length:
  "cstring m p s \<Longrightarrow> mm 0 = parity \<Longrightarrow>
   span_loop p mm parity n m = Some (n + length (takeWhile (\<lambda>c. xor (mm c) parity \<noteq> 0) s))"
  by (induction s arbitrary: p n; subst span_loop.simps) auto

lemma strxspn_span:
  assumes "cstring m p s" "cstring m d t"
  shows "strxspn p d 0 m = Some (length (takeWhile (\<lambda>c. c \<in> set t) s))"
    and "strxspn p d 1 m = Some (length (takeWhile (\<lambda>c. c \<notin> set t) s))"
proof -
  have nz: "0 < c" if "c \<in> set s" for c using cstring_nonzero [OF assms(1)] that by (metis gr0I)
  show "strxspn p d 0 m = Some (length (takeWhile (\<lambda>c. c \<in> set t) s))"
    using assms by (auto simp: strxspn_def matchmap_loop_marks span_loop_length nz
        intro!: arg_cong [where f = length] takeWhile_cong)
  show "strxspn p d 1 m = Some (length (takeWhile (\<lambda>c. c \<notin> set t) s))"
    using assms by (auto simp: strxspn_def matchmap_loop_marks span_loop_length nz
        intro!: arg_cong [where f = length] takeWhile_cong)
qed

lemma strpbrk_first:
  assumes "cstring m p s" "cstring m d t"
  shows "strpbrk p d m = Some (let k = length (takeWhile (\<lambda>c. c \<notin> set t) s) in if k < length s then p + k else 0)"
proof -
  define k where "k = length (takeWhile (\<lambda>c. c \<notin> set t) s)"
  have k: "k \<le> length s" by (simp add: k_def length_takeWhile_le)
  have "cstring m (p + k) (drop k s)" by (rule cstring_drop [OF assms(1) k])
  then have "m (p + k) \<noteq> 0 \<longleftrightarrow> drop k s \<noteq> []" by (cases "drop k s") auto
  then have "m (p + k) \<noteq> 0 \<longleftrightarrow> k < length s" using k by auto
  then show ?thesis
    using strxspn_span(2) [OF assms] by (simp add: strpbrk_def k_def [symmetric] Let_def)
qed

lemma strcmp_loop_sign:
  "cstring m p s \<Longrightarrow> cstring m q t \<Longrightarrow>
   \<exists>d. strcmp_loop p q m = Some d \<and> (d = 0 \<longleftrightarrow> s = t) \<and> (d < 0 \<longleftrightarrow> ord_class.lexordp s t)"
proof (induction s arbitrary: p q t)
  case Nil
  then show ?case by (cases t; subst strcmp_loop.simps) (auto simp: Let_def)
next
  case (Cons a s)
  show ?case
  proof (cases t)
    case Nil
    with Cons.prems show ?thesis by (subst strcmp_loop.simps) (auto simp: Let_def)
  next
    case (Cons b t')
    with Cons.prems Cons.IH [of "Suc p" "Suc q" t'] show ?thesis
      by (cases "a = b"; subst strcmp_loop.simps) (auto simp: Let_def)
  qed
qed

lemma strncmp_loop_strcmp:
  "cstring m p s \<Longrightarrow> cstring m q t \<Longrightarrow>
   (strncmp_loop p q 0 n m = 0 \<longleftrightarrow> take n s = take n t) \<and>
   (strncmp_loop p q 0 n m < 0 \<longleftrightarrow> ord_class.lexordp (take n s) (take n t))"
proof (induction n arbitrary: p q s t)
  case (Suc n)
  show ?case
  proof (cases s)
    case Nil
    with Suc.prems show ?thesis by (cases t) (auto simp: Let_def)
  next
    case (Cons a s')
    with Suc.prems Suc.IH [of "Suc p" s' "Suc q"] show ?thesis
      by (cases t) (auto simp: Let_def)
  qed
qed simp

text \<open>The fields of a string between delimiters, empty fields included.\<close>

fun fields :: "nat set \<Rightarrow> nat list \<Rightarrow> nat list list" where
  "fields D [] = [[]]"
| "fields D (c # s) = (if c \<in> D then [] # fields D s else (c # hd (fields D s)) # tl (fields D s))"

lemma fields_not_Nil [simp]: "fields D s \<noteq> []"
  by (cases s) auto

lemma fields_unfold:
  "fields D s = (let k = length (takeWhile (\<lambda>c. c \<notin> D) s)
     in take k s # (if k < length s then fields D (drop (Suc k) s) else []))"
  by (induction s) (auto simp: Let_def)

lemma strsep_takes_field:
  assumes "cstring m p s" "cstring m d t" "0 < p" "d + length t < p \<or> p + length s < d"
  defines "k \<equiv> length (takeWhile (\<lambda>c. c \<notin> set t) s)"
  shows "strsep p d m = Some (if k < length s then (p, p + k + 1, m(p + k := 0)) else (p, 0, m))"
  using strpbrk_first [OF assms(1,2)] assms(3) by (simp add: strsep_def k_def [symmetric] Let_def)

text \<open>A client that calls \<open>strtok\<close> \<open>n\<close> times, with the string first and with \<open>NULL\<close> after that.\<close>

primrec strtok_calls :: "nat \<Rightarrow> nat \<Rightarrow> nat \<Rightarrow> nat \<Rightarrow> memory \<Rightarrow> (nat list \<times> nat \<times> memory) option" where
  "strtok_calls 0 s delim holder m = Some ([], holder, m)"
| "strtok_calls (Suc n) s delim holder m = do {
     (r, holder, m) \<leftarrow> strtok s delim holder m;
     (rs, holder, m) \<leftarrow> strtok_calls n 0 delim holder m;
     Some (r # rs, holder, m)
   }"

lemma strtok_calls_fields:
  assumes "cstring m p s" "cstring m d t" "0 < p" "d + length t < p \<or> p + length s < d" "a = p \<or> a = 0 \<and> h = p"
  shows "\<exists>ps m'. strtok_calls (length (fields (set t) s)) a d h m = Some (ps, 0, m')
    \<and> list_all2 (cstring m') ps (fields (set t) s) \<and> (\<forall>x. x < p \<or> p + length s \<le> x \<longrightarrow> m' x = m x)"
  using assms
proof (induction "length s" arbitrary: m p s a h rule: less_induct)
  case less
  define k where "k = length (takeWhile (\<lambda>c. c \<notin> set t) s)"
  note sep = strsep_takes_field [OF less.prems(1-4), folded k_def]
  have tok: "strtok a d h m = strsep p d m" using less.prems(3,5) by (auto simp: strtok_def)
  show ?case
  proof (cases "k < length s")
    case False
    then have "fields (set t) s = [s]" by (subst fields_unfold) (simp add: k_def [symmetric] Let_def)
    then show ?thesis using sep tok False less.prems(1) by simp
  next
    case True
    define m1 where "m1 = m(p + k := 0)"
    let ?s = "drop (Suc k) s"
    have f: "fields (set t) s = take k s # fields (set t) ?s"
      using True by (subst fields_unfold) (simp add: k_def [symmetric] Let_def)
    have c: "cstring m (p + Suc k) ?s" using cstring_drop [OF less.prems(1), of "Suc k"] True by simp
    have c1: "cstring m1 (p + Suc k) ?s" using c by (subst cstring_cong [of _ _ _ m]) (auto simp: m1_def)
    have c2: "cstring m1 d t"
      using less.prems(2,4) True by (subst cstring_cong [of _ _ _ m]) (auto simp: m1_def)
    have l: "p + Suc k + length ?s = p + length s" "length ?s < length s" using True by auto
    then have c3: "d + length t < p + Suc k \<or> p + Suc k + length ?s < d" using less.prems(4) by auto
    obtain ps m' where
      rs: "strtok_calls (length (fields (set t) ?s)) 0 d (p + Suc k) m1 = Some (ps, 0, m')"
      "list_all2 (cstring m') ps (fields (set t) ?s)"
      "\<forall>x. x < p + Suc k \<or> p + Suc k + length ?s \<le> x \<longrightarrow> m' x = m1 x"
      using less.hyps [OF l(2) c1 c2 _ c3, of 0 "p + Suc k"] by auto
    have "bytes_at m' p k = take k s"
    proof (rule nth_equalityI)
      fix i assume "i < length (bytes_at m' p k)"
      then have i: "i < k" by simp
      have "m' (p + i) = m (p + i)" using rs(3) i True by (simp add: m1_def)
      also have "\<dots> = bytes_at m p (length s) ! i" using i True by simp
      finally show "bytes_at m' p k ! i = take k s ! i"
        using cstring_bytes [OF less.prems(1)] i by simp
    qed (use True in simp)
    moreover have "m' (p + k) = 0" using rs(3) by (simp add: m1_def)
    moreover have "0 \<notin> set (take k s)" using cstring_nonzero [OF less.prems(1)] by (auto dest: in_set_takeD)
    ultimately have "cstring m' p (take k s)" using True by (simp add: cstring_iff bytes_at_snoc)
    moreover have "strtok_calls (length (fields (set t) s)) a d h m = Some (p # ps, 0, m')"
      using rs(1) sep tok True by (simp add: f m1_def [symmetric])
    moreover have "\<forall>x. x < p \<or> p + length s \<le> x \<longrightarrow> m' x = m x" using rs(3) True by (auto simp: m1_def)
    ultimately show ?thesis using rs(2) f by auto
  qed
qed

subsection \<open>What the functions compute\<close>

text \<open>on zero-terminated strings the measuring and searching functions return, and give the length,
  the bounded length, the first and last position of a character, the first position of a substring,
  the length of the initial span inside or outside a character set and the first character of a set.\<close>

theorem string_searches:
  assumes "cstring m p s" "cstring m d t"
  shows "strlen p m = Some (length s) \<and> strnlen p n m = min n (length s) \<and>
    strchr p c m = Some (let k = length (takeWhile (\<lambda>b. b \<noteq> to_char c) (s @ [0])) in if k \<le> length s then p + k else 0) \<and>
    strrchr p c m = Some (if to_char c \<in> set s
      then p + length s - 1 - length (takeWhile (\<lambda>b. b \<noteq> to_char c) (rev s)) else 0) \<and>
    strstr p d m = Some (memmem p (length s) d (length t) m) \<and>
    strspn p d m = Some (length (takeWhile (\<lambda>b. b \<in> set t) s)) \<and>
    strcspn p d m = Some (length (takeWhile (\<lambda>b. b \<notin> set t) s)) \<and>
    strpbrk p d m = Some (let k = length (takeWhile (\<lambda>b. b \<notin> set t) s) in if k < length s then p + k else 0)"
  using strlen_length [OF assms(1)] strlen_length [OF assms(2)] strnlen_loop_end [OF assms(1), of n]
    strchr_loop_first [OF assms(1)] strrchr_loop_last [OF assms(1)] strxspn_span [OF assms] strpbrk_first [OF assms]
  by (simp add: strnlen_def strchr_def strrchr_def strstr_def strspn_def strcspn_def)

text \<open>A memory with two strings, for the instances: \<open>''a,b''\<close> at 100 and \<open>'',''\<close> at 200.\<close>

definition sample_strings :: memory where
  "sample_strings = store_bytes 100 [97, 44, 98, 0] (store_bytes 200 [44, 0] (\<lambda>_. 0))"

lemma sample_strings_cstring: "cstring sample_strings 100 [97, 44, 98]" "cstring sample_strings 200 [44]"
  by (simp_all add: sample_strings_def store_bytes_def)

theorem string_searches_witness:
  "strlen 100 sample_strings = Some 3 \<and> strchr 100 98 sample_strings = Some 102 \<and>
   strcspn 100 200 sample_strings = Some 1 \<and> strpbrk 100 200 sample_strings = Some 101"
  using string_searches [OF sample_strings_cstring, of 0 98] by (simp add: to_char_def Let_def)

text \<open>the copying functions return and leave the expected string at the destination, as long as the
  zone they write does not meet the source: \<open>strcpy\<close> and \<open>strcat\<close> the whole source, \<open>strncpy\<close> \<open>n\<close> bytes
  filled up with zeros, \<open>strncat\<close> at most \<open>n\<close> characters and a zero, \<open>strlcat\<close> as many as \<open>size\<close> allows,
  and \<open>strlcat\<close> returns the length it tried to create.\<close>

theorem string_copies:
  assumes "cstring m src s" "cstring m dst t" "src + length s < dst \<or> dst + length t + max n (length s) < src"
  shows "strcpy dst src m = Some (dst, store_bytes dst (s @ [0]) m) \<and>
    strcat dst src m = Some (dst, store_bytes (dst + length t) (s @ [0]) m) \<and>
    strncpy dst src n m = (dst, store_bytes dst (take n s @ replicate (n - length s) 0) m) \<and>
    strncat dst src n m = Some (dst, store_bytes (dst + length t) (take n s @ [0]) m) \<and>
    strlcat dst src n m = Some (min n (length t) + length s,
      if length t < n then store_bytes (dst + length t) (take (n - Suc (length t)) s @ [0]) m else m)"
proof (intro conjI)
  have sep: "dst + length t \<le> src \<or> src + length s < dst + length t" "dst \<le> src \<or> src + length s < dst"
    "dst + n \<le> src \<or> src + length s < dst"
    "dst + length t + min n (length s) < src \<or> src + length s < dst + length t"
    "dst + length t + (n - Suc (length t)) < src \<or> src + length s < dst + length t"
    using assms(3) by auto
  show "strcpy dst src m = Some (dst, store_bytes dst (s @ [0]) m)"
    using strcpy_loop_copies [OF assms(1) sep(2)] by (simp add: strcpy_def)
  show "strcat dst src m = Some (dst, store_bytes (dst + length t) (s @ [0]) m)"
    using strcpy_loop_copies [OF assms(1) sep(1)] strchr_end [OF assms(2)] by (simp add: strcat_def strcpy_def)
  have "Suc (length s) \<le> n \<Longrightarrow> replicate (n - length s) 0 = 0 # replicate (n - Suc (length s)) (0 :: nat)"
    by (metis Suc_diff_Suc Suc_le_lessD replicate_Suc)
  then show "strncpy dst src n m = (dst, store_bytes dst (take n s @ replicate (n - length s) 0) m)"
    using strncpy_loop_copies [OF assms(1) sep(3)]
    by (auto simp: strncpy_def memset_fills to_char_def store_bytes_append store_bytes_Cons)
  show "strncat dst src n m = Some (dst, store_bytes (dst + length t) (take n s @ [0]) m)"
    using strncat_loop_copies [OF assms(1) sep(4)] strchr_end [OF assms(2)] by (simp add: strncat_def)
  show "strlcat dst src n m = Some (min n (length t) + length s,
      if length t < n then store_bytes (dst + length t) (take (n - Suc (length t)) s @ [0]) m else m)"
    using strlcat_skip_end [OF assms(2), of n 0] strlcat_loop_copies [OF assms(1) sep(5)] strlen_length [OF assms(1)]
    by (auto simp: strlcat_def Let_def store_bytes_append store_bytes_Cons)
qed

theorem string_copies_witness:
  "strcpy 200 100 sample_strings = Some (200, store_bytes 200 [97, 44, 98, 0] sample_strings) \<and>
   strlcat 200 100 3 sample_strings = Some (4, store_bytes 201 [97, 0] sample_strings)"
  using string_copies [OF sample_strings_cstring, of 3] by simp

text \<open>\<open>strcmp\<close> returns, and its sign is the lexicographic comparison of the strings by unsigned
  characters; \<open>strncmp\<close> compares the first \<open>n\<close> characters in the same way.\<close>

theorem string_comparison:
  assumes "cstring m p s" "cstring m q t"
  shows "(\<exists>d. strcmp p q m = Some d \<and> (d = 0 \<longleftrightarrow> s = t) \<and> (d < 0 \<longleftrightarrow> ord_class.lexordp s t)) \<and>
    (strncmp p q n m = 0 \<longleftrightarrow> take n s = take n t) \<and>
    (strncmp p q n m < 0 \<longleftrightarrow> ord_class.lexordp (take n s) (take n t))"
  using strcmp_loop_sign [OF assms] strncmp_loop_strcmp [OF assms] by (simp add: strcmp_def strncmp_def)

theorem string_comparison_witness:
  "(\<exists>d. strcmp 200 100 sample_strings = Some d \<and> d < 0) \<and> strncmp 200 100 0 sample_strings = 0"
  using string_comparison [OF sample_strings_cstring(2,1), of 0] by auto

text \<open>successive calls of \<open>strtok\<close> return the fields of the string between the delimiters, in order
  and with the empty ones, each zero-terminated in place; after the last field the static pointer is
  \<open>NULL\<close>, and no byte outside the string changes.\<close>

theorem strtok_enumerates_fields:
  assumes "cstring m p s" "cstring m d t" "0 < p" "d + length t < p \<or> p + length s < d"
  shows "\<exists>ps m'. strtok_calls (length (fields (set t) s)) p d h m = Some (ps, 0, m')
    \<and> list_all2 (cstring m') ps (fields (set t) s) \<and> (\<forall>x. x < p \<or> p + length s \<le> x \<longrightarrow> m' x = m x)"
  by (rule strtok_calls_fields [OF assms]) simp

theorem strtok_enumerates_fields_witness:
  "\<exists>ps m'. strtok_calls 2 100 200 0 sample_strings = Some (ps, 0, m') \<and> list_all2 (cstring m') ps [[97], [98]]"
  using strtok_enumerates_fields [OF sample_strings_cstring, of 0] by (auto simp: numeral_2_eq_2)

end
