(* ===== verification/Numconv.thy ===== *)
theory Numconv
  imports Kstring Doprnt
begin

text \<open>
  Numbers: the conversions \<open>strtol\<close> and \<open>strtoul\<close> (\<^verbatim>\<open>shared/strtol.c\<close>, \<^verbatim>\<open>shared/strtoul.c\<close>) on byte memory
  and the 64-bit division of \<^verbatim>\<open>shared/div64.c\<close>.

  \<open>long\<close> and \<open>unsigned long\<close> are 32-bit words; the accumulation of digits wraps. A conversion returns the
  value and the address that it stores at \<open>out_p\<close> where the caller gave one; \<open>None\<close> is an endless run
  of spaces or digits.
\<close>

subsection \<open>String to number\<close>

definition isspace :: "nat \<Rightarrow> bool" where
  "isspace c \<longleftrightarrow> c = 32 \<or> c = 12 \<or> c = 10 \<or> c = 13 \<or> c = 9 \<or> c = 11"

partial_function (option) skip_spaces :: "nat \<Rightarrow> memory \<Rightarrow> nat option" where
  "skip_spaces p m = (if isspace (m p) then skip_spaces (p + 1) m else Some p)"

text \<open>The prefix \<open>0x\<close> and the choice of the base for the argument 0.\<close>

definition strto_base :: "nat \<Rightarrow> int \<Rightarrow> memory \<Rightarrow> nat \<times> int" where
  "strto_base p base m =
     (let (p, base) = (if (base = 16 \<or> base = 0) \<and> m p = 48 \<and> (m (p + 1) = 120 \<or> m (p + 1) = 88)
                       then (p + 2, 16) else (p, base));
          base = (if base = 0 then (if m p = 48 then 8 else 10) else base)
      in (p, base))"

definition strto_digit :: "nat \<Rightarrow> int \<Rightarrow> int option" where
  "strto_digit c base =
     (if c \<ge> 48 \<and> c \<le> 57 \<and> int c - 48 < base then Some (int c - 48)
      else if c \<ge> 97 \<and> c \<le> 122 \<and> int c - 97 + 10 < base then Some (int c - 97 + 10)
      else if c \<ge> 65 \<and> c \<le> 90 \<and> int c - 65 + 10 < base then Some (int c - 65 + 10)
      else None)"

partial_function (option) strto_loop :: "nat \<Rightarrow> 32 word \<Rightarrow> int \<Rightarrow> memory \<Rightarrow> (32 word \<times> nat) option" where
  "strto_loop p v base m =
     (case strto_digit (m p) base of
        Some d \<Rightarrow> strto_loop (p + 1) (v * of_int base + of_int d) base m
      | None \<Rightarrow> Some (v, p))"

definition strtol :: "nat \<Rightarrow> int \<Rightarrow> memory \<Rightarrow> (32 word \<times> nat) option" where
  "strtol p base m = do {
     p \<leftarrow> skip_spaces p m;
     let (is_neg, p) = (if m p = 45 then (True, p + 1) else (False, p));
     let (p, base) = strto_base p base m;
     (v, p) \<leftarrow> strto_loop p 0 base m;
     Some (if is_neg then - v else v, p)
   }"

definition strtoul :: "nat \<Rightarrow> int \<Rightarrow> memory \<Rightarrow> (32 word \<times> nat) option" where
  "strtoul p base m = do {
     p \<leftarrow> skip_spaces p m;
     let (p, base) = strto_base p base m;
     strto_loop p 0 base m
   }"

subsection \<open>Division of 64-bit numbers\<close>

text \<open>The instructions: \<open>bsr\<close> finds the highest bit set of a number that is not 0; the two shift sequences
  shift a double word right by 1 to 32 bits (\<open>shrd\<close> takes its count modulo 32, the case 32 is the
  move after \<open>testb\<close>); \<open>divl\<close> divides a double word by a word and faults (\<open>None\<close>) where the quotient does
  not fit.\<close>

fun hard_bsr :: "nat \<Rightarrow> nat" where
  "hard_bsr n = (if n < 2 then 0 else hard_bsr (n div 2) + 1)"

definition shrd :: "nat \<Rightarrow> nat \<Rightarrow> nat \<Rightarrow> nat" where
  "shrd hi lo n = (let k = n mod 32 in if k = 0 then lo else (lo div 2 ^ k + hi * 2 ^ (32 - k)) mod 2 ^ 32)"

definition rshift64 :: "nat \<Rightarrow> nat \<Rightarrow> nat \<Rightarrow> nat \<times> nat" where
  "rshift64 x1 x0 n =
     (let x0 = shrd x1 x0 n; x1 = x1 div 2 ^ (n mod 32) in if n div 32 mod 2 = 1 then (0, x1) else (x1, x0))"

definition rshift64_32 :: "nat \<Rightarrow> nat \<Rightarrow> nat \<Rightarrow> nat" where
  "rshift64_32 x1 x0 n = (let x0 = shrd x1 x0 n in if n div 32 mod 2 = 1 then x1 else x0)"

definition div64_32 :: "nat \<Rightarrow> nat \<Rightarrow> nat \<Rightarrow> (nat \<times> nat) option" where
  "div64_32 x1 x0 y =
     (let x = x1 * 2 ^ 32 + x0
      in if y = 0 \<or> x div y \<ge> 2 ^ 32 then None else Some (x mod y, x div y))"

fun div64_adjust :: "nat \<Rightarrow> nat \<Rightarrow> nat \<Rightarrow> nat \<times> nat" where
  "div64_adjust x0 r y = (if y \<le> r \<and> 0 < y then div64_adjust (u32_inc x0) (r - y) y else (x0, r))"

definition do_div64 :: "nat \<Rightarrow> nat \<Rightarrow> (nat \<times> nat) option" where
  "do_div64 x y =
     (let y1 = y div 2 ^ 32; y0 = y mod 2 ^ 32; x1 = x div 2 ^ 32; x0 = x mod 2 ^ 32
      in if y1 \<noteq> 0 then do {
           let l = hard_bsr y1 + 1;
           let y0 = rshift64_32 y1 y0 l;
           let (x1, x0) = rshift64 x1 x0 l;
           (_, x0) \<leftarrow> div64_32 x1 x0 (u32_inc y0);
           Some (div64_adjust x0 (nat ((int x - int y * int x0) mod 2 ^ 64)) y)
         }
         else if x1 < y0 then do { (x1, x0) \<leftarrow> div64_32 x1 x0 y0; Some (x0, x1) }
         else if y0 \<noteq> 0 then do {
           (x2, x1) \<leftarrow> div64_32 0 x1 y0;
           (x2, x0) \<leftarrow> div64_32 x2 x0 y0;
           Some (x1 * 2 ^ 32 + x0, x2)
         }
         else Some (0, x))"

definition div64 :: "nat \<Rightarrow> nat \<Rightarrow> nat option" where
  "div64 x y = map_option fst (do_div64 x y)"

definition mod64 :: "nat \<Rightarrow> nat \<Rightarrow> nat option" where
  "mod64 x y = map_option snd (do_div64 x y)"

declare hard_bsr.simps [simp del] div64_adjust.simps [simp del]

subsection \<open>Correctness of the division\<close>

lemma hard_bsr_bounds: "0 < n \<Longrightarrow> 2 ^ hard_bsr n \<le> n \<and> n < 2 ^ Suc (hard_bsr n)"
proof (induction n rule: hard_bsr.induct)
  case (1 n)
  show ?case
  proof (cases "n < 2")
    case False
    with 1 have "2 ^ hard_bsr (n div 2) \<le> n div 2 \<and> n div 2 < 2 ^ Suc (hard_bsr (n div 2))" by simp
    moreover have "hard_bsr n = Suc (hard_bsr (n div 2))" using False by (subst hard_bsr.simps) simp
    ultimately show ?thesis by auto
  qed (use 1 in \<open>auto simp: hard_bsr.simps\<close>)
qed

lemma rshift64_shifts:
  assumes "0 < n" "n \<le> 32" "x < 2 ^ 64"
  shows "rshift64 (x div 2 ^ 32) (x mod 2 ^ 32) n = (x div 2 ^ n div 2 ^ 32, x div 2 ^ n mod 2 ^ 32)"
    and "rshift64_32 (x div 2 ^ 32) (x mod 2 ^ 32) n = x div 2 ^ n mod 2 ^ 32"
proof -
  have hi: "x div 2 ^ 32 < 2 ^ 32" using assms(3) by (simp add: less_mult_imp_div_less)
  have swap: "x div 2 ^ 32 div 2 ^ n = x div 2 ^ n div 2 ^ 32" by (metis div_mult2_eq mult.commute)
  show "rshift64 (x div 2 ^ 32) (x mod 2 ^ 32) n = (x div 2 ^ n div 2 ^ 32, x div 2 ^ n mod 2 ^ 32)"
    "rshift64_32 (x div 2 ^ 32) (x mod 2 ^ 32) n = x div 2 ^ n mod 2 ^ 32"
  proof (atomize (full), cases "n = 32")
    case True
    then show "rshift64 (x div 2 ^ 32) (x mod 2 ^ 32) n = (x div 2 ^ n div 2 ^ 32, x div 2 ^ n mod 2 ^ 32)
      \<and> rshift64_32 (x div 2 ^ 32) (x mod 2 ^ 32) n = x div 2 ^ n mod 2 ^ 32"
      using hi by (simp add: rshift64_def rshift64_32_def)
  next
    case False
    with assms have n: "n < 32" "n mod 32 = n" "n div 32 = 0" by auto
    have "(2 :: nat) ^ 32 = 2 ^ (32 - n) * 2 ^ n" using n(1) by (simp flip: power_add)
    then have "x = x mod 2 ^ 32 + (x div 2 ^ 32 * 2 ^ (32 - n)) * 2 ^ n"
      by (metis mod_div_mult_eq mult.assoc)
    then have "x div 2 ^ n = (x mod 2 ^ 32 + (x div 2 ^ 32 * 2 ^ (32 - n)) * 2 ^ n) div 2 ^ n" by simp
    also have "\<dots> = x mod 2 ^ 32 div 2 ^ n + x div 2 ^ 32 * 2 ^ (32 - n)" by simp
    finally have "shrd (x div 2 ^ 32) (x mod 2 ^ 32) n = x div 2 ^ n mod 2 ^ 32"
      using assms(1) n(2) by (simp only: shrd_def Let_def) simp
    then show "rshift64 (x div 2 ^ 32) (x mod 2 ^ 32) n = (x div 2 ^ n div 2 ^ 32, x div 2 ^ n mod 2 ^ 32)
      \<and> rshift64_32 (x div 2 ^ 32) (x mod 2 ^ 32) n = x div 2 ^ n mod 2 ^ 32"
      using swap n by (simp add: rshift64_def rshift64_32_def Let_def)
  qed
qed

lemma div64_adjust_finishes:
  "0 < y \<Longrightarrow> q + r div y < 2 ^ 32 \<Longrightarrow> div64_adjust q r y = (q + r div y, r mod y)"
proof (induction q r y rule: div64_adjust.induct)
  case (1 q r y)
  show ?case
  proof (cases "y \<le> r")
    case True
    then have d: "r div y = Suc ((r - y) div y)" "(r - y) mod y = r mod y"
      using 1(2) by (simp_all add: le_div_geq le_mod_geq)
    then have "u32_inc q = Suc q" using 1(3) by simp
    with 1(1) True 1(2,3) d show ?thesis by (subst div64_adjust.simps) simp
  next
    case False
    then show ?thesis by (subst div64_adjust.simps) simp
  qed
qed

lemma div64_estimate:
  assumes "2 ^ 32 \<le> y" "y < 2 ^ 64" "x < (2 :: nat) ^ 64"
  defines "l \<equiv> hard_bsr (y div 2 ^ 32) + 1"
  shows "0 < l \<and> l \<le> 32 \<and> 2 ^ 31 \<le> y div 2 ^ l \<and> y div 2 ^ l < 2 ^ 32
    \<and> x div 2 ^ l div (y div 2 ^ l + 1) < 2 ^ 32 \<and> x div 2 ^ l div (y div 2 ^ l + 1) * y \<le> x"
proof -
  let ?y1 = "y div 2 ^ 32" and ?yy = "y div 2 ^ l"
  let ?q = "x div 2 ^ l div (?yy + 1)"
  have y1: "0 < ?y1" "?y1 < 2 ^ 32" using assms(1,2) by (simp_all add: div_greater_zero_iff less_mult_imp_div_less)
  have b: "2 ^ (l - 1) \<le> ?y1" "?y1 < 2 ^ l" using hard_bsr_bounds [OF y1(1)] by (simp_all add: l_def)
  have "(2 :: nat) ^ (l - 1) < 2 ^ 32" using b(1) y1(2) by linarith
  then have l: "0 < l" "l \<le> 32" using power_strict_increasing_iff [of "2 :: nat" "l - 1" 32] by (auto simp: l_def)
  have "y < 2 ^ l * 2 ^ 32" using b(2) by (simp add: div_less_iff_less_mult)
  then have hi: "?yy < 2 ^ 32" by (simp add: div_less_iff_less_mult mult.commute)
  have "2 ^ (l - 1) * 2 ^ 32 \<le> y" using b(1) by (simp add: less_eq_div_iff_mult_less_eq)
  moreover have "(2 :: nat) ^ (l - 1) * 2 ^ 32 = 2 ^ 31 * 2 ^ l"
    using l(1) by (cases l) auto
  ultimately have lo: "2 ^ 31 \<le> ?yy" by (simp add: less_eq_div_iff_mult_less_eq)
  have "(2 :: nat) ^ 64 \<le> 2 ^ 63 * 2 ^ l" using l(1) by (cases l) auto
  with assms(3) have "x div 2 ^ l < 2 ^ 63" by (simp add: div_less_iff_less_mult)
  also have "(2 :: nat) ^ 63 = 2 ^ 32 * 2 ^ 31" by simp
  also have "\<dots> \<le> 2 ^ 32 * (?yy + 1)" using lo by (intro mult_le_mono2) simp
  finally have q: "?q < 2 ^ 32" by (simp add: div_less_iff_less_mult)
  have "y < (?yy + 1) * 2 ^ l" using dividend_less_div_times [of "2 ^ l" y] by (simp add: algebra_simps)
  then have "?q * y \<le> ?q * ((?yy + 1) * 2 ^ l)" by (intro mult_le_mono2) simp
  also have "\<dots> = (?q * (?yy + 1)) * 2 ^ l" by (simp only: mult.assoc)
  also have "\<dots> \<le> x div 2 ^ l * 2 ^ l" by (intro mult_le_mono1 div_times_less_eq_dividend)
  also have "\<dots> \<le> x" by (rule div_times_less_eq_dividend)
  finally show ?thesis using l lo hi q by blast
qed

lemma do_div64_large:
  assumes "2 ^ 32 \<le> y" "y < 2 ^ 64" "x < (2 :: nat) ^ 64"
  shows "do_div64 x y = (if y div 2 ^ (hard_bsr (y div 2 ^ 32) + 1) = 2 ^ 32 - 1 then None
    else Some (x div y, x mod y))"
proof -
  define l where "l = hard_bsr (y div 2 ^ 32) + 1"
  define yy where "yy = y div 2 ^ l"
  define q where "q = x div 2 ^ l div (yy + 1)"
  note e = div64_estimate [OF assms, folded l_def, folded yy_def, folded q_def]
  have y1: "y div 2 ^ 32 \<noteq> 0" using assms(1) by (simp add: div_eq_0_iff)
  have inc: "u32_inc (rshift64_32 (y div 2 ^ 32) (y mod 2 ^ 32) l) = (yy + 1) mod 2 ^ 32"
    using rshift64_shifts(2) [of l y] e assms(2) by (simp add: u32_inc_def yy_def)
  have rs: "rshift64 (x div 2 ^ 32) (x mod 2 ^ 32) l = (x div 2 ^ l div 2 ^ 32, x div 2 ^ l mod 2 ^ 32)"
    using rshift64_shifts(1) [of l x] e assms(3) by blast
  have unfold: "do_div64 x y = Option.bind (div64_32 (x div 2 ^ l div 2 ^ 32) (x div 2 ^ l mod 2 ^ 32) ((yy + 1) mod 2 ^ 32))
      (\<lambda>(_, x0). Some (div64_adjust x0 (nat ((int x - int y * int x0) mod 2 ^ 64)) y))"
    by (simp only: do_div64_def Let_def l_def [symmetric] y1 rs inc case_prod_conv if_True simp_thms)
  show ?thesis
  proof (cases "yy = 2 ^ 32 - 1")
    case True
    then show ?thesis using unfold by (simp add: div64_32_def yy_def l_def)
  next
    case False
    with e have d: "(yy + 1) mod 2 ^ 32 = yy + 1" by auto
    have "x div 2 ^ l div 2 ^ 32 * 2 ^ 32 + x div 2 ^ l mod 2 ^ 32 = x div 2 ^ l" by (rule div_mult_mod_eq)
    then have "div64_32 (x div 2 ^ l div 2 ^ 32) (x div 2 ^ l mod 2 ^ 32) (yy + 1) = Some (x div 2 ^ l mod (yy + 1), q)"
      using e by (simp add: div64_32_def Let_def q_def)
    then have step: "do_div64 x y = Some (div64_adjust q (nat ((int x - int y * int q) mod 2 ^ 64)) y)"
      using unfold d by simp
    have qy: "q * y \<le> x" using e by simp
    have "int x - int y * int q = int (x - q * y)" using qy by (simp only: of_nat_diff of_nat_mult mult.commute)
    moreover have "int (x - q * y) mod 2 ^ 64 = int (x - q * y)" using assms(3) by (intro mod_pos_pos_trivial) auto
    ultimately have r: "nat ((int x - int y * int q) mod 2 ^ 64) = x - q * y" by (simp only: nat_int)
    have "y \<noteq> 0" using assms(1) by auto
    then have xq: "x div y = q + (x - q * y) div y" "x mod y = (x - q * y) mod y"
      using qy div_mult_self1 [of y "x - q * y" q] mod_mult_self1 [of "x - q * y" q y] by simp_all
    have "2 ^ 64 = (2 :: nat) ^ 32 * 2 ^ 32" by simp
    then have "x < 2 ^ 32 * y" using assms(1,3) by (metis dual_order.strict_trans1 mult_le_mono2)
    then have "x div y < 2 ^ 32" using assms(1) by (simp add: div_less_iff_less_mult)
    then have "div64_adjust q (x - q * y) y = (x div y, x mod y)"
      using div64_adjust_finishes [of y q "x - q * y"] assms(1) xq by simp
    then show ?thesis using False step r by (simp add: yy_def l_def)
  qed
qed

lemma do_div64_small:
  assumes "0 < y" "y < 2 ^ 32" "x < (2 :: nat) ^ 64"
  shows "do_div64 x y = Some (x div y, x mod y)"
proof -
  define a where "a = x div 2 ^ 32"
  define b where "b = x mod 2 ^ 32"
  have x: "x = a * 2 ^ 32 + b" and b: "b < 2 ^ 32" and a: "a < 2 ^ 32"
    using assms(3) by (simp_all add: a_def b_def div_mult_mod_eq less_mult_imp_div_less)
  have y: "y div 2 ^ 32 = 0" "y mod 2 ^ 32 = y" using assms(2) by simp_all
  have divl: "div64_32 h b y = Some ((h * 2 ^ 32 + b) mod y, (h * 2 ^ 32 + b) div y)" if "h < y" for h
  proof -
    have "h * 2 ^ 32 + b < Suc h * 2 ^ 32" using b by simp
    also have "\<dots> \<le> y * 2 ^ 32" using that by (intro mult_le_mono1) simp
    finally have "(h * 2 ^ 32 + b) div y < 2 ^ 32" using assms(1) by (simp add: div_less_iff_less_mult mult.commute)
    then show ?thesis using assms(1) by (simp add: div64_32_def Let_def)
  qed
  have unfold: "do_div64 x y = (if a < y then do { (x1, x0) \<leftarrow> div64_32 a b y; Some (x0, x1) }
      else do { (x2, x1) \<leftarrow> div64_32 0 a y; (x2, x0) \<leftarrow> div64_32 x2 b y; Some (x1 * 2 ^ 32 + x0, x2) })"
    using assms(1) by (simp only: do_div64_def Let_def y a_def [symmetric] b_def [symmetric] simp_thms if_False) simp
  show ?thesis
  proof (cases "a < y")
    case True
    then show ?thesis using divl [OF True] by (simp only: unfold if_True bind.simps case_prod_conv x [symmetric])
  next
    case False
    have "a div y < 2 ^ 32" using a div_le_dividend [of a y] by linarith
    then have d0: "div64_32 0 a y = Some (a mod y, a div y)" using assms(1) by (simp add: div64_32_def)
    have "a mod y * 2 ^ 32 + b + (a div y * 2 ^ 32) * y = (a mod y + a div y * y) * 2 ^ 32 + b"
      by (simp only: add_mult_distrib mult_ac add_ac)
    then have "x = (a mod y * 2 ^ 32 + b) + (a div y * 2 ^ 32) * y" using x by (simp only: mod_div_mult_eq)
    then have "x div y = a div y * 2 ^ 32 + (a mod y * 2 ^ 32 + b) div y" "x mod y = (a mod y * 2 ^ 32 + b) mod y"
      using assms(1) div_mult_self1 [of y "a mod y * 2 ^ 32 + b" "a div y * 2 ^ 32"]
        mod_mult_self1 [of "a mod y * 2 ^ 32 + b" "a div y * 2 ^ 32" y] by simp_all
    then show ?thesis using divl [of "a mod y"] False assms(1) d0 by (simp add: unfold)
  qed
qed

subsection \<open>Correctness of the conversions\<close>

lemma skip_spaces_none: "\<not> isspace (m p) \<Longrightarrow> skip_spaces p m = Some p"
  by (subst skip_spaces.simps) simp

lemma strto_digit_numeral:
  assumes "(48 \<le> c \<and> c \<le> 57) \<or> (97 \<le> c \<and> c \<le> 102)" "digit_value c < b"
  shows "strto_digit c (int b) = Some (int (digit_value c))"
  using assms by (auto simp: strto_digit_def digit_value_def split: if_splits)

lemma strto_loop_numeral:
  assumes "\<forall>c\<in>set ds. (48 \<le> c \<and> c \<le> 57 \<or> 97 \<le> c \<and> c \<le> 102) \<and> digit_value c < b"
    and "bytes_at m p (length ds) = ds" "strto_digit (m (p + length ds)) (int b) = None"
  shows "strto_loop p (of_nat v) (int b) m
    = Some (of_nat (foldl (\<lambda>v c. v * b + digit_value c) v ds), p + length ds)"
  using assms
proof (induction ds arbitrary: p v)
  case Nil
  then show ?case by (subst strto_loop.simps) simp
next
  case (Cons c ds)
  have "m p = c" "bytes_at m (Suc p) (length ds) = ds" using Cons.prems(2) by (simp_all add: bytes_at_Suc)
  moreover have "strto_digit c (int b) = Some (int (digit_value c))"
    using Cons.prems(1) by (intro strto_digit_numeral) auto
  moreover have "(of_nat v * of_int (int b) + of_int (int (digit_value c)) :: 32 word) = of_nat (v * b + digit_value c)"
    by simp
  ultimately show ?case
    using Cons.IH [of "Suc p" "v * b + digit_value c"] Cons.prems
    by (subst strto_loop.simps) (simp del: of_nat_add of_nat_mult)
qed

lemma strto_numeral:
  assumes "numeral_of b u ds" "b \<le> 16" "0 < b" "cstring m p ds"
  shows "strto_base p (int b) m = (p, int b)" "strto_loop p 0 (int b) m = Some (of_nat u, p + length ds)"
    and "\<not> isspace (m p)" "m p \<noteq> 45"
proof -
  have ds: "ds \<noteq> []" "number_value b ds = u"
    "\<forall>c\<in>set ds. (48 \<le> c \<and> c \<le> 57 \<or> 97 \<le> c \<and> c \<le> 102) \<and> digit_value c < b"
    using assms(1) by (auto simp: numeral_of_def)
  then obtain c ds' where c: "ds = c # ds'" by (cases ds) auto
  have p: "m p = c" and p1: "cstring m (Suc p) ds'" using assms(4) c by simp_all
  have "m (Suc p) = 0 \<or> m (Suc p) \<in> set ds" using p1 c by (cases ds') auto
  then have "m (p + 1) \<noteq> 120" "m (p + 1) \<noteq> 88" using ds(3) by auto
  then show "strto_base p (int b) m = (p, int b)" using assms(3) by (auto simp: strto_base_def)
  show "\<not> isspace (m p)" "m p \<noteq> 45" using ds(3) c p by (auto simp: isspace_def)
  have "strto_digit (m (p + length ds)) (int b) = None"
    using cstring_end [OF assms(4)] by (simp add: strto_digit_def)
  from strto_loop_numeral [OF ds(3) cstring_bytes [OF assms(4)] this, of 0]
  show "strto_loop p 0 (int b) m = Some (of_nat u, p + length ds)"
    using ds(2) by (simp add: number_value_def)
qed

lemma strtoul_numeral:
  assumes "numeral_of b u ds" "b \<le> 16" "0 < b" "cstring m p ds"
  shows "strtoul p (int b) m = Some (of_nat u, p + length ds)"
  using strto_numeral [OF assms] by (simp add: strtoul_def skip_spaces_none)

lemma strtol_numeral:
  assumes "numeral_of b u ds" "b \<le> 16" "0 < b"
  shows "cstring m p ds \<Longrightarrow> strtol p (int b) m = Some (of_nat u, p + length ds)"
    and "cstring m p (45 # ds) \<Longrightarrow> strtol p (int b) m = Some (- of_nat u, p + length (45 # ds))"
  using strto_numeral [OF assms, of m p] strto_numeral [OF assms, of m "Suc p"]
  by (simp_all add: strtol_def skip_spaces_none isspace_def)

lemma print_num_plain:
  "printnum u base = Some ds \<Longrightarrow> print_num no_flags sign u base = Some ((if sign \<noteq> 0 then [sign] else []) @ ds)"
  by (simp add: print_num_def no_flags_def)

lemma parse_spec_plain: "c \<in> {100, 117, 120, 111} \<Longrightarrow> parse_spec [c] args = Some (no_flags, [c], args)"
  by (auto simp: parse_spec_def parse_width_def parse_prec_def starts_with_def isdigit_def)

lemma doprnt_plain:
  assumes "c \<in> {100, 117, 120, 111}" "convert no_flags 0 (Some c) args = Some (out, [])"
  shows "doprnt [37, c] args 0 = Some out"
  using assms by (simp add: directive_def parse_spec_plain)

lemma numeral_of_nonzero: "numeral_of b u ds \<Longrightarrow> 0 \<notin> set ds"
  by (auto simp: numeral_of_def)

lemma sprintf_cstring:
  assumes "doprnt fmt args 0 = Some out" "0 \<notin> set out"
  shows "\<exists>mem'. sprintf s fmt args mem = Some (length out, mem') \<and> cstring mem' s out"
  using sprintf_stores [OF assms(1), of s mem] cstring_store [OF assms(2)] by auto

lemma unsigned_round_trip:
  assumes "c \<in> {117, 120, 111}" "b = (if c = 117 then 10 else if c = 120 then 16 else 8)"
  shows "\<exists>n mem'. sprintf s [37, c] [Arg_word w] mem = Some (n, mem') \<and> strtoul s (int b) mem' = Some (w, s + n)"
proof -
  have b: "2 \<le> b" "b \<le> 16" "0 < b" using assms(2) by auto
  have "unat w < 2 ^ 32" using unsigned_less [of w] by simp
  from printnum_numeral [OF b(1,2) this] obtain ds where
    ds: "printnum (unat w) b = Some ds" "numeral_of b (unat w) ds" by metis
  have "convert no_flags 0 (Some c) [Arg_word w] = print_unsigned no_flags b [Arg_word w]"
    using assms by (auto simp: convert_def)
  then have "convert no_flags 0 (Some c) [Arg_word w] = Some (ds, [])"
    using ds(1) by (simp add: print_unsigned_def print_num_plain)
  then have "doprnt [37, c] [Arg_word w] 0 = Some ds" using assms(1) by (intro doprnt_plain) auto
  from sprintf_cstring [OF this numeral_of_nonzero [OF ds(2)], of s mem]
  obtain mem' where "sprintf s [37, c] [Arg_word w] mem = Some (length ds, mem')" "cstring mem' s ds" by auto
  with strtoul_numeral [OF ds(2) b(2,3)] show ?thesis by simp
qed

lemma signed_round_trip:
  "\<exists>n mem'. sprintf s [37, 100] [Arg_word w] mem = Some (n, mem') \<and> strtol s 10 mem' = Some (w, s + n)"
proof -
  define neg where "neg = (sint w < 0)"
  define u where "u = (if neg then - w else w)"
  have "unat u < 2 ^ 32" using unsigned_less [of u] by simp
  from printnum_numeral [of 10, OF _ _ this] obtain ds where
    ds: "printnum (unat u) 10 = Some ds" "numeral_of 10 (unat u) ds" by auto
  define out where "out = (if neg then [45] else []) @ ds"
  have "convert no_flags 0 (Some 100) [Arg_word w] = Some (out, [])"
    using ds(1) by (auto simp: convert_def print_signed_def print_num_plain out_def u_def neg_def
        no_flags_def [THEN arg_cong, of f_plus_sign])
  then have "doprnt [37, 100] [Arg_word w] 0 = Some out" by (intro doprnt_plain) auto
  moreover have "0 \<notin> set out" using numeral_of_nonzero [OF ds(2)] by (auto simp: out_def)
  ultimately obtain mem' where "sprintf s [37, 100] [Arg_word w] mem = Some (length out, mem')" "cstring mem' s out"
    using sprintf_cstring by blast
  moreover from this(2) have "strtol s (int 10) mem' = Some (w, s + length out)"
    using strtol_numeral [OF ds(2), of mem' s] by (cases neg) (simp_all add: out_def u_def)
  ultimately show ?thesis by simp
qed

text \<open>\<open>do_div64\<close> divides 64-bit numbers, on each of its three paths: it returns quotient and remainder,
  0 and the dividend for a divisor 0, and it faults exactly for the divisors whose 32 leading bits,
  from the highest bit set, are all 1.\<close>

theorem do_div64_divides:
  assumes "x < 2 ^ 64" "y < 2 ^ 64"
  shows "do_div64 x y =
    (if y = 0 then Some (0, x)
     else if 2 ^ 32 \<le> y \<and> y div 2 ^ (hard_bsr (y div 2 ^ 32) + 1) = 2 ^ 32 - 1 then None
     else Some (x div y, x mod y))"
proof -
  have "do_div64 x 0 = Some (0, x)" by (simp add: do_div64_def)
  then show ?thesis
    using do_div64_small [of y x] do_div64_large [of y x] assms by (cases "2 ^ 32 \<le> y") auto
qed

theorem do_div64_divides_witness:
  "do_div64 (10 ^ 18) (10 ^ 10) = Some (10 ^ 8, 0) \<and> do_div64 (2 ^ 63) 10 = Some (922337203685477580, 8)"
proof -
  have "hard_bsr 2 = 1" by (simp add: hard_bsr.simps)
  then show ?thesis using do_div64_divides [of "10 ^ 18" "10 ^ 10"] do_div64_divides [of "2 ^ 63" 10] by simp
qed

text \<open>C37: printing and reading a number are inverse: what \<open>sprintf\<close> writes for \<open>%d\<close>, \<open>%u\<close>, \<open>%x\<close> and \<open>%o\<close> is
  read back by \<open>strtol\<close> and \<open>strtoul\<close> as the same 32-bit word, up to the terminating zero byte.\<close>

theorem number_round_trip:
  "(\<exists>n mem'. sprintf s (ascii ''%d'') [Arg_word w] mem = Some (n, mem') \<and> strtol s 10 mem' = Some (w, s + n)) \<and>
   (\<exists>n mem'. sprintf s (ascii ''%u'') [Arg_word w] mem = Some (n, mem') \<and> strtoul s 10 mem' = Some (w, s + n)) \<and>
   (\<exists>n mem'. sprintf s (ascii ''%x'') [Arg_word w] mem = Some (n, mem') \<and> strtoul s 16 mem' = Some (w, s + n)) \<and>
   (\<exists>n mem'. sprintf s (ascii ''%o'') [Arg_word w] mem = Some (n, mem') \<and> strtoul s 8 mem' = Some (w, s + n))"
  using signed_round_trip [of s w mem] unsigned_round_trip [of 117 10 s w mem]
    unsigned_round_trip [of 120 16 s w mem] unsigned_round_trip [of 111 8 s w mem]
  by (simp add: ascii_def)

end
