(* ===== verification/Scancode.thy ===== *)
theory Scancode
  imports Prelude
begin

text \<open>
  Translation of scancodes to keycodes (\<^verbatim>\<open>kernel/kbd-linux/scancode.c\<close>): the two tables that
  \<open>setkeycode\<close> can change and the static variable \<open>prev_scancode\<close> that remembers a prefix.
\<close>

definition SC_LIM :: nat where "SC_LIM = 89"

definition E1_PAUSE :: nat where "E1_PAUSE = 119"

definition init_high_keys :: "nat list" where
  "init_high_keys =
    [124, 125, 126, 127, 0, 0, 0,
     0, 0, 0, 0, 0, 0, 0, 0,
     0, 0, 0, 0, 0, 122, 0, 123,
     0, 0, 0, 89, 120, 0, 0, 90,
     91, 92, 93, 94,
     95, 124, 121, 0]"

definition init_e0_keys :: "nat list" where
  "init_e0_keys =
    [0, 0, 0, 0, 0, 0, 0, 0,
     0, 0, 0, 0, 0, 0, 0, 0,
     0, 0, 0, 0, 0, 0, 0, 0,
     0, 0, 0, 0, 96, 97, 0, 0,
     0, 0, 0, 0, 0, 0, 0, 0,
     0, 0, 0, 0, 0, 0, 0, 0,
     0, 0, 0, 0, 0, 98, 0, 99,
     100, 0, 0, 0, 0, 113, 114, 115,
     116, 117, 0, 0, 0, 0, 101, 102,
     103, 104, 0, 105, 124, 106, 118, 107,
     108, 109, 110, 111, 0, 0, 0, 0,
     0, 0, 0, 125, 126, 127, 0, 0,
     0, 0, 0, 0, 0, 0, 0, 0,
     0, 0, 0, 0, 0, 0, 0, 112,
     0, 0, 0, 0, 0, 0, 0, 0,
     0, 0, 0, 0, 0, 0, 0, 0]"

record scanner =
  high_keys :: "nat list"
  e0_keys :: "nat list"
  prev_scancode :: nat

definition init_scanner :: scanner where
  "init_scanner = \<lparr>high_keys = init_high_keys, e0_keys = init_e0_keys, prev_scancode = 0\<rparr>"

text \<open>\<open>-EINVAL\<close> is -1.\<close>

definition pckbd_setkeycode :: "nat \<Rightarrow> nat \<Rightarrow> scanner \<Rightarrow> int \<times> scanner" where
  "pckbd_setkeycode scancode keycode sc =
     (if scancode < SC_LIM \<or> scancode > 255 \<or> keycode > 127 then (-1, sc)
      else if scancode < 128 then (0, sc\<lparr>high_keys := (high_keys sc)[scancode - SC_LIM := keycode]\<rparr>)
      else (0, sc\<lparr>e0_keys := (e0_keys sc)[scancode - 128 := keycode]\<rparr>))"

definition pckbd_getkeycode :: "nat \<Rightarrow> scanner \<Rightarrow> int" where
  "pckbd_getkeycode scancode sc =
     (if scancode < SC_LIM \<or> scancode > 255 then -1
      else if scancode < 128 then int (high_keys sc ! (scancode - SC_LIM))
      else int (e0_keys sc ! (scancode - 128)))"

text \<open>\<open>Some keycode\<close> where the function stores a keycode and returns 1, \<open>None\<close> where it returns 0.\<close>

definition pckbd_translate :: "nat \<Rightarrow> scanner \<Rightarrow> nat option \<times> scanner" where
  "pckbd_translate scancode sc =
     (if scancode = 0xe0 \<or> scancode = 0xe1 then (None, sc\<lparr>prev_scancode := scancode\<rparr>)
      else if scancode = 0 \<or> scancode = 0xff then (None, sc\<lparr>prev_scancode := 0\<rparr>)
      else let scancode = scancode mod 128
       in if prev_scancode sc \<noteq> 0 then
            (if prev_scancode sc \<noteq> 0xe0 then
               (if prev_scancode sc = 0xe1 \<and> scancode = 0x1d then (None, sc\<lparr>prev_scancode := 0x100\<rparr>)
                else if prev_scancode sc = 0x100 \<and> scancode = 0x45 then (Some E1_PAUSE, sc\<lparr>prev_scancode := 0\<rparr>)
                else (None, sc\<lparr>prev_scancode := 0\<rparr>))
             else let sc = sc\<lparr>prev_scancode := 0\<rparr>
               in if scancode = 0x2a \<or> scancode = 0x36 then (None, sc)
                  else if e0_keys sc ! scancode \<noteq> 0 then (Some (e0_keys sc ! scancode), sc)
                  else (None, sc))
          else if scancode \<ge> SC_LIM then
            (let keycode = high_keys sc ! (scancode - SC_LIM)
             in if keycode = 0 then (None, sc) else (Some keycode, sc))
          else (Some scancode, sc))"

definition pckbd_unexpected_up :: "nat \<Rightarrow> bool" where
  "pckbd_unexpected_up keycode = (\<not> (keycode \<ge> SC_LIM \<or> keycode = 85))"

subsection \<open>Invariant\<close>

definition scanner_ok :: "scanner \<Rightarrow> bool" where
  "scanner_ok sc \<longleftrightarrow> length (high_keys sc) = 128 - SC_LIM \<and> length (e0_keys sc) = 128
     \<and> (\<forall>k\<in>set (high_keys sc). k < 128) \<and> (\<forall>k\<in>set (e0_keys sc). k < 128)
     \<and> prev_scancode sc \<in> {0, 0xe0, 0xe1, 0x100}"

lemma scanner_ok_init: "scanner_ok init_scanner"
  by (simp add: scanner_ok_def init_scanner_def init_high_keys_def init_e0_keys_def SC_LIM_def)

lemma ball_set_update: "\<forall>k\<in>set xs. P k \<Longrightarrow> P v \<Longrightarrow> \<forall>k\<in>set (xs[i := v]). P k"
  using set_update_subset_insert [of xs i v] by auto

lemma scanner_ok_keys:
  assumes "scanner_ok sc" "k < 128"
  shows "scanner_ok (sc\<lparr>high_keys := (high_keys sc)[i := k]\<rparr>)" "scanner_ok (sc\<lparr>e0_keys := (e0_keys sc)[i := k]\<rparr>)"
proof -
  have "\<forall>j\<in>set ((high_keys sc)[i := k]). j < 128" "\<forall>j\<in>set ((e0_keys sc)[i := k]). j < 128"
    using assms ball_set_update [where P = "\<lambda>j. j < 128"] unfolding scanner_ok_def by blast+
  then show "scanner_ok (sc\<lparr>high_keys := (high_keys sc)[i := k]\<rparr>)" "scanner_ok (sc\<lparr>e0_keys := (e0_keys sc)[i := k]\<rparr>)"
    using assms by (simp_all add: scanner_ok_def)
qed

lemma scanner_ok_setkeycode: "scanner_ok sc \<Longrightarrow> scanner_ok (snd (pckbd_setkeycode c k sc))"
  by (simp add: pckbd_setkeycode_def scanner_ok_keys)

lemma scanner_ok_prev [simp]:
  "scanner_ok sc \<Longrightarrow> p \<in> {0, 0xe0, 0xe1, 0x100} \<Longrightarrow> scanner_ok (sc\<lparr>prev_scancode := p\<rparr>)"
  by (simp add: scanner_ok_def)

lemma translate_ok:
  assumes "scanner_ok sc" "code < 256"
  shows "scanner_ok (snd (pckbd_translate code sc))"
    and "fst (pckbd_translate code sc) = Some k \<Longrightarrow> k < 128 \<and> (k = 0 \<longrightarrow> code = 0x80)"
proof -
  show "scanner_ok (snd (pckbd_translate code sc))"
    using assms(1) by (simp add: pckbd_translate_def Let_def)
  have "e0_keys sc ! (code mod 128) < 128" using assms(1) by (simp add: scanner_ok_def)
  moreover have "high_keys sc ! (code mod 128 - SC_LIM) < 128" if "SC_LIM \<le> code mod 128"
    using assms(1) that by (auto simp: scanner_ok_def intro!: bspec [OF _ nth_mem])
  moreover have "code mod 128 = 0 \<Longrightarrow> code = 0 \<or> code = 128" using assms(2) by presburger
  ultimately show "fst (pckbd_translate code sc) = Some k \<Longrightarrow> k < 128 \<and> (k = 0 \<longrightarrow> code = 0x80)"
    by (auto simp: pckbd_translate_def Let_def E1_PAUSE_def split: if_splits)
qed

lemma set_get_keycode:
  assumes "scanner_ok sc" "SC_LIM \<le> c" "c \<le> 255" "k \<le> 127"
  shows "pckbd_getkeycode c (snd (pckbd_setkeycode c k sc)) = int k"
  using assms by (auto simp: pckbd_getkeycode_def pckbd_setkeycode_def scanner_ok_def SC_LIM_def)

end
