(* ===== verification/Keyboard.thy ===== *)
theory Keyboard
  imports Scancode Keymap
begin

unbundle bit_operations_syntax

text \<open>
  The keyboard driver: \<^verbatim>\<open>kernel/kbd-linux/keyboard.c\<close> with the glue of \<^verbatim>\<open>kernel/keyboard-glue.c\<close> and the
  inline functions of \<^verbatim>\<open>linux/kbd_kern.h\<close>.

  The record \<open>keyboard\<close> holds the static variables of the driver and the sequence of what it sends: the
  strings given to \<open>keyboard_data\<close> (as their bytes before the terminating zero) and the LED patterns
  given to \<open>kbd_leds\<close>. There is one console (\<open>fg_console\<close> is 0), so \<open>kbd\<close> is entry 0 of \<open>kbd_table\<close>. The
  glue functions with an empty body (\<open>set_console\<close>, \<open>scrollback\<close>, \<open>send_intr\<close>, \<open>show_mem\<close>, ...) change nothing. \<open>None\<close> is an
  access outside one of the arrays of the driver.
\<close>

subsection \<open>State\<close>

record kbd_struct =
  lockstate :: nat
  slockstate :: nat
  ledmode :: nat
  ledflagstate :: nat
  default_ledflagstate :: nat
  kbdmode :: nat
  modeflags :: nat

record ledptr =
  led_addr :: nat
  led_mask :: nat
  led_valid :: bool

datatype kb_output = Data "nat list" | Leds nat

record keyboard =
  k_down :: "nat \<Rightarrow> nat"
  key_down :: "nat \<Rightarrow> bool"
  dead_key_next :: bool
  shift_state :: nat
  npadch :: int
  diacr :: nat
  rep :: bool
  kbd_table :: "nat \<Rightarrow> kbd_struct"
  tty :: bool
  stopped :: bool
  ledstate :: nat
  ledioctl :: nat
  ledptrs :: "nat \<Rightarrow> ledptr"
  led_words :: "nat \<Rightarrow> nat"
  tasklet_enabled :: bool
  initialised :: bool
  scanner :: scanner
  sent :: "kb_output list"

abbreviation NR_SHIFT :: nat where "NR_SHIFT \<equiv> 9"
abbreviation MAX_NR_CONSOLES :: nat where "MAX_NR_CONSOLES \<equiv> 63"
abbreviation VC_XLATE :: nat where "VC_XLATE \<equiv> 0"
abbreviation VC_MEDIUMRAW :: nat where "VC_MEDIUMRAW \<equiv> 1"
abbreviation VC_RAW :: nat where "VC_RAW \<equiv> 2"
abbreviation VC_UNICODE :: nat where "VC_UNICODE \<equiv> 3"
abbreviation VC_APPLIC :: nat where "VC_APPLIC \<equiv> 0"
abbreviation VC_CKMODE :: nat where "VC_CKMODE \<equiv> 1"
abbreviation VC_REPEAT :: nat where "VC_REPEAT \<equiv> 2"
abbreviation VC_CRLF :: nat where "VC_CRLF \<equiv> 3"
abbreviation VC_META :: nat where "VC_META \<equiv> 4"
abbreviation VC_NUMLOCK :: nat where "VC_NUMLOCK \<equiv> 1"
abbreviation VC_CAPSLOCK :: nat where "VC_CAPSLOCK \<equiv> 2"
abbreviation LED_SHOW_FLAGS :: nat where "LED_SHOW_FLAGS \<equiv> 0"
abbreviation LED_SHOW_IOCTL :: nat where "LED_SHOW_IOCTL \<equiv> 1"
abbreviation LED_SHOW_MEM :: nat where "LED_SHOW_MEM \<equiv> 2"
abbreviation KT_LATIN :: nat where "KT_LATIN \<equiv> 0"
abbreviation KT_SPEC :: nat where "KT_SPEC \<equiv> 2"
abbreviation KT_SHIFT :: nat where "KT_SHIFT \<equiv> 7"
abbreviation KT_LETTER :: nat where "KT_LETTER \<equiv> 11"
abbreviation KT_SLOCK :: nat where "KT_SLOCK \<equiv> 12"
abbreviation KG_SHIFT :: nat where "KG_SHIFT \<equiv> 0"
abbreviation KG_CAPSSHIFT :: nat where "KG_CAPSSHIFT \<equiv> 8"

definition KTYP :: "nat \<Rightarrow> nat" where "KTYP x = drop_bit 8 x"

definition KVAL :: "nat \<Rightarrow> nat" where "KVAL x = x AND 0xff"

definition kbd :: "keyboard \<Rightarrow> kbd_struct" where "kbd st = kbd_table st 0"

definition upd_kbd :: "(kbd_struct \<Rightarrow> kbd_struct) \<Rightarrow> keyboard \<Rightarrow> keyboard" where
  "upd_kbd f st = st\<lparr>kbd_table := (kbd_table st)(0 := f (kbd_table st 0))\<rparr>"

text \<open>The flag functions of \<^verbatim>\<open>kbd_kern.h\<close>; the fields are bit fields of 5, 3 and 8 bits.\<close>

definition vc_kbd_mode :: "kbd_struct \<Rightarrow> nat \<Rightarrow> bool" where
  "vc_kbd_mode k flag = bit (modeflags k) flag"

definition vc_kbd_led :: "kbd_struct \<Rightarrow> nat \<Rightarrow> bool" where
  "vc_kbd_led k flag = bit (ledflagstate k) flag"

definition set_vc_kbd_led :: "nat \<Rightarrow> kbd_struct \<Rightarrow> kbd_struct" where
  "set_vc_kbd_led flag k = k\<lparr>ledflagstate := take_bit 3 (set_bit flag (ledflagstate k))\<rparr>"

definition clr_vc_kbd_led :: "nat \<Rightarrow> kbd_struct \<Rightarrow> kbd_struct" where
  "clr_vc_kbd_led flag k = k\<lparr>ledflagstate := unset_bit flag (ledflagstate k)\<rparr>"

definition chg_vc_kbd_led :: "nat \<Rightarrow> kbd_struct \<Rightarrow> kbd_struct" where
  "chg_vc_kbd_led flag k = k\<lparr>ledflagstate := take_bit 3 (flip_bit flag (ledflagstate k))\<rparr>"

definition set_vc_kbd_mode :: "nat \<Rightarrow> kbd_struct \<Rightarrow> kbd_struct" where
  "set_vc_kbd_mode flag k = k\<lparr>modeflags := take_bit 5 (set_bit flag (modeflags k))\<rparr>"

definition clr_vc_kbd_mode :: "nat \<Rightarrow> kbd_struct \<Rightarrow> kbd_struct" where
  "clr_vc_kbd_mode flag k = k\<lparr>modeflags := unset_bit flag (modeflags k)\<rparr>"

definition chg_vc_kbd_mode :: "nat \<Rightarrow> kbd_struct \<Rightarrow> kbd_struct" where
  "chg_vc_kbd_mode flag k = k\<lparr>modeflags := take_bit 5 (flip_bit flag (modeflags k))\<rparr>"

definition chg_vc_kbd_lock :: "nat \<Rightarrow> kbd_struct \<Rightarrow> kbd_struct" where
  "chg_vc_kbd_lock flag k = k\<lparr>lockstate := take_bit 8 (flip_bit flag (lockstate k))\<rparr>"

definition chg_vc_kbd_slock :: "nat \<Rightarrow> kbd_struct \<Rightarrow> kbd_struct" where
  "chg_vc_kbd_slock flag k = k\<lparr>slockstate := take_bit 8 (flip_bit flag (slockstate k))\<rparr>"

subsection \<open>Output\<close>

definition keyboard_data :: "nat list \<Rightarrow> keyboard \<Rightarrow> keyboard" where
  "keyboard_data str st = st\<lparr>sent := sent st @ [Data (takeWhile (\<lambda>c. c \<noteq> 0) str)]\<rparr>"

definition send_ch :: "nat \<Rightarrow> keyboard \<Rightarrow> keyboard" where
  "send_ch ch st = keyboard_data [take_bit 8 ch, 0] st"

definition put_queue :: "nat \<Rightarrow> keyboard \<Rightarrow> keyboard" where
  "put_queue ch st = (if tty st then send_ch ch st else st)"

definition puts_queue :: "nat list \<Rightarrow> keyboard \<Rightarrow> keyboard" where
  "puts_queue cp st = (if \<not> tty st then st else keyboard_data cp st)"

definition to_utf8 :: "nat \<Rightarrow> keyboard \<Rightarrow> keyboard" where
  "to_utf8 c st =
     (if c < 0x80 then put_queue c st
      else if c < 0x800 then
        put_queue (0x80 OR (c AND 0x3f)) (put_queue (0xc0 OR drop_bit 6 c) st)
      else
        put_queue (0x80 OR (c AND 0x3f))
          (put_queue (0x80 OR (drop_bit 6 c AND 0x3f)) (put_queue (0xe0 OR drop_bit 12 c) st)))"

definition applkey :: "nat \<Rightarrow> bool \<Rightarrow> keyboard \<Rightarrow> keyboard" where
  "applkey key mode st = puts_queue [0x1b, if mode then 79 else 91, take_bit 8 key, 0] st"

subsection \<open>Shift state\<close>

definition shift_key :: "nat \<Rightarrow> nat option" where
  "shift_key k =
     (let sym = (plain_map ! k) XOR 0xf000
      in if KTYP sym = KT_SHIFT \<or> KTYP sym = KT_SLOCK then
           (let val = KVAL sym in Some (if val = KG_CAPSSHIFT then KG_SHIFT else val))
         else None)"

definition count_key :: "nat \<Rightarrow> keyboard \<Rightarrow> keyboard option" where
  "count_key k st =
     (if key_down st k then
        (case shift_key k of None \<Rightarrow> Some st
         | Some val \<Rightarrow> do {
             kassert (val < NR_SHIFT);
             Some (st\<lparr>k_down := (k_down st)(val := take_bit 8 (k_down st val + 1)),
                      shift_state := set_bit val (shift_state st)\<rparr>)
           })
      else Some st)"

primrec count_keys :: "nat list \<Rightarrow> keyboard \<Rightarrow> keyboard option" where
  "count_keys [] st = Some st"
| "count_keys (k # ks) st = do { st \<leftarrow> count_key k st; count_keys ks st }"

text \<open>The loop visits the 8 words of \<open>key_down\<close>; a word without any bit is skipped.\<close>

primrec count_words :: "nat list \<Rightarrow> keyboard \<Rightarrow> keyboard option" where
  "count_words [] st = Some st"
| "count_words (i # is) st = do {
     st \<leftarrow> (if \<exists>j\<in>{0..<32}. key_down st (i * 32 + j) then count_keys [i * 32..<i * 32 + 32] st else Some st);
     count_words is st
   }"

definition compute_shiftstate :: "keyboard \<Rightarrow> keyboard option" where
  "compute_shiftstate st =
     count_words [0..<8] (st\<lparr>shift_state := 0, k_down := (\<lambda>i. if i < NR_SHIFT then 0 else k_down st i)\<rparr>)"

text \<open>The counter of a shift key and its bit in \<open>shift_state\<close>.\<close>

definition count_shift :: "nat \<Rightarrow> bool \<Rightarrow> keyboard \<Rightarrow> keyboard" where
  "count_shift value up_flag st =
     (let st = (if up_flag
          then (if k_down st value \<noteq> 0 then st\<lparr>k_down := (k_down st)(value := k_down st value - 1)\<rparr> else st)
          else st\<lparr>k_down := (k_down st)(value := take_bit 8 (k_down st value + 1))\<rparr>)
      in if k_down st value \<noteq> 0 then st\<lparr>shift_state := set_bit value (shift_state st)\<rparr>
         else st\<lparr>shift_state := unset_bit value (shift_state st)\<rparr>)"

definition do_shift :: "nat \<Rightarrow> bool \<Rightarrow> keyboard \<Rightarrow> keyboard option" where
  "do_shift value up_flag st =
     (let old_state = shift_state st
      in if rep st then Some st
         else do {
           let (value, st) = (if value = KG_CAPSSHIFT
             then (KG_SHIFT, if \<not> up_flag then upd_kbd (clr_vc_kbd_led VC_CAPSLOCK) st else st) else (value, st));
           kassert (value < NR_SHIFT);
           let st = count_shift value up_flag st;
           Some (if up_flag \<and> shift_state st \<noteq> old_state \<and> npadch st \<noteq> -1
             then (if kbdmode (kbd st) = VC_UNICODE then to_utf8 (nat (npadch st mod 2 ^ 16)) st
                   else put_queue (nat (npadch st mod 2 ^ 8)) st)\<lparr>npadch := -1\<rparr>
             else st)
         })"

subsection \<open>Special keys\<close>

definition enter :: "keyboard \<Rightarrow> keyboard" where
  "enter st =
     (let st = (if diacr st \<noteq> 0 then (put_queue (diacr st) st)\<lparr>diacr := 0\<rparr> else st);
          st = put_queue 13 st
      in if vc_kbd_mode (kbd st) VC_CRLF then put_queue 10 st else st)"

definition caps_toggle :: "keyboard \<Rightarrow> keyboard" where
  "caps_toggle st = (if rep st then st else upd_kbd (chg_vc_kbd_led VC_CAPSLOCK) st)"

definition caps_on :: "keyboard \<Rightarrow> keyboard" where
  "caps_on st = (if rep st then st else upd_kbd (set_vc_kbd_led VC_CAPSLOCK) st)"

definition stop_tty :: "keyboard \<Rightarrow> keyboard" where
  "stop_tty st = (if stopped st then st else st\<lparr>stopped := True\<rparr>)"

definition start_tty :: "keyboard \<Rightarrow> keyboard" where
  "start_tty st = (if \<not> stopped st then st else st\<lparr>stopped := False\<rparr>)"

definition hold :: "keyboard \<Rightarrow> keyboard" where
  "hold st = (if rep st \<or> \<not> tty st then st else if stopped st then start_tty st else stop_tty st)"

definition bare_num :: "keyboard \<Rightarrow> keyboard" where
  "bare_num st = (if \<not> rep st then upd_kbd (chg_vc_kbd_led VC_NUMLOCK) st else st)"

definition num :: "keyboard \<Rightarrow> keyboard" where
  "num st = (if vc_kbd_mode (kbd st) VC_APPLIC then applkey 80 True st else bare_num st)"

definition compose :: "keyboard \<Rightarrow> keyboard" where
  "compose st = st\<lparr>dead_key_next := True\<rparr>"

text \<open>The searches for an allocated console in \<open>decr_console\<close> and \<open>incr_console\<close>; only console 0 is
  allocated and \<open>set_console\<close> is empty.\<close>

definition vc_cons_allocated :: "int \<Rightarrow> bool" where
  "vc_cons_allocated i = (if i \<ge> int MAX_NR_CONSOLES then False else i = 0)"

partial_function (option) decr_loop :: "int \<Rightarrow> int option" where
  "decr_loop i =
     (if i \<noteq> 0 then
        (let i = (if i = -1 then int MAX_NR_CONSOLES - 1 else i)
         in if vc_cons_allocated i then Some i else decr_loop (i - 1))
      else Some i)"

partial_function (option) incr_loop :: "int \<Rightarrow> int option" where
  "incr_loop i =
     (if i \<noteq> 0 then
        (let i = (if i = int MAX_NR_CONSOLES then 0 else i)
         in if vc_cons_allocated i then Some i else incr_loop (i + 1))
      else Some i)"

definition decr_console :: "keyboard \<Rightarrow> keyboard option" where
  "decr_console st = do { _ \<leftarrow> decr_loop (-1); Some st }"

definition incr_console :: "keyboard \<Rightarrow> keyboard option" where
  "incr_console st = do { _ \<leftarrow> incr_loop 1; Some st }"

text \<open>\<open>spec_fn_table\<close>: the entries \<open>show_ptregs\<close>, \<open>show_mem\<close>, \<open>show_state\<close>, \<open>send_intr\<close>, \<open>lastcons\<close>, \<open>scroll_forw\<close>, \<open>scroll_back\<close>,
  \<open>boot_it\<close>, \<open>SAK\<close> and \<open>spawn_console\<close> end in an empty glue function.\<close>

definition spec_fn :: "nat \<Rightarrow> keyboard \<Rightarrow> keyboard option" where
  "spec_fn value st =
     (if value = 0 then compute_shiftstate st
      else if value = 1 then Some (enter st)
      else if value = 7 then Some (caps_toggle st)
      else if value = 8 then Some (num st)
      else if value = 9 then Some (hold st)
      else if value = 13 then Some (caps_on st)
      else if value = 14 then Some (compose st)
      else if value = 16 then decr_console st
      else if value = 17 then incr_console st
      else if value = 19 then Some (bare_num st)
      else Some st)"

definition do_spec :: "nat \<Rightarrow> bool \<Rightarrow> keyboard \<Rightarrow> keyboard option" where
  "do_spec value up_flag st =
     (if up_flag then Some st
      else if value \<ge> 20 then Some st
      else if (kbdmode (kbd st) = VC_RAW \<or> kbdmode (kbd st) = VC_MEDIUMRAW) \<and> value \<noteq> 15 then Some st
      else spec_fn value st)"

subsection \<open>Characters\<close>

definition handle_diacr :: "nat \<Rightarrow> keyboard \<Rightarrow> nat \<times> keyboard" where
  "handle_diacr ch st =
     (let d = diacr st; st = st\<lparr>diacr := 0\<rparr>
      in case find (\<lambda>(a, b, r). a = d \<and> b = ch) accent_table of
           Some (_, _, r) \<Rightarrow> (r, st)
         | None \<Rightarrow> if ch = 32 \<or> ch = d then (d, st) else (ch, put_queue d st))"

definition do_self :: "nat \<Rightarrow> bool \<Rightarrow> keyboard \<Rightarrow> keyboard" where
  "do_self value up_flag st =
     (if up_flag then st
      else let (value, st) = (if diacr st \<noteq> 0 then handle_diacr value st else (value, st))
        in if dead_key_next st then st\<lparr>dead_key_next := False, diacr := value\<rparr>
           else put_queue value st)"

definition do_dead2 :: "nat \<Rightarrow> bool \<Rightarrow> keyboard \<Rightarrow> keyboard" where
  "do_dead2 value up_flag st =
     (if up_flag then st
      else if diacr st \<noteq> 0 then (let (d, st) = handle_diacr value st in st\<lparr>diacr := d\<rparr>)
      else st\<lparr>diacr := value\<rparr>)"

definition ret_diacr :: "nat list" where
  "ret_diacr = [96, 39, 94, 126, 34, 44]"

definition do_dead :: "nat \<Rightarrow> bool \<Rightarrow> keyboard \<Rightarrow> keyboard option" where
  "do_dead value up_flag st = do {
     kassert (value < length ret_diacr);
     Some (do_dead2 (ret_diacr ! value) up_flag st)
   }"

definition do_fn :: "nat \<Rightarrow> bool \<Rightarrow> keyboard \<Rightarrow> keyboard" where
  "do_fn value up_flag st =
     (if up_flag then st
      else case func_table ! value of Some p \<Rightarrow> puts_queue (drop p func_buf) st | None \<Rightarrow> st)"

definition cur_chars :: "nat list" where
  "cur_chars = [66, 68, 67, 65, 0]"

definition do_cur :: "nat \<Rightarrow> bool \<Rightarrow> keyboard \<Rightarrow> keyboard option" where
  "do_cur value up_flag st =
     (if up_flag then Some st
      else do {
        kassert (value < length cur_chars);
        Some (applkey (cur_chars ! value) (vc_kbd_mode (kbd st) VC_CKMODE) st)
      })"

definition pad_chars :: "nat list" where
  "pad_chars = [48, 49, 50, 51, 52, 53, 54, 55, 56, 57, 43, 45, 42, 47, 13, 44, 46, 63, 40, 41, 0]"

definition app_map :: "nat list" where
  "app_map = [112, 113, 114, 115, 116, 117, 118, 119, 120, 121, 108, 83, 82, 81, 77, 110, 110, 109, 80, 81, 0]"

text \<open>The switch of \<open>do_pad\<close> for the keypad without NumLock: \<open>None\<close> where no case applies.\<close>

definition pad_cursor :: "nat \<Rightarrow> keyboard \<Rightarrow> keyboard option option" where
  "pad_cursor value st =
     (if value = 15 \<or> value = 16 then Some (Some (do_fn 22 False st))
      else if value = 0 then Some (Some (do_fn 21 False st))
      else if value = 1 then Some (Some (do_fn 23 False st))
      else if value = 2 then Some (do_cur 0 False st)
      else if value = 3 then Some (Some (do_fn 25 False st))
      else if value = 4 then Some (do_cur 1 False st)
      else if value = 6 then Some (do_cur 2 False st)
      else if value = 7 then Some (Some (do_fn 20 False st))
      else if value = 8 then Some (do_cur 3 False st)
      else if value = 9 then Some (Some (do_fn 24 False st))
      else if value = 5 then Some (Some (applkey 71 (vc_kbd_mode (kbd st) VC_APPLIC) st))
      else None)"

definition do_pad :: "nat \<Rightarrow> bool \<Rightarrow> keyboard \<Rightarrow> keyboard option" where
  "do_pad value up_flag st =
     (if up_flag then Some st
      else do {
        kassert (value < length pad_chars);
        (if vc_kbd_mode (kbd st) VC_APPLIC \<and> k_down st KG_SHIFT = 0 then Some (applkey (app_map ! value) True st)
         else case (if \<not> vc_kbd_led (kbd st) VC_NUMLOCK then pad_cursor value st else None) of
             Some r \<Rightarrow> r
           | None \<Rightarrow> let st = put_queue (pad_chars ! value) st
               in Some (if value = 14 \<and> vc_kbd_mode (kbd st) VC_CRLF then put_queue 10 st else st))
      })"

definition do_meta :: "nat \<Rightarrow> bool \<Rightarrow> keyboard \<Rightarrow> keyboard" where
  "do_meta value up_flag st =
     (if up_flag then st
      else if vc_kbd_mode (kbd st) VC_META then put_queue value (put_queue 27 st)
      else put_queue (value OR 0x80) st)"

text \<open>\<open>npadch\<close> is an \<open>int\<close>: its wrap-around is written out.\<close>

definition wrap_int :: "int \<Rightarrow> int" where
  "wrap_int x = (x + 2 ^ 31) mod 2 ^ 32 - 2 ^ 31"

definition do_ascii :: "nat \<Rightarrow> bool \<Rightarrow> keyboard \<Rightarrow> keyboard" where
  "do_ascii value up_flag st =
     (if up_flag then st
      else let (base, value) = (if value < 10 then (10, value) else (16, value - 10))
        in st\<lparr>npadch := (if npadch st = -1 then int value else wrap_int (npadch st * base + int value))\<rparr>)"

definition do_lock :: "nat \<Rightarrow> bool \<Rightarrow> keyboard \<Rightarrow> keyboard" where
  "do_lock value up_flag st =
     (if up_flag \<or> rep st then st else upd_kbd (chg_vc_kbd_lock value) st)"

definition do_slock :: "nat \<Rightarrow> bool \<Rightarrow> keyboard \<Rightarrow> keyboard option" where
  "do_slock value up_flag st = do {
     st \<leftarrow> do_shift value up_flag st;
     if up_flag \<or> rep st then Some st
     else do {
       let st = upd_kbd (chg_vc_kbd_slock value) st;
       let i = (lockstate (kbd st) XOR slockstate (kbd st));
       kassert (i < length key_maps);
       Some (if key_maps ! i = None then upd_kbd (chg_vc_kbd_slock value) (upd_kbd (\<lambda>k. k\<lparr>slockstate := 0\<rparr>) st) else st)
     }
   }"

text \<open>The table \<open>key_handler\<close>; \<open>do_cons\<close>, \<open>do_lowercase\<close> and \<open>do_ignore\<close> do nothing.\<close>

definition key_handler :: "nat \<Rightarrow> nat \<Rightarrow> bool \<Rightarrow> keyboard \<Rightarrow> keyboard option" where
  "key_handler type value up_flag st =
     (if type = 0 then Some (do_self value up_flag st)
      else if type = 1 then Some (do_fn value up_flag st)
      else if type = 2 then do_spec value up_flag st
      else if type = 3 then do_pad value up_flag st
      else if type = 4 then do_dead value up_flag st
      else if type = 6 then do_cur value up_flag st
      else if type = 7 then do_shift value up_flag st
      else if type = 8 then Some (do_meta value up_flag st)
      else if type = 9 then Some (do_ascii value up_flag st)
      else if type = 10 then Some (do_lock value up_flag st)
      else if type = 12 then do_slock value up_flag st
      else if type = 13 then Some (do_dead2 value up_flag st)
      else Some st)"

subsection \<open>Scancodes\<close>

text \<open>The part of \<open>handle_scancode\<close> after the lookup of the key symbol.\<close>

definition handle_keysym :: "nat \<Rightarrow> nat \<Rightarrow> nat list \<Rightarrow> bool \<Rightarrow> bool \<Rightarrow> keyboard \<Rightarrow> keyboard option" where
  "handle_keysym keycode shift_final key_map up_flag raw_mode st =
     (let keysym = key_map ! keycode; type = KTYP keysym
      in if type \<ge> 0xf0 then
           (let type = type - 0xf0
            in if raw_mode \<and> type \<noteq> KT_SPEC \<and> type \<noteq> KT_SHIFT then Some st
               else do {
                 (type, keysym) \<leftarrow> (if type = KT_LETTER then
                   (if vc_kbd_led (kbd st) VC_CAPSLOCK then do {
                      kassert ((shift_final XOR 1) < length key_maps);
                      Some (KT_LATIN, case key_maps ! (shift_final XOR 1) of Some key_map \<Rightarrow> key_map ! keycode | None \<Rightarrow> keysym)
                    }
                    else Some (KT_LATIN, keysym)) else Some (type, keysym));
                 st \<leftarrow> key_handler type (keysym AND 0xff) up_flag st;
                 Some (if type \<noteq> KT_SLOCK then upd_kbd (\<lambda>k. k\<lparr>slockstate := 0\<rparr>) st else st)
               })
         else Some (if \<not> up_flag \<and> \<not> raw_mode then to_utf8 keysym st else st))"

text \<open>The rest of \<open>handle_scancode\<close>, in the order of the source: the bitmap of the keys that are down, the
  medium raw mode, the choice of the key map.\<close>

definition note_key :: "nat \<Rightarrow> bool \<Rightarrow> keyboard \<Rightarrow> bool \<times> keyboard" where
  "note_key keycode up_flag st =
     (if up_flag
      then (if key_down st keycode then True else pckbd_unexpected_up keycode,
            st\<lparr>rep := False, key_down := (key_down st)(keycode := False)\<rparr>)
      else (up_flag, st\<lparr>rep := key_down st keycode, key_down := (key_down st)(keycode := True)\<rparr>))"

definition medium_raw :: "nat \<Rightarrow> bool \<Rightarrow> bool \<Rightarrow> keyboard \<Rightarrow> bool \<times> keyboard" where
  "medium_raw keycode up_flag raw_mode st =
     (if kbdmode (kbd st) = VC_MEDIUMRAW
      then (True, put_queue (keycode + (if up_flag then 0x80 else 0)) st) else (raw_mode, st))"

definition map_key :: "nat \<Rightarrow> bool \<Rightarrow> bool \<Rightarrow> keyboard \<Rightarrow> keyboard option" where
  "map_key keycode up_flag raw_mode st =
     (if \<not> rep st \<or> vc_kbd_mode (kbd st) VC_REPEAT \<and> tty st then
        do {
          let shift_final = (shift_state st OR slockstate (kbd st)) XOR lockstate (kbd st);
          kassert (shift_final < length key_maps);
          (case key_maps ! shift_final of
             Some key_map \<Rightarrow> handle_keysym keycode shift_final key_map up_flag raw_mode st
           | None \<Rightarrow> do {
               st \<leftarrow> compute_shiftstate st;
               Some (upd_kbd (\<lambda>k. k\<lparr>slockstate := 0\<rparr>) st)
             })
        }
      else Some st)"

definition handle_keycode :: "nat \<Rightarrow> bool \<Rightarrow> bool \<Rightarrow> keyboard \<Rightarrow> keyboard option" where
  "handle_keycode keycode up_flag raw_mode st =
     (let (up_flag, st) = note_key keycode up_flag st;
          (raw_mode, st) = medium_raw keycode up_flag raw_mode st
      in map_key keycode up_flag raw_mode st)"

definition handle_scancode :: "nat \<Rightarrow> bool \<Rightarrow> keyboard \<Rightarrow> keyboard option" where
  "handle_scancode scancode down st =
     (let up_flag = (\<not> down);
          st = st\<lparr>tty := True\<rparr>;
          raw_mode = (kbdmode (kbd st) = VC_RAW);
          st = (if raw_mode then put_queue (scancode OR (if up_flag then 0x80 else 0)) st else st);
          (keycode, sc) = pckbd_translate scancode (scanner st);
          st = st\<lparr>scanner := sc\<rparr>
      in case keycode of None \<Rightarrow> Some st | Some keycode \<Rightarrow> handle_keycode keycode up_flag raw_mode st)"

subsection \<open>LEDs and initialisation\<close>

definition led_from_mem :: "nat \<Rightarrow> keyboard \<Rightarrow> nat \<Rightarrow> nat" where
  "led_from_mem i st leds =
     (if led_valid (ledptrs st i) then
        (if led_words st (led_addr (ledptrs st i)) AND led_mask (ledptrs st i) \<noteq> 0 then set_bit i leds else unset_bit i leds)
      else leds)"

definition getleds :: "keyboard \<Rightarrow> nat" where
  "getleds st =
     (if ledmode (kbd_table st 0) = LED_SHOW_IOCTL then ledioctl st
      else let leds = ledflagstate (kbd_table st 0)
        in if ledmode (kbd_table st 0) = LED_SHOW_MEM
           then led_from_mem 2 st (led_from_mem 1 st (led_from_mem 0 st leds)) else leds)"

definition kbd_bh :: "keyboard \<Rightarrow> keyboard" where
  "kbd_bh st =
     (let leds = getleds st
      in if leds \<noteq> ledstate st then st\<lparr>ledstate := leds, sent := sent st @ [Leds leds]\<rparr> else st)"

definition schedule_tasklet :: "keyboard \<Rightarrow> keyboard" where
  "schedule_tasklet st = (if tasklet_enabled st then kbd_bh st else st)"

definition getledstate :: "keyboard \<Rightarrow> nat" where
  "getledstate st = ledstate st"

definition setledstate :: "nat \<Rightarrow> nat \<Rightarrow> keyboard \<Rightarrow> keyboard" where
  "setledstate n led st =
     (let st = (if led div 8 = 0
          then st\<lparr>ledioctl := led, kbd_table := (kbd_table st)(n := (kbd_table st n)\<lparr>ledmode := LED_SHOW_IOCTL\<rparr>)\<rparr>
          else st\<lparr>kbd_table := (kbd_table st)(n := (kbd_table st n)\<lparr>ledmode := LED_SHOW_FLAGS\<rparr>)\<rparr>)
      in schedule_tasklet st)"

definition register_leds :: "nat \<Rightarrow> nat \<Rightarrow> nat \<Rightarrow> nat \<Rightarrow> keyboard \<Rightarrow> keyboard" where
  "register_leds n led addr msk st =
     (if led < 3
      then st\<lparr>ledptrs := (ledptrs st)(led := \<lparr>led_addr = addr, led_mask = msk, led_valid = True\<rparr>),
              kbd_table := (kbd_table st)(n := (kbd_table st n)\<lparr>ledmode := LED_SHOW_MEM\<rparr>)\<rparr>
      else st\<lparr>kbd_table := (kbd_table st)(n := (kbd_table st n)\<lparr>ledmode := LED_SHOW_FLAGS\<rparr>)\<rparr>)"

definition kbd0 :: kbd_struct where
  "kbd0 = \<lparr>lockstate = 0, slockstate = 0, ledmode = LED_SHOW_FLAGS, ledflagstate = 0, default_ledflagstate = 0,
     kbdmode = VC_XLATE, modeflags = 2 ^ VC_REPEAT OR 2 ^ VC_META\<rparr>"

definition keyboard_init :: "keyboard \<Rightarrow> keyboard" where
  "keyboard_init st =
     schedule_tasklet (st\<lparr>kbd_table := (\<lambda>i. if i < MAX_NR_CONSOLES then kbd0 else kbd_table st i), tasklet_enabled := True\<rparr>)"

definition do_scancode :: "nat \<Rightarrow> keyboard \<Rightarrow> keyboard option" where
  "do_scancode scancode st =
     (let st = (if \<not> initialised st then keyboard_init (st\<lparr>initialised := True\<rparr>) else st)
      in if scancode \<noteq> 0 \<and> scancode \<noteq> 0xff then do {
           st \<leftarrow> handle_scancode scancode (scancode AND 0x80 = 0) st;
           Some (kbd_bh st)
         }
         else Some st)"

text \<open>The interrupt of \<^verbatim>\<open>kernel/kbd.c\<close>: \<open>code\<close> is the byte read from the keyboard port; the interrupt controller
  is acknowledged before the driver runs.\<close>

definition keyboard_interrupt :: "nat \<Rightarrow> keyboard \<Rightarrow> keyboard option" where
  "keyboard_interrupt code st = do_scancode (take_bit 8 code) st"

text \<open>The static variables when the system starts; the \<open>kbd_table\<close> in the zero-initialised data is all 0.\<close>

definition boot_keyboard :: keyboard where
  "boot_keyboard = \<lparr>k_down = (\<lambda>_. 0), key_down = (\<lambda>_. False), dead_key_next = False, shift_state = 0, npadch = -1,
     diacr = 0, rep = False,
     kbd_table = (\<lambda>_. \<lparr>lockstate = 0, slockstate = 0, ledmode = 0, ledflagstate = 0, default_ledflagstate = 0,
       kbdmode = 0, modeflags = 0\<rparr>),
     tty = False, stopped = False, ledstate = 0xff, ledioctl = 0,
     ledptrs = (\<lambda>_. \<lparr>led_addr = 0, led_mask = 0, led_valid = False\<rparr>), led_words = (\<lambda>_. 0),
     tasklet_enabled = False, initialised = False, scanner = init_scanner, sent = []\<rparr>"

primrec scancodes :: "nat list \<Rightarrow> keyboard \<Rightarrow> keyboard option" where
  "scancodes [] st = Some st"
| "scancodes (c # cs) st = do { st \<leftarrow> do_scancode c st; scancodes cs st }"

end
