(* ===== verification/Keyboard_Props.thy ===== *)
theory Keyboard_Props
  imports Keyboard
begin

unbundle bit_operations_syntax

text \<open>
  The keyboard driver stays inside its arrays for every sequence of scancodes, keeps its shift state and
  its LEDs consistent, and sends the character that the key map gives for a key.
\<close>

subsection \<open>Bytes as bit sequences\<close>

definition byte :: "nat \<Rightarrow> bool" where
  "byte x \<longleftrightarrow> (\<forall>i\<ge>8. \<not> bit x i)"

lemma byte_less: "byte x \<Longrightarrow> x < 256"
proof -
  assume "byte x"
  then have "take_bit 8 x = x" by (intro bit_eqI) (auto simp: byte_def bit_simps not_less [symmetric])
  then have "x < 2 ^ 8" by (metis take_bit_nat_less_exp)
  then show ?thesis by simp
qed

lemma byte_simps [simp]:
  "byte 0" "byte (take_bit 8 x)" "byte x \<Longrightarrow> byte (unset_bit v x)" "byte x \<Longrightarrow> v < 8 \<Longrightarrow> byte (set_bit v x)"
  "byte x \<Longrightarrow> byte y \<Longrightarrow> byte (x OR y)" "byte x \<Longrightarrow> byte y \<Longrightarrow> byte (x XOR y)" "byte 1"
  by (auto simp: byte_def bit_simps)

lemma byte_Suc_0 [simp]: "byte (Suc 0)"
  using byte_simps(7) by (simp only: One_nat_def)

subsection \<open>Key symbols\<close>

definition sym_ok :: "nat \<Rightarrow> bool" where
  "sym_ok x \<longleftrightarrow> (let t = x div 256; v = x mod 256
     in 0xf0 \<le> t \<and> t \<le> 0xff \<and> (t = 0xf3 \<longrightarrow> v < 21) \<and> (t = 0xf4 \<longrightarrow> v < 6) \<and> (t = 0xf6 \<longrightarrow> v < 5)
        \<and> (t = 0xf7 \<longrightarrow> v < 9) \<and> (t = 0xfc \<longrightarrow> v < 9))"

lemma sym_ok_maps:
  "list_all sym_ok plain_map" "list_all sym_ok shift_map" "list_all sym_ok altgr_map" "list_all sym_ok ctrl_map"
  "list_all sym_ok altgr_ctrl_map" "list_all sym_ok alt_map" "list_all sym_ok ctrl_alt_map"
  by (simp_all add: plain_map_def shift_map_def altgr_map_def ctrl_map_def altgr_ctrl_map_def alt_map_def
      ctrl_alt_map_def sym_ok_def list_all_iff)

lemma key_maps_cases:
  assumes "s < 256" "key_maps ! s = Some m"
  shows "m \<in> {plain_map, shift_map, altgr_map, ctrl_map, altgr_ctrl_map, alt_map, ctrl_alt_map}"
proof -
  have "Some m \<in> set key_maps" using assms by (metis length_maps(8) nth_mem)
  then show ?thesis by (auto simp: key_maps_def)
qed

lemma key_maps_sym_ok:
  assumes "s < 256" "key_maps ! s = Some m" "k < 256"
  shows "sym_ok (m ! k)"
  using key_maps_cases [OF assms(1,2)] sym_ok_maps assms(3) by (auto simp: list_all_length)

lemma KTYP_div: "KTYP x = x div 256"
  by (simp add: KTYP_def drop_bit_eq_div)

lemma and_255: "(x :: nat) AND 0xff = x mod 256"
proof -
  have "x AND 0xff = x AND mask 8" by (simp add: mask_eq_exp_minus_1)
  also have "\<dots> = x mod 256" by (simp add: take_bit_eq_mod flip: take_bit_eq_mask)
  finally show ?thesis .
qed

definition shift_value :: "nat \<Rightarrow> nat option" where
  "shift_value k = (if k = 29 \<or> k = 97 then Some 2 else if k = 42 \<or> k = 54 then Some 0
     else if k = 56 then Some 3 else if k = 100 then Some 1 else None)"

lemma shift_key_value: "k < 256 \<Longrightarrow> shift_key k = shift_value k"
proof -
  assume k: "k < 256"
  define f where "f x = (let sym = x XOR 0xf000
      in if KTYP sym = KT_SHIFT \<or> KTYP sym = KT_SLOCK then
           (let val = KVAL sym in Some (if val = KG_CAPSSHIFT then KG_SHIFT else val)) else None)" for x :: nat
  have "map f plain_map = map shift_value [0..<128] @ replicate 128 None"
    unfolding plain_map_def map_append map_replicate
    by (simp add: f_def shift_value_def KTYP_div KVAL_def upt_rec)
  also have "replicate 128 None = map (\<lambda>_. None) [128..<256]"
  proof -
    have "256 - 128 = (128 :: nat)" by simp
    then show ?thesis by (simp only: map_replicate_const length_upt)
  qed
  also have "\<dots> = map shift_value [128..<256]" by (rule map_cong [OF refl]) (simp only: set_upt atLeastLessThan_iff, auto simp: shift_value_def)
  also have "map shift_value [0..<128] @ map shift_value [128..<256] = map shift_value [0..<256]"
  proof -
    have "128 + 128 = (256 :: nat)" by simp
    from upt_add_eq_append [OF le0, of 128 128, unfolded this] show ?thesis by (simp only: map_append)
  qed
  finally have "map f plain_map ! k = map shift_value [0..<256] ! k" by simp
  then show ?thesis using k by (simp add: shift_key_def f_def)
qed

lemma shift_value_less: "shift_value k = Some v \<Longrightarrow> v < 8"
  by (auto simp: shift_value_def split: if_splits)

subsection \<open>Invariant\<close>

definition shift_ok :: "keyboard \<Rightarrow> bool" where
  "shift_ok st \<longleftrightarrow> byte (shift_state st) \<and> (\<forall>v<NR_SHIFT. bit (shift_state st) v \<longleftrightarrow> k_down st v \<noteq> 0)"

definition kb_inv :: "keyboard \<Rightarrow> bool" where
  "kb_inv st \<longleftrightarrow> scanner_ok (scanner st) \<and> shift_ok st \<and> byte (slockstate (kbd st)) \<and> byte (lockstate (kbd st))"

lemma kb_inv_frame [simp]:
  "kb_inv (st\<lparr>sent := a\<rparr>) = kb_inv st" "kb_inv (st\<lparr>npadch := b\<rparr>) = kb_inv st" "kb_inv (st\<lparr>diacr := c\<rparr>) = kb_inv st"
  "kb_inv (st\<lparr>dead_key_next := d\<rparr>) = kb_inv st" "kb_inv (st\<lparr>rep := d\<rparr>) = kb_inv st"
  "kb_inv (st\<lparr>key_down := e\<rparr>) = kb_inv st" "kb_inv (st\<lparr>tty := d\<rparr>) = kb_inv st" "kb_inv (st\<lparr>stopped := d\<rparr>) = kb_inv st"
  "kb_inv (st\<lparr>ledstate := c\<rparr>) = kb_inv st" "kb_inv (st\<lparr>initialised := d\<rparr>) = kb_inv st"
  "kb_inv (st\<lparr>tasklet_enabled := d\<rparr>) = kb_inv st"
  by (simp_all add: kb_inv_def shift_ok_def kbd_def)

lemma kb_inv_output [simp]:
  "kb_inv (put_queue c st) = kb_inv st" "kb_inv (puts_queue cs st) = kb_inv st" "kb_inv (to_utf8 c st) = kb_inv st"
  "kb_inv (applkey k m st) = kb_inv st"
  by (simp_all add: put_queue_def send_ch_def keyboard_data_def puts_queue_def to_utf8_def applkey_def)

lemma kb_inv_upd_kbd:
  "kb_inv st \<Longrightarrow> byte (slockstate (f (kbd st))) \<Longrightarrow> byte (lockstate (f (kbd st))) \<Longrightarrow> kb_inv (upd_kbd f st)"
  by (simp add: kb_inv_def shift_ok_def upd_kbd_def kbd_def)

lemma kb_inv_kbd: "kb_inv st \<Longrightarrow> byte (slockstate (kbd st)) \<and> byte (lockstate (kbd st))"
  by (simp add: kb_inv_def)

lemmas flag_defs = set_vc_kbd_led_def clr_vc_kbd_led_def chg_vc_kbd_led_def chg_vc_kbd_lock_def chg_vc_kbd_slock_def

lemma kb_inv_flags [simp]:
  assumes "kb_inv st"
  shows "kb_inv (upd_kbd (set_vc_kbd_led v) st)" "kb_inv (upd_kbd (clr_vc_kbd_led v) st)"
    "kb_inv (upd_kbd (chg_vc_kbd_led v) st)" "kb_inv (upd_kbd (chg_vc_kbd_lock v) st)"
    "kb_inv (upd_kbd (chg_vc_kbd_slock v) st)" "kb_inv (upd_kbd (\<lambda>k. k\<lparr>slockstate := 0\<rparr>) st)"
  using assms kb_inv_kbd [OF assms] by (auto intro!: kb_inv_upd_kbd simp: flag_defs)

lemma count_shift_inv: "kb_inv st \<Longrightarrow> v < 8 \<Longrightarrow> kb_inv (count_shift v up st)"
  by (auto simp: count_shift_def Let_def kb_inv_def shift_ok_def kbd_def bit_simps)

lemma do_shift_inv:
  assumes "kb_inv st" "value < NR_SHIFT"
  shows "\<exists>st'. do_shift value up st = Some st' \<and> kb_inv st'"
proof -
  have "value = KG_CAPSSHIFT \<or> value < 8" using assms(2) by auto
  then show ?thesis using assms(1) by (auto simp: do_shift_def Let_def count_shift_inv)
qed

lemma count_keys_append: "count_keys (ks @ ls) st = Option.bind (count_keys ks st) (count_keys ls)"
  by (induction ks arbitrary: st) (simp_all add: bind_assoc)

lemma count_keys_up: "\<forall>k\<in>set ks. \<not> key_down st k \<Longrightarrow> count_keys ks st = Some st"
  by (induction ks) (simp_all add: count_key_def)

lemma count_words_keys: "count_words is st = count_keys (concat (map (\<lambda>i. [i * 32..<i * 32 + 32]) is)) st"
proof (induction "is" arbitrary: st)
  case (Cons i "is")
  have "count_keys [i * 32..<i * 32 + 32] st = Some st" if "\<not> (\<exists>j\<in>{0..<32}. key_down st (i * 32 + j))"
    using that by (intro count_keys_up) (auto simp: nat_le_iff_add)
  then have "count_words (i # is) st = Option.bind (count_keys [i * 32..<i * 32 + 32] st) (count_words is)"
    by (cases "\<exists>j\<in>{0..<32}. key_down st (i * 32 + j)") (simp_all del: upt_Suc)
  also have "\<dots> = Option.bind (count_keys [i * 32..<i * 32 + 32] st) (count_keys (concat (map (\<lambda>i. [i * 32..<i * 32 + 32]) is)))"
    using Cons by presburger
  finally show ?case by (simp add: count_keys_append)
qed simp

text \<open>While keys are counted a counter is at most the number of shift keys seen, so it cannot wrap.\<close>

lemma count_keys_inv:
  assumes "shift_ok st" "\<forall>v<NR_SHIFT. k_down st v \<le> n" "n + length (filter (\<lambda>k. shift_value k \<noteq> None) ks) < 256"
    and "\<forall>k\<in>set ks. k < 256"
  shows "\<exists>st'. count_keys ks st = Some st' \<and> shift_ok st' \<and> scanner st' = scanner st \<and> kbd_table st' = kbd_table st"
  using assms
proof (induction ks arbitrary: st n)
  case (Cons k ks)
  show ?case
  proof (cases "key_down st k \<and> shift_value k \<noteq> None")
    case True
    then obtain v where v: "shift_value k = Some v" "v < 8" using shift_value_less by auto
    define s where "s = st\<lparr>k_down := (k_down st)(v := take_bit 8 (k_down st v + 1)), shift_state := set_bit v (shift_state st)\<rparr>"
    have b: "k_down st v < 255" using Cons.prems(2,3) v True by (auto dest!: spec [of _ v])
    then have t: "take_bit 8 (k_down st v + 1) = k_down st v + 1" by (simp add: take_bit_nat_eq_self_iff)
    have "shift_ok s" using Cons.prems(1) v(2) t by (auto simp: shift_ok_def s_def bit_simps)
    moreover have "\<forall>v<NR_SHIFT. k_down s v \<le> Suc n" using Cons.prems(2) t by (auto simp: s_def le_SucI)
    moreover have "Suc n + length (filter (\<lambda>k. shift_value k \<noteq> None) ks) < 256" using Cons.prems(3) True by simp
    ultimately obtain st' where "count_keys ks s = Some st' \<and> shift_ok st' \<and> scanner st' = scanner s \<and> kbd_table st' = kbd_table s"
      using Cons.IH [of s "Suc n"] Cons.prems(4) by auto
    moreover have "count_key k st = Some s"
      using True v Cons.prems(4) by (simp add: count_key_def shift_key_value s_def)
    ultimately show ?thesis by (auto simp: s_def)
  next
    case False
    then have "count_key k st = Some st" using Cons.prems(4) by (auto simp: count_key_def shift_key_value)
    moreover have "n + length (filter (\<lambda>k. shift_value k \<noteq> None) ks) < 256" using Cons.prems(3) by (auto split: if_splits)
    ultimately show ?thesis using Cons.IH [of st n] Cons.prems by auto
  qed
qed simp

lemma concat_words: "concat (map (\<lambda>i. [i * 32..<i * 32 + 32]) [0..<n]) = [0..<n * 32]"
proof (induction n)
  case (Suc n)
  have "[0..<Suc n * 32] = [0..<n * 32] @ [n * 32..<n * 32 + 32]"
    using upt_add_eq_append [of 0 "n * 32" 32] by (simp add: add.commute)
  with Suc show ?case by simp
qed simp

lemma shift_keys_few: "distinct ks \<Longrightarrow> length (filter (\<lambda>k. shift_value k \<noteq> None) ks) < 256"
proof -
  assume "distinct ks"
  define xs where "xs = filter (\<lambda>k. shift_value k \<noteq> None) ks"
  have "set xs \<subseteq> {29, 97, 42, 54, 56, 100}" by (auto simp: xs_def shift_value_def split: if_splits)
  then have "card (set xs) \<le> card {29, 97, 42, 54, 56, 100 :: nat}" by (intro card_mono) auto
  moreover have "card (set xs) = length xs" using \<open>distinct ks\<close> by (simp add: xs_def distinct_card del: set_filter)
  ultimately show ?thesis by (simp add: xs_def)
qed

lemma compute_shiftstate_inv:
  assumes "kb_inv st"
  shows "\<exists>st'. compute_shiftstate st = Some st' \<and> kb_inv st'"
proof -
  define s where "s = st\<lparr>shift_state := 0, k_down := (\<lambda>i. if i < NR_SHIFT then 0 else k_down st i)\<rparr>"
  have "shift_ok s" "\<forall>v<NR_SHIFT. k_down s v \<le> 0" by (simp_all add: s_def shift_ok_def)
  moreover have "0 + length (filter (\<lambda>k. shift_value k \<noteq> None) [0..<8 * 32]) < 256"
    using shift_keys_few [OF distinct_upt, of 0 "8 * 32"] by (simp only: add_0)
  moreover have "\<forall>k\<in>set [0..<8 * 32]. k < 256" by simp
  ultimately obtain st' where "count_keys [0..<8 * 32] s = Some st'" "shift_ok st'" "scanner st' = scanner s" "kbd_table st' = kbd_table s"
    using count_keys_inv by blast
  then show ?thesis
    using assms by (intro exI [of _ st'])
      (simp add: compute_shiftstate_def count_words_keys concat_words s_def kb_inv_def kbd_def)
qed

subsection \<open>Handlers\<close>

lemma decr_loop_ends: "i \<le> 62 \<Longrightarrow> decr_loop (int i) = Some 0"
proof (induction i)
  case (Suc i)
  then have "decr_loop (int (Suc i) - 1) = Some 0" by simp
  with Suc.prems show ?case by (subst decr_loop.simps) (simp add: vc_cons_allocated_def Let_def)
qed (subst decr_loop.simps, simp)

lemma decr_console_nop: "decr_console st = Some st"
proof -
  have "decr_loop 61 = Some 0" using decr_loop_ends [of 61] by simp
  then have "decr_loop (-1) = Some 0" by (subst decr_loop.simps) (simp add: vc_cons_allocated_def Let_def)
  then show ?thesis by (simp add: decr_console_def)
qed

lemma incr_loop_ends: "i \<le> 62 \<Longrightarrow> incr_loop (63 - int i) = Some 0"
proof (induction i)
  case 0
  show ?case by (subst incr_loop.simps) (simp add: vc_cons_allocated_def)
next
  case (Suc i)
  then have "incr_loop (63 - int (Suc i) + 1) = Some 0" by simp
  with Suc.prems show ?case by (subst incr_loop.simps) (simp add: vc_cons_allocated_def Let_def)
qed

lemma incr_console_nop: "incr_console st = Some st"
  using incr_loop_ends [of 62] by (simp add: incr_console_def)

lemma kb_inv_simple [simp]:
  assumes "kb_inv st"
  shows "kb_inv (enter st)" "kb_inv (caps_toggle st)" "kb_inv (caps_on st)" "kb_inv (hold st)" "kb_inv (bare_num st)"
    "kb_inv (num st)" "kb_inv (compose st)" "kb_inv (do_fn v up st)" "kb_inv (do_meta v up st)" "kb_inv (do_ascii v up st)"
    "kb_inv (do_lock v up st)"
  using assms
  by (auto simp: enter_def caps_toggle_def caps_on_def hold_def start_tty_def stop_tty_def bare_num_def num_def
      compose_def do_fn_def do_meta_def do_ascii_def do_lock_def Let_def split: option.splits)

lemma kb_inv_diacr: "kb_inv st \<Longrightarrow> handle_diacr v st = (c, st') \<Longrightarrow> kb_inv st'"
  by (auto simp: handle_diacr_def Let_def split: option.splits prod.splits if_splits)

lemma kb_inv_self [simp]: "kb_inv st \<Longrightarrow> kb_inv (do_self v up st)" "kb_inv st \<Longrightarrow> kb_inv (do_dead2 v up st)"
  by (auto simp: do_self_def do_dead2_def Let_def split: prod.splits if_splits dest: kb_inv_diacr)

lemma do_spec_inv: "kb_inv st \<Longrightarrow> \<exists>st'. do_spec v up st = Some st' \<and> kb_inv st'"
  using compute_shiftstate_inv [of st]
  by (auto simp: do_spec_def spec_fn_def decr_console_nop incr_console_nop)

lemma do_cur_inv: "kb_inv st \<Longrightarrow> v < 5 \<Longrightarrow> \<exists>st'. do_cur v up st = Some st' \<and> kb_inv st'"
  by (auto simp: do_cur_def cur_chars_def)

lemma pad_cursor_inv: "kb_inv st \<Longrightarrow> pad_cursor v st = Some r \<Longrightarrow> \<exists>st'. r = Some st' \<and> kb_inv st'"
  using do_cur_inv [of st _ False] by (auto simp: pad_cursor_def split: if_splits)

lemma do_pad_inv:
  assumes "kb_inv st" "v < 21"
  shows "\<exists>st'. do_pad v up st = Some st' \<and> kb_inv st'"
proof -
  have "v < length pad_chars" using assms(2) by (simp add: pad_chars_def)
  with assms(1) pad_cursor_inv [OF assms(1)] show ?thesis
    by (auto simp: do_pad_def Let_def split: option.splits if_splits)
qed

lemma do_slock_inv:
  assumes "kb_inv st" "v < NR_SHIFT"
  shows "\<exists>st'. do_slock v up st = Some st' \<and> kb_inv st'"
proof -
  obtain s where s: "do_shift v up st = Some s" "kb_inv s" using do_shift_inv [OF assms] by blast
  let ?t = "upd_kbd (chg_vc_kbd_slock v) s"
  have "kb_inv ?t" using s(2) by simp
  then have "lockstate (kbd ?t) XOR slockstate (kbd ?t) < 256" by (intro byte_less) (simp add: kb_inv_def)
  with s show ?thesis by (simp add: do_slock_def Let_def)
qed

lemma length_ret_diacr: "length ret_diacr = 6"
  by (simp add: ret_diacr_def)

lemma key_handler_inv:
  assumes "kb_inv st" "sym_ok x" "t = x div 256 - 0xf0"
  shows "\<exists>st'. key_handler t (x mod 256) up st = Some st' \<and> kb_inv st'"
proof -
  have t: "t = 3 \<Longrightarrow> x mod 256 < 21" "t = 4 \<Longrightarrow> x mod 256 < 6" "t = 6 \<Longrightarrow> x mod 256 < 5"
    "t = 7 \<Longrightarrow> x mod 256 < 9" "t = 12 \<Longrightarrow> x mod 256 < 9"
    using assms(2,3) by (auto simp: sym_ok_def Let_def)
  show ?thesis
    using assms(1) t do_spec_inv [OF assms(1)] do_pad_inv [OF assms(1)] do_cur_inv [OF assms(1)] do_shift_inv [OF assms(1)]
      do_slock_inv [OF assms(1)]
    by (simp add: key_handler_def do_dead_def length_ret_diacr)
qed

lemma handle_keysym_inv:
  assumes "kb_inv st" "byte s" "key_maps ! s = Some m" "k < 256"
  shows "\<exists>st'. handle_keysym k s m up raw st = Some st' \<and> kb_inv st'"
proof -
  have ok: "sym_ok (m ! k)" using key_maps_sym_ok [OF byte_less [OF assms(2)] assms(3,4)] .
  then have t: "0xf0 \<le> KTYP (m ! k)" by (simp add: sym_ok_def KTYP_div Let_def)
  define x where "x = (if vc_kbd_led (kbd st) VC_CAPSLOCK
      then (case key_maps ! (s XOR 1) of Some m' \<Rightarrow> m' ! k | None \<Rightarrow> m ! k) else m ! k)"
  have s1: "(s XOR 1) < length key_maps" using byte_less [of "s XOR 1"] assms(2) by simp
  then have h: "\<exists>st'. key_handler 0 (x AND 0xff) up st = Some st' \<and> kb_inv st'"
    using assms(1) by (simp add: key_handler_def)
  have g: "\<exists>st'. key_handler (KTYP (m ! k) - 0xf0) (m ! k AND 0xff) up st = Some st' \<and> kb_inv st'"
    using key_handler_inv [OF assms(1) ok refl] by (simp add: KTYP_div and_255)
  show ?thesis
  proof (cases "KTYP (m ! k) - 0xf0 = KT_LETTER")
    case True
    then have "handle_keysym k s m up raw st = (if raw then Some st
        else Option.bind (key_handler 0 (x AND 0xff) up st) (\<lambda>st. Some (upd_kbd (\<lambda>k. k\<lparr>slockstate := 0\<rparr>) st)))"
      using t s1 by (simp add: handle_keysym_def Let_def x_def)
    with h assms(1) show ?thesis by auto
  next
    case False
    with t g assms(1) show ?thesis by (auto simp: handle_keysym_def Let_def)
  qed
qed

lemma shift_final_byte:
  "kb_inv st \<Longrightarrow> byte ((shift_state st OR slockstate (kbd st)) XOR lockstate (kbd st))"
  by (simp add: kb_inv_def shift_ok_def)

lemma map_key_inv:
  assumes "kb_inv st" "k < 256"
  shows "\<exists>st'. map_key k up raw st = Some st' \<and> kb_inv st'"
proof -
  have f: "byte ((shift_state st OR slockstate (kbd st)) XOR lockstate (kbd st))" (is "byte ?f")
    by (rule shift_final_byte [OF assms(1)])
  then have "?f < 256" by (rule byte_less)
  then show ?thesis
    using assms(1) compute_shiftstate_inv [OF assms(1)] handle_keysym_inv [OF assms(1) f _ assms(2)]
    by (auto simp: map_key_def Let_def split: option.splits)
qed

lemma note_key_inv: "kb_inv st \<Longrightarrow> kb_inv (snd (note_key k up st))"
  by (simp add: note_key_def)

lemma medium_raw_inv: "kb_inv st \<Longrightarrow> kb_inv (snd (medium_raw k up raw st))"
  by (simp add: medium_raw_def)

lemma handle_keycode_inv: "kb_inv st \<Longrightarrow> k < 256 \<Longrightarrow> \<exists>st'. handle_keycode k up raw st = Some st' \<and> kb_inv st'"
  using map_key_inv medium_raw_inv note_key_inv by (simp add: handle_keycode_def split_def Let_def)

lemma handle_scancode_inv:
  assumes "kb_inv st" "c < 256"
  shows "\<exists>st'. handle_scancode c down st = Some st' \<and> kb_inv st'"
proof -
  define s1 where "s1 = (if kbdmode (kbd (st\<lparr>tty := True\<rparr>)) = VC_RAW
      then put_queue (c OR (if \<not> down then 0x80 else 0)) (st\<lparr>tty := True\<rparr>) else st\<lparr>tty := True\<rparr>)"
  have i1: "kb_inv s1" using assms(1) by (simp add: s1_def)
  then have ok: "scanner_ok (scanner s1)" by (simp add: kb_inv_def)
  obtain k sc where tr: "pckbd_translate c (scanner s1) = (k, sc)" by force
  have i2: "kb_inv (s1\<lparr>scanner := sc\<rparr>)"
    using translate_ok(1) [OF ok assms(2)] i1 tr by (simp add: kb_inv_def shift_ok_def kbd_def)
  have "k = Some j \<Longrightarrow> j < 256" for j using translate_ok(2) [OF ok assms(2)] tr by fastforce
  moreover have "handle_scancode c down st = (case k of None \<Rightarrow> Some (s1\<lparr>scanner := sc\<rparr>)
      | Some j \<Rightarrow> handle_keycode j (\<not> down) (kbdmode (kbd (st\<lparr>tty := True\<rparr>)) = VC_RAW) (s1\<lparr>scanner := sc\<rparr>))"
    by (simp only: handle_scancode_def Let_def s1_def [symmetric] tr prod.case)
  ultimately show ?thesis using i2 handle_keycode_inv [OF i2] by (cases k) auto
qed

lemma kb_inv_leds [simp]: "kb_inv (kbd_bh st) = kb_inv st" "kb_inv (schedule_tasklet st) = kb_inv st"
  by (simp_all add: kbd_bh_def schedule_tasklet_def Let_def)

lemma keyboard_init_inv: "kb_inv st \<Longrightarrow> kb_inv (keyboard_init st)"
  by (simp add: keyboard_init_def) (simp add: kb_inv_def shift_ok_def kbd_def kbd0_def)

lemma boot_keyboard_inv: "kb_inv boot_keyboard"
  by (simp add: kb_inv_def shift_ok_def kbd_def boot_keyboard_def scanner_ok_init)

lemma do_scancode_inv:
  assumes "kb_inv st" "c < 256"
  shows "\<exists>st'. do_scancode c st = Some st' \<and> kb_inv st'"
proof -
  define s where "s = (if \<not> initialised st then keyboard_init (st\<lparr>initialised := True\<rparr>) else st)"
  have "kb_inv s" using assms(1) by (simp add: s_def keyboard_init_inv)
  then show ?thesis
    using handle_scancode_inv [of s c "c AND 0x80 = 0"] assms(2)
    by (auto simp: do_scancode_def s_def [symmetric])
qed

lemma scancodes_inv: "kb_inv st \<Longrightarrow> \<forall>c\<in>set cs. c < 256 \<Longrightarrow> \<exists>st'. scancodes cs st = Some st' \<and> kb_inv st'"
proof (induction cs arbitrary: st)
  case (Cons c cs)
  then obtain s where "do_scancode c st = Some s" "kb_inv s" using do_scancode_inv [of st c] by auto
  with Cons show ?case by simp
qed simp

subsection \<open>Typing a character\<close>

text \<open>The symbol that a key has under the current modifiers: CapsLock exchanges the maps of a letter.\<close>

definition key_symbol :: "keyboard \<Rightarrow> nat \<Rightarrow> nat option" where
  "key_symbol st k = (case key_maps ! shift_state st of None \<Rightarrow> None
     | Some m \<Rightarrow> Some (if KTYP (m ! k) = 0xfb \<and> vc_kbd_led (kbd st) VC_CAPSLOCK
         then (case key_maps ! (shift_state st XOR 1) of Some m' \<Rightarrow> m' ! k | None \<Rightarrow> m ! k) else m ! k))"

text \<open>The driver between two keys, with no sticky key, dead key or lock pending, in the mode it starts in.\<close>

definition idle :: "keyboard \<Rightarrow> bool" where
  "idle st \<longleftrightarrow> initialised st \<and> tty st \<and> prev_scancode (scanner st) = 0 \<and> kbdmode (kbd st) = VC_XLATE
     \<and> lockstate (kbd st) = 0 \<and> slockstate (kbd st) = 0 \<and> diacr st = 0 \<and> \<not> dead_key_next st \<and> ledstate st = getleds st"

lemma translate_plain:
  "0 < c \<Longrightarrow> c < 89 \<Longrightarrow> prev_scancode sc = 0 \<Longrightarrow> pckbd_translate c sc = (Some c, sc) \<and> pckbd_translate (c + 128) sc = (Some c, sc)"
  by (auto simp: pckbd_translate_def SC_LIM_def Let_def)

lemma upd_kbd_slock_0: "slockstate (kbd st) = 0 \<Longrightarrow> upd_kbd (\<lambda>k. k\<lparr>slockstate := 0\<rparr>) st = st"
  by (simp add: upd_kbd_def kbd_def fun_upd_idem)

lemma handle_keysym_character:
  assumes "idle st" "key_maps ! shift_state st = Some m" "key_symbol st k = Some x"
    "byte (shift_state st)" "KTYP (m ! k) = 0xf0 \<or> KTYP (m ! k) = 0xfb"
  shows "handle_keysym k (shift_state st) m up False st = Some (do_self (x AND 0xff) up st)"
proof -
  have "(shift_state st XOR 1) < 256" using assms(4) by (intro byte_less) simp
  moreover have "slockstate (kbd (do_self v up st)) = 0" for v
    using assms(1) by (auto simp: idle_def do_self_def kbd_def put_queue_def send_ch_def keyboard_data_def)
  ultimately have u: "upd_kbd (\<lambda>k. k\<lparr>slockstate := 0\<rparr>) (do_self v up st) = do_self v up st"
    and c: "(shift_state st XOR 1) < length key_maps" for v by (simp_all add: upd_kbd_slock_0)
  show ?thesis
  proof (cases "KTYP (m ! k) = 0xf0")
    case True
    then have "x = m ! k" using assms(2,3) by (simp add: key_symbol_def)
    with True u show ?thesis by (simp add: handle_keysym_def key_handler_def)
  next
    case False
    then have t: "KTYP (m ! k) = 0xfb" using assms(5) by simp
    have "x = (if vc_kbd_led (kbd st) VC_CAPSLOCK
        then (case key_maps ! (shift_state st XOR 1) of Some m' \<Rightarrow> m' ! k | None \<Rightarrow> m ! k) else m ! k)"
      using assms(2,3) t by (simp add: key_symbol_def)
    with t u c show ?thesis
      by (cases "vc_kbd_led (kbd st) VC_CAPSLOCK") (simp_all add: handle_keysym_def key_handler_def Let_def)
  qed
qed

lemma kbd_frame [simp]:
  "kbd (st\<lparr>rep := a\<rparr>) = kbd st" "kbd (st\<lparr>key_down := b\<rparr>) = kbd st" "kbd (st\<lparr>sent := c\<rparr>) = kbd st"
  "kbd (st\<lparr>tty := a\<rparr>) = kbd st" "kbd (st\<lparr>scanner := d\<rparr>) = kbd st"
  by (simp_all add: kbd_def)

lemma getleds_frame [simp]:
  "getleds (st\<lparr>rep := a\<rparr>) = getleds st" "getleds (st\<lparr>key_down := b\<rparr>) = getleds st" "getleds (st\<lparr>sent := c\<rparr>) = getleds st"
  by (simp_all add: getleds_def led_from_mem_def Let_def)

lemma idle_frame [simp]:
  "idle (st\<lparr>rep := a\<rparr>) = idle st" "idle (st\<lparr>key_down := b\<rparr>) = idle st" "idle (st\<lparr>sent := c\<rparr>) = idle st"
  by (simp_all add: idle_def)

lemma key_symbol_frame [simp]:
  "key_symbol (st\<lparr>rep := a\<rparr>) = key_symbol st" "key_symbol (st\<lparr>key_down := b\<rparr>) = key_symbol st"
  "key_symbol (st\<lparr>sent := c\<rparr>) = key_symbol st"
  by (simp_all add: key_symbol_def fun_eq_iff split: option.split)

lemma and_128: "(c :: nat) AND 0x80 = 0 \<longleftrightarrow> even (c div 128)"
proof -
  have "bit c 7 \<longleftrightarrow> c AND 0x80 \<noteq> 0" using bit_iff_and_push_bit_not_eq_0 [of c 7] by simp
  moreover have "bit c 7 \<longleftrightarrow> odd (c div 128)" by (simp add: bit_iff_odd)
  ultimately show ?thesis by blast
qed

lemma map_key_idle:
  assumes "idle st" "\<not> rep st" "byte (shift_state st)" "key_maps ! shift_state st = Some m"
    "key_symbol st k = Some x" "KTYP (m ! k) = 0xf0 \<or> KTYP (m ! k) = 0xfb"
  shows "map_key k up False st = Some (do_self (x AND 0xff) up st)"
  using assms byte_less [OF assms(3)] handle_keysym_character [OF assms(1,4,5,3,6), of up]
  by (simp add: map_key_def idle_def)

lemma do_self_idle: "idle st \<Longrightarrow> v < 256 \<Longrightarrow> v \<noteq> 0 \<Longrightarrow> do_self v False st = st\<lparr>sent := sent st @ [Data [v]]\<rparr>"
  by (simp add: idle_def do_self_def put_queue_def send_ch_def keyboard_data_def take_bit_nat_eq_self)

lemma do_scancode_idle:
  assumes "idle st" "0 < k" "k < 89" "c = (if up then k + 128 else k)"
    "note_key k up st = (up', s)" "map_key k up' False s = Some s'" "getleds s' = ledstate s'" "kbd s = kbd st"
  shows "do_scancode c st = Some s'"
proof -
  have st: "st\<lparr>tty := True, scanner := scanner st\<rparr> = st" "st\<lparr>tty := True\<rparr> = st"
    using assms(1) by (simp_all add: idle_def)
  have "(k + 128) div 128 = 1" using assms(3) by (simp add: div_add_self2)
  then have d: "(c AND 0x80 = 0) = (\<not> up)" using assms(3,4) by (auto simp: and_128)
  have tr: "pckbd_translate c (scanner st) = (Some k, scanner st)"
    using translate_plain [OF assms(2,3)] assms(1,4) by (simp add: idle_def)
  have "kbdmode (kbd st) = 0" using assms(1) by (simp add: idle_def)
  then have "handle_scancode c (\<not> up) st = Some s'"
    using assms(5,6,8) tr st by (simp add: handle_scancode_def handle_keycode_def medium_raw_def)
  moreover have "c \<noteq> 0" "c \<noteq> 0xff" "initialised st" using assms(1-4) by (auto simp: idle_def)
  ultimately show ?thesis using assms(7) d by (simp add: do_scancode_def kbd_bh_def)
qed

text \<open>Driver states that differ only in the output and in the repeat flag.\<close>

definition same_keys :: "keyboard \<Rightarrow> keyboard \<Rightarrow> bool" where
  "same_keys st st' \<longleftrightarrow> st'\<lparr>rep := rep st, sent := sent st\<rparr> = st"

lemma press_release:
  assumes "idle st" "byte (shift_state st)" "0 < k" "k < 89" "\<not> key_down st k"
    "key_maps ! shift_state st = Some m" "key_symbol st k = Some x" "KTYP (m ! k) = 0xf0 \<or> KTYP (m ! k) = 0xfb"
    "x mod 256 \<noteq> 0"
  shows "\<exists>st' st''. do_scancode k st = Some st' \<and> sent st' = sent st @ [Data [x mod 256]]
    \<and> do_scancode (k + 128) st' = Some st'' \<and> sent st'' = sent st' \<and> same_keys st st''"
proof -
  define s1 where "s1 = st\<lparr>rep := False, key_down := (key_down st)(k := True)\<rparr>"
  define s2 where "s2 = s1\<lparr>sent := sent st @ [Data [x mod 256]]\<rparr>"
  define s3 where "s3 = s2\<lparr>key_down := (key_down st)(k := False)\<rparr>"
  have l: "getleds st = ledstate st" using assms(1) by (simp add: idle_def)
  have "map_key k False False s1 = Some (do_self (x AND 0xff) False s1)"
    using assms by (intro map_key_idle [of s1 m]) (simp_all add: s1_def)
  also have "do_self (x AND 0xff) False s1 = s2"
    using assms(1,9) do_self_idle [of s1 "x mod 256"] by (simp add: s1_def s2_def and_255)
  finally have p1: "do_scancode k st = Some s2"
    using assms(5) l by (intro do_scancode_idle [OF assms(1,3,4), of k False False s1])
      (simp_all add: note_key_def s1_def s2_def)
  have "map_key k True False s3 = Some (do_self (x AND 0xff) True s3)"
    using assms by (intro map_key_idle [of s3 m]) (simp_all add: s1_def s2_def s3_def)
  also have "do_self (x AND 0xff) True s3 = s3" by (simp add: do_self_def)
  finally have p2: "do_scancode (k + 128) s2 = Some s3"
    using assms(1) l by (intro do_scancode_idle [OF _ assms(3,4), of s2 "k + 128" True True s3])
      (simp_all add: note_key_def s1_def s2_def s3_def)
  have "(key_down st)(k := False) = key_down st" using assms(5) by (simp add: fun_upd_idem)
  then have "same_keys st s3" by (simp add: same_keys_def s3_def s2_def s1_def)
  with p1 p2 show ?thesis by (auto simp: s2_def s3_def)
qed

subsection \<open>Properties\<close>



text \<open>C40: pressing a character key sends exactly the character that the key map of the current modifiers
  holds for it, with the maps of a letter exchanged under CapsLock; releasing the key sends nothing and
  leaves the driver as it was before.\<close>

theorem key_press_sends_character:
  assumes "idle st" "shift_state st < 256" "key_maps ! shift_state st = Some m" "0 < k" "k < 89" "\<not> key_down st k"
    "key_symbol st k = Some x" "KTYP (m ! k) = 0xf0 \<or> KTYP (m ! k) = 0xfb" "x mod 256 \<noteq> 0"
  shows "\<exists>st' st''. do_scancode k st = Some st' \<and> sent st' = sent st @ [Data [x mod 256]]
    \<and> do_scancode (k + 128) st' = Some st'' \<and> sent st'' = sent st' \<and> same_keys st st''"
proof -
  have "take_bit 8 (shift_state st) = shift_state st" using assms(2) by (simp add: take_bit_nat_eq_self)
  then have "byte (shift_state st)" using byte_simps(2) [of "shift_state st"] by simp
  then show ?thesis using press_release assms by blast
qed

definition ready_keyboard :: keyboard where
  "ready_keyboard = (keyboard_init (boot_keyboard\<lparr>initialised := True\<rparr>))\<lparr>tty := True\<rparr>"

theorem key_press_sends_character_witness:
  "\<exists>st' st''. do_scancode 0x10 ready_keyboard = Some st' \<and> sent st' = [Leds 0, Data [97]]
    \<and> do_scancode 0x90 st' = Some st'' \<and> sent st'' = sent st' \<and> same_keys ready_keyboard st''"
proof -
  have r: "idle ready_keyboard" "shift_state ready_keyboard = 0" "\<not> key_down ready_keyboard 16"
    "sent ready_keyboard = [Leds 0]" "\<not> vc_kbd_led (kbd ready_keyboard) VC_CAPSLOCK"
    by (simp_all add: ready_keyboard_def keyboard_init_def schedule_tasklet_def kbd_bh_def getleds_def
        boot_keyboard_def idle_def kbd_def kbd0_def init_scanner_def vc_kbd_led_def)
  have m: "key_maps ! 0 = Some plain_map" "plain_map ! 16 = 0xfb61"
    by (simp_all add: key_maps_def plain_map_def)
  then have "key_symbol ready_keyboard 16 = Some 0xfb61" using r by (simp add: key_symbol_def)
  from key_press_sends_character [OF r(1) _ _ _ _ r(3) this, of plain_map] show ?thesis
    using r m by (simp add: KTYP_div)
qed



end
