(* ===== verification/Kbd.thy ===== *)
theory Kbd
  imports Ipc Doprnt
begin

text \<open>
  The terminal input of \<^verbatim>\<open>kernel/kbd.c\<close>: the message queue behind \<open>stdin\<close>, the delivery of typed
  characters by \<open>keyboard_data\<close>, the line editor \<open>cons_read\<close> and the echo.

  Both loops call message queue operations that may switch processes, so they are suspended on the
  kernel stack of the process. Their continuation lies below the frames of \<open>Process\<close>: \<open>io\<close> holds it
  for every process, and \<open>sys_step\<close> resumes it once the frames above it are done. A \<open>system\<close> adds to the
  kernel the bytes of the buffers given to \<open>cons_read\<close>, the two variables of the file, the addresses of
  the local variables \<open>receiver\<close> and \<open>count\<close> on each kernel stack, and the writes to the keyboard ports.
\<close>

subsection \<open>State\<close>

definition KEY_BUFFER_SIZE :: int where "KEY_BUFFER_SIZE = 512"

definition PS2_CONTROL_PORT :: nat where "PS2_CONTROL_PORT = 0x64"

definition PS2_DATA_PORT :: nat where "PS2_DATA_PORT = 0x60"

datatype io_frame = Read_next nat nat nat | Read_got nat nat nat
  | Data_next "nat list" | Data_counted "nat list" | Data_sent "nat list" | Iret int

record system =
  kern :: kernel
  bytes :: "nat \<Rightarrow> nat"
  echo_enabled :: bool
  stdin_fid :: int
  receiver_at :: "nat \<Rightarrow> nat"
  count_at :: "nat \<Rightarrow> nat"
  io :: "nat \<Rightarrow> io_frame list"
  kbd_ports :: "(nat \<times> nat) list"

definition push_io :: "nat \<Rightarrow> io_frame list \<Rightarrow> system \<Rightarrow> system" where
  "push_io r fs sys = sys\<lparr>io := (io sys)(r := fs @ io sys r)\<rparr>"

definition set_eax :: "int \<Rightarrow> system \<Rightarrow> system" where
  "set_eax v sys = sys\<lparr>kern := (kern sys)\<lparr>eax := v\<rparr>\<rparr>"

subsection \<open>Operations\<close>

text \<open>\<open>echo\<close>: the formats are \<open>"\n"\<close>, \<open>"%c"\<close> and \<open>"^%c"\<close>.\<close>

definition echo :: "nat \<Rightarrow> console \<Rightarrow> console option" where
  "echo c con =
     (if c = 13 then map_option snd (printf [10] [] con)
      else if c = 9 \<or> 32 \<le> c \<and> c \<le> 127 then map_option snd (printf [37, 99] [Arg_word (word_of_nat c)] con)
      else if c < 32 then map_option snd (printf [94, 37, 99] [Arg_word (word_of_nat (64 + c))] con)
      else Some con)"

definition echo_if_enabled :: "nat \<Rightarrow> system \<Rightarrow> system option" where
  "echo_if_enabled c sys =
     (if echo_enabled sys then do {
        con \<leftarrow> echo c (kconsole (kern sys));
        Some (sys\<lparr>kern := (kern sys)\<lparr>kconsole := con\<rparr>\<rparr>)
      } else Some sys)"

definition stdin_init :: "system \<Rightarrow> system option" where
  "stdin_init sys = do {
     kassert (stdin_fid sys = -1);
     (fid, t, h) \<leftarrow> pcreate KEY_BUFFER_SIZE (mqt (kern sys)) (kheap (kern sys));
     kassert (fid \<ge> 0);
     Some (sys\<lparr>kern := (kern sys)\<lparr>mqt := t, kheap := h\<rparr>, stdin_fid := fid, echo_enabled := True\<rparr>)
   }"

definition cons_echo :: "bool \<Rightarrow> system \<Rightarrow> system" where
  "cons_echo on sys = sys\<lparr>echo_enabled := on\<rparr>"

definition kbd_leds :: "nat \<Rightarrow> system \<Rightarrow> system" where
  "kbd_leds leds sys = sys\<lparr>kbd_ports := kbd_ports sys @ [(PS2_CONTROL_PORT, 0xED), (PS2_DATA_PORT, leds)]\<rparr>"

text \<open>\<open>keyboard_data\<close> runs in the keyboard interrupt of process \<open>r\<close>: its loop is \<open>Data_next\<close> (test of the
  end of the string, call of \<open>pcount\<close>), \<open>Data_counted\<close> (the test of \<open>count\<close>, call of \<open>psend\<close>) and
  \<open>Data_sent\<close> (the assertion on its result), with the bytes up to the terminating zero. \<open>Iret\<close> restores the
  registers of the interrupted process.\<close>

definition keyboard_data_int :: "nat list \<Rightarrow> system \<Rightarrow> system option" where
  "keyboard_data_int str sys = do {
     r \<leftarrow> running_process (ptable (kern sys));
     Some (push_io r [Data_next str, Iret (eax (kern sys))] sys)
   }"

definition data_next :: "nat \<Rightarrow> nat list \<Rightarrow> system \<Rightarrow> system option" where
  "data_next r str sys =
     (if str = [] then Some sys
      else do {
        k \<leftarrow> pcount (stdin_fid sys) (count_at sys r) (kern sys);
        Some (push_io r [Data_counted str] (sys\<lparr>kern := k\<rparr>))
      })"

definition data_counted :: "nat \<Rightarrow> nat list \<Rightarrow> system \<Rightarrow> system option" where
  "data_counted r str sys = do {
     kassert (eax (kern sys) = 0);
     (if memory (kern sys) (count_at sys r) > KEY_BUFFER_SIZE then Some sys
      else do {
        k \<leftarrow> psend (stdin_fid sys) (schar (hd str)) (kern sys);
        Some (push_io r [Data_sent (tl str)] (sys\<lparr>kern := k\<rparr>))
      })
   }"

definition data_sent :: "nat \<Rightarrow> nat list \<Rightarrow> system \<Rightarrow> system option" where
  "data_sent r str sys = do {
     kassert (eax (kern sys) = 0);
     Some (push_io r [Data_next str] sys)
   }"

text \<open>\<open>cons_read\<close>: \<open>Read_next str length i\<close> is the head of its loop, \<open>Read_got\<close> the code after \<open>preceive\<close>.\<close>

definition cons_read :: "nat \<Rightarrow> nat \<Rightarrow> system \<Rightarrow> system option" where
  "cons_read str len sys = do {
     kassert (len > 0);
     r \<leftarrow> running_process (ptable (kern sys));
     Some (push_io r [Read_next str len 0] sys)
   }"

definition read_next :: "nat \<Rightarrow> nat \<Rightarrow> nat \<Rightarrow> nat \<Rightarrow> system \<Rightarrow> system option" where
  "read_next r str len i sys =
     (if i < len then do {
        k \<leftarrow> preceive (stdin_fid sys) (receiver_at sys r) (kern sys);
        Some (push_io r [Read_got str len i] (sys\<lparr>kern := k\<rparr>))
      }
      else do {
        sys \<leftarrow> echo_if_enabled 13 sys;
        Some (set_eax (int i) sys)
      })"

definition read_got :: "nat \<Rightarrow> nat \<Rightarrow> nat \<Rightarrow> nat \<Rightarrow> system \<Rightarrow> system option" where
  "read_got r str len i sys = do {
     kassert (eax (kern sys) = 0);
     let c = nat (memory (kern sys) (receiver_at sys r) mod 256);
     (if c = 13 then do {
        sys \<leftarrow> echo_if_enabled c sys;
        Some (set_eax (int i) sys)
      }
      else if c = 127 then
        (if i > 0 then do {
           sys \<leftarrow> echo_if_enabled c sys;
           Some (push_io r [Read_next str len (i - 1)] sys)
         }
         else Some (push_io r [Read_next str len i] sys))
      else if c < 127 then do {
        sys \<leftarrow> echo_if_enabled c sys;
        Some (push_io r [Read_next str len (i + 1)] (sys\<lparr>bytes := (bytes sys)(str + i := c)\<rparr>))
      }
      else Some (push_io r [Read_next str len i] sys))
   }"

subsection \<open>The machine\<close>

fun exec_io :: "nat \<Rightarrow> io_frame \<Rightarrow> system \<Rightarrow> system option" where
  "exec_io r (Read_next str len i) sys = read_next r str len i sys"
| "exec_io r (Read_got str len i) sys = read_got r str len i sys"
| "exec_io r (Data_next str) sys = data_next r str sys"
| "exec_io r (Data_counted str) sys = data_counted r str sys"
| "exec_io r (Data_sent str) sys = data_sent r str sys"
| "exec_io r (Iret v) sys = Some (set_eax v sys)"

text \<open>A kernel stack that has been freed holds no continuation.\<close>

definition live_io :: "kernel \<Rightarrow> (nat \<Rightarrow> io_frame list) \<Rightarrow> nat \<Rightarrow> io_frame list" where
  "live_io k f s = (if kernel_stack (proc k s) = 0 then [] else f s)"

definition sys_step :: "system \<Rightarrow> system option" where
  "sys_step sys =
     (if kstack (kern sys) \<noteq> [] then map_option (\<lambda>k. sys\<lparr>kern := k, io := live_io k (io sys)\<rparr>) (kstep (kern sys))
      else case running_process (ptable (kern sys)) of None \<Rightarrow> Some sys
        | Some r \<Rightarrow> (case io sys r of [] \<Rightarrow> Some sys
            | f # fs \<Rightarrow> exec_io r f (sys\<lparr>io := (io sys)(r := fs)\<rparr>)))"

fun sys_run :: "nat \<Rightarrow> system \<Rightarrow> system option" where
  "sys_run 0 sys = Some sys"
| "sys_run (Suc n) sys = Option.bind (sys_step sys) (sys_run n)"

lemma sys_run_add: "sys_run (m + n) sys = Option.bind (sys_run m sys) (sys_run n)"
  by (induction m arbitrary: sys) (auto split: bind_splits)

definition reaches :: "system \<Rightarrow> system \<Rightarrow> bool" where
  "reaches sys sys' \<longleftrightarrow> (\<exists>n. sys_run n sys = Some sys')"

lemma reaches_refl [simp]: "reaches sys sys"
  unfolding reaches_def by (rule exI [of _ 0]) simp

lemma reaches_trans: "reaches a b \<Longrightarrow> reaches b c \<Longrightarrow> reaches a c"
  unfolding reaches_def by (metis sys_run_add bind.bind_lunit)

lemma reaches_step: "sys_step a = Some b \<Longrightarrow> reaches b c \<Longrightarrow> reaches a c"
  unfolding reaches_def by (metis sys_run.simps(2) bind.bind_lunit)

subsection \<open>Echo\<close>

definition echo_text :: "nat \<Rightarrow> nat list" where
  "echo_text c = (if c = 13 then [10] else if c = 9 \<or> 32 \<le> c \<and> c \<le> 127 then [c]
     else if c < 32 then [94, 64 + c] else [])"

lemma doprnt_c:
  assumes "c < 256"
  shows "doprnt [37, 99] [Arg_word (word_of_nat c)] 0 = Some [c]"
proof -
  have "unat (word_of_nat c :: 32 word) mod 256 = c"
    using assms by (simp add: unat_of_nat take_bit_eq_mod)
  then show ?thesis
    by (simp add: directive_def parse_spec_def parse_width_def parse_prec_def starts_with_def isdigit_def
        convert_def no_flags_def)
qed

lemma printf_snd:
  "doprnt fmt args 0 = Some out \<Longrightarrow> map_option snd (printf fmt args con) = console_putbytes out con"
  by (auto simp: printf_def vprintf_eq split: bind_splits)

lemma echo_eq: "c < 256 \<Longrightarrow> echo c con = console_putbytes (echo_text c) con"
  using doprnt_c [of c] doprnt_c [of "64 + c"]
  by (auto simp: echo_def echo_text_def printf_snd)

subsection \<open>Reading a line\<close>

text \<open>Process \<open>r\<close> runs with nothing above its own code, and nobody is blocked on the open queue of \<open>stdin\<close>.\<close>

abbreviation stdin :: "system \<Rightarrow> message_queue_t" where
  "stdin sys \<equiv> the_mq (stdin_fid sys) (kern sys)"

definition terminal :: "nat \<Rightarrow> system \<Rightarrow> bool" where
  "terminal r sys \<longleftrightarrow> valid_fid (stdin_fid sys) (mqt (kern sys)) \<and> mq_inv (stdin sys) \<and> mq_nodes (stdin sys) = []
     \<and> running_process (ptable (kern sys)) = Some r \<and> kernel_stack (proc (kern sys) r) \<noteq> 0
     \<and> kstack (kern sys) = [] \<and> receiver_at sys r \<noteq> 0 \<and> count_at sys r \<noteq> 0 \<and> console_ok (kconsole (kern sys))"

definition same_env :: "system \<Rightarrow> system \<Rightarrow> bool" where
  "same_env sys sys' \<longleftrightarrow> ptable (kern sys') = ptable (kern sys) \<and> process_queue (kern sys') = process_queue (kern sys)
     \<and> (\<forall>i. i \<noteq> nat (stdin_fid sys) \<longrightarrow> mq_data (mqt (kern sys')) i = mq_data (mqt (kern sys)) i)
     \<and> mq_size (stdin sys') = mq_size (stdin sys)
     \<and> stdin_fid sys' = stdin_fid sys \<and> receiver_at sys' = receiver_at sys \<and> count_at sys' = count_at sys
     \<and> echo_enabled sys' = echo_enabled sys \<and> kbd_ports sys' = kbd_ports sys"

lemma same_env_refl [simp]: "same_env sys sys"
  by (simp add: same_env_def)

lemma same_env_trans: "same_env a b \<Longrightarrow> same_env b c \<Longrightarrow> same_env a c"
  by (auto simp: same_env_def)

definition typed :: "system \<Rightarrow> nat list" where
  "typed sys = map (\<lambda>m. nat (m mod 256)) (messages (stdin sys))"

text \<open>A call that pushes only its result comes back in one more step.\<close>

lemma call_returns:
  assumes "sys_step sys = Some (s1\<lparr>kern := push [Return v] k\<rparr>)" "kstack k = []" "kernel_stack (proc k r) \<noteq> 0"
  obtains f where "reaches sys (s1\<lparr>kern := k\<lparr>eax := v\<rparr>, io := f\<rparr>)" "f r = io s1 r"
proof
  have "sys_step (s1\<lparr>kern := push [Return v] k\<rparr>) = Some (s1\<lparr>kern := k\<lparr>eax := v\<rparr>, io := live_io k (io s1)\<rparr>)"
    using assms(2,3) by (simp add: sys_step_def kstep_def push_def live_io_def fun_eq_iff)
  then show "reaches sys (s1\<lparr>kern := k\<lparr>eax := v\<rparr>, io := live_io k (io s1)\<rparr>)"
    using assms(1) by (metis reaches_step reaches_refl)
  show "live_io k (io s1) r = io s1 r" using assms(3) by (simp add: live_io_def)
qed

lemma read_takes_character:
  assumes "terminal r sys" "io sys r = Read_next str len i # fs" "i < len" "messages (stdin sys) = m # ms"
  shows "\<exists>sys'. reaches sys sys' \<and> io sys' r = Read_got str len i # fs \<and> eax (kern sys') = 0
    \<and> memory (kern sys') (receiver_at sys r) = m \<and> messages (stdin sys') = ms \<and> terminal r sys'
    \<and> same_env sys sys' \<and> bytes sys' = bytes sys \<and> kconsole (kern sys') = kconsole (kern sys)"
proof -
  let ?fid = "stdin_fid sys" let ?a = "receiver_at sys r"
  note t = assms(1) [unfolded terminal_def]
  obtain q where q: "preceive ?fid ?a (kern sys)
      = Some (push [Return 0] (store_result ?a m (set_mq ?fid q (kern sys))))"
    "mq_inv q" "messages q = ms" "mq_nodes q = []" "mq_size q = mq_size (stdin sys)" "buffer q = buffer (stdin sys)"
    using preceive_takes [of ?fid "kern sys" m ms ?a] t assms(4) by blast
  define k where "k = store_result ?a m (set_mq ?fid q (kern sys))"
  define s1 where "s1 = push_io r [Read_got str len i] (sys\<lparr>io := (io sys)(r := fs)\<rparr>)"
  have k: "kstack k = []" "kernel_stack (proc k r) \<noteq> 0" "memory k ?a = m" "the_mq ?fid k = q"
    "valid_fid ?fid (mqt k)" "kconsole k = kconsole (kern sys)"
    using t q(6) by (simp_all add: k_def valid_fid_def store_result_def set_word_def the_mq_def set_mq_def)
  have "sys_step sys = Some (s1\<lparr>kern := push [Return 0] k\<rparr>)"
    using t assms(2,3) q(1) by (simp add: sys_step_def read_next_def s1_def push_io_def k_def)
  then obtain f where f: "reaches sys (s1\<lparr>kern := k\<lparr>eax := 0\<rparr>, io := f\<rparr>)" "f r = io s1 r"
    using call_returns [OF _ k(1,2)] by blast
  have io: "f r = Read_got str len i # fs" using f(2) by (simp add: s1_def push_io_def)
  have "terminal r (s1\<lparr>kern := k\<lparr>eax := 0\<rparr>, io := f\<rparr>)"
    using t k q(2,4) by (simp add: terminal_def s1_def push_io_def the_mq_def) (simp add: k_def)
  moreover have "same_env sys (s1\<lparr>kern := k\<lparr>eax := 0\<rparr>, io := f\<rparr>)"
    using k(4) q(5) by (simp add: same_env_def s1_def push_io_def the_mq_def) (simp add: k_def store_result_def set_word_def set_mq_def)
  ultimately show ?thesis
    using f(1) io k q(3) by (intro exI [of _ "s1\<lparr>kern := k\<lparr>eax := 0\<rparr>, io := f\<rparr>"]) (simp add: s1_def push_io_def the_mq_def)
qed

text \<open>What the line editor is meant to do with the typed characters: the line, the characters it echoes, and
  those it leaves in the queue; \<open>None\<close> when the line is not complete yet.\<close>

fun line_edit :: "nat \<Rightarrow> nat list \<Rightarrow> nat list \<Rightarrow> (nat list \<times> nat list \<times> nat list) option" where
  "line_edit len line [] = (if len \<le> length line then Some (line, [13], []) else None)"
| "line_edit len line (c # cs) =
     (if len \<le> length line then Some (line, [13], c # cs)
      else if c = 13 then Some (line, [13], cs)
      else if c = 127 \<and> line \<noteq> [] then map_option (apsnd (apfst (Cons c))) (line_edit len (butlast line) cs)
      else if c < 127 then map_option (apsnd (apfst (Cons c))) (line_edit len (line @ [c]) cs)
      else line_edit len line cs)"

definition screen_after :: "bool \<Rightarrow> nat list \<Rightarrow> console \<Rightarrow> console \<Rightarrow> bool" where
  "screen_after on cs con con' \<longleftrightarrow>
     (if on then console_putbytes (concat (map echo_text cs)) con = Some con' else con' = con)"

lemma screen_after_Nil [simp]: "screen_after on [] con con"
  by (simp add: screen_after_def)

lemma screen_after_Cons:
  "screen_after on [c] con con1 \<Longrightarrow> screen_after on cs con1 con2 \<Longrightarrow> screen_after on (c # cs) con con2"
  by (simp add: screen_after_def console_putbytes_append split: if_splits)

lemma echo_step:
  assumes "console_ok (kconsole (kern sys))" "c < 256"
  obtains con where "\<And>f. echo_if_enabled c (sys\<lparr>io := f\<rparr>) = Some (sys\<lparr>kern := (kern sys)\<lparr>kconsole := con\<rparr>, io := f\<rparr>)"
    "console_ok con"
    "screen_after (echo_enabled sys) [c] (kconsole (kern sys)) con"
proof (cases "echo_enabled sys")
  case True
  then show ?thesis using that console_putbytes_ok [OF assms(1), of "echo_text c"] echo_eq [OF assms(2)]
    by (auto simp: echo_if_enabled_def screen_after_def)
next
  case False
  then show ?thesis using that [of "kconsole (kern sys)"] assms(1) by (simp add: echo_if_enabled_def screen_after_def)
qed

text \<open>Progress of the loop from \<open>sys\<close> to \<open>sys'\<close>: \<open>line\<close> is in the buffer, \<open>cs\<close> were echoed and \<open>fs\<close> is left to do.\<close>

definition read_on :: "nat \<Rightarrow> nat \<Rightarrow> nat \<Rightarrow> io_frame list \<Rightarrow> nat list \<Rightarrow> nat list \<Rightarrow> system \<Rightarrow> system \<Rightarrow> bool" where
  "read_on r str len fs line cs sys sys' \<longleftrightarrow> reaches sys sys' \<and> terminal r sys' \<and> same_env sys sys' \<and> io sys' r = fs
     \<and> bytes_at (bytes sys') str (length line) = line
     \<and> (\<forall>a. a < str \<or> str + len \<le> a \<longrightarrow> bytes sys' a = bytes sys a)
     \<and> screen_after (echo_enabled sys) cs (kconsole (kern sys)) (kconsole (kern sys'))"

lemma read_on_echo:
  assumes "read_on r str len fs line [c] sys sys1" "read_on r str len gs line' cs sys1 sys2"
  shows "read_on r str len gs line' (c # cs) sys sys2"
  using assms by (auto simp: read_on_def same_env_def intro: reaches_trans screen_after_Cons)

lemma read_on_silent:
  assumes "read_on r str len fs line [] sys sys1" "read_on r str len gs line' cs sys1 sys2"
  shows "read_on r str len gs line' cs sys sys2"
  using assms by (auto simp: read_on_def same_env_def screen_after_def intro: reaches_trans)

lemma read_on_step:
  assumes "terminal r sys" "io sys r = f # fs"
    and "exec_io r f (sys\<lparr>io := (io sys)(r := fs)\<rparr>)
      = Some (sys\<lparr>kern := (kern sys)\<lparr>kconsole := con, eax := v\<rparr>, bytes := b, io := (io sys)(r := gs)\<rparr>)" (is "_ = Some ?s")
    and "console_ok con" "screen_after (echo_enabled sys) cs (kconsole (kern sys)) con"
    and "bytes_at b str (length line) = line" "\<forall>a. a < str \<or> str + len \<le> a \<longrightarrow> b a = bytes sys a"
  shows "read_on r str len gs line cs sys ?s"
proof -
  have "sys_step sys = Some ?s" using assms(1-3) by (simp add: sys_step_def terminal_def)
  then have "reaches sys ?s" by (metis reaches_step reaches_refl)
  moreover have "terminal r ?s" using assms(1,4) by (simp add: terminal_def the_mq_def)
  ultimately show ?thesis using assms(5-7) by (simp add: read_on_def same_env_def the_mq_def)
qed

lemma read_got_step:
  assumes "terminal r sys" "io sys r = Read_got str len (length line) # fs" "eax (kern sys) = 0"
    and "length line < len" "bytes_at (bytes sys) str (length line) = line"
    and "c = nat (memory (kern sys) (receiver_at sys r) mod 256)"
  obtains sys' where "messages (stdin sys') = messages (stdin sys)"
    "c = 13 \<Longrightarrow> read_on r str len fs line [c] sys sys' \<and> eax (kern sys') = int (length line)"
    "c = 127 \<Longrightarrow> line \<noteq> [] \<Longrightarrow>
       read_on r str len (Read_next str len (length (butlast line)) # fs) (butlast line) [c] sys sys'"
    "c < 127 \<Longrightarrow> c \<noteq> 13 \<Longrightarrow>
       read_on r str len (Read_next str len (length (line @ [c])) # fs) (line @ [c]) [c] sys sys'"
    "c > 127 \<or> c = 127 \<and> line = [] \<Longrightarrow>
       read_on r str len (Read_next str len (length line) # fs) line [] sys sys'"
proof -
  have c: "c < 256" using assms(6) by (simp add: nat_less_iff)
  have ok: "console_ok (kconsole (kern sys))" using assms(1) by (simp add: terminal_def)
  obtain con where con: "\<And>f. echo_if_enabled c (sys\<lparr>io := f\<rparr>) = Some (sys\<lparr>kern := (kern sys)\<lparr>kconsole := con\<rparr>, io := f\<rparr>)"
    "console_ok con"
    "screen_after (echo_enabled sys) [c] (kconsole (kern sys)) con"
    using echo_step [OF ok c] by blast
  note echo = con(1)
  note step = read_on_step [OF assms(1,2)]
  let ?next = "\<lambda>con v b gs. sys\<lparr>kern := (kern sys)\<lparr>kconsole := con, eax := v\<rparr>, bytes := b, io := (io sys)(r := gs)\<rparr>"
  consider "c = 13" | "c = 127" "line \<noteq> []" | "c < 127" "c \<noteq> 13" | "c > 127 \<or> c = 127 \<and> line = []" by linarith
  then show ?thesis
  proof cases
    case 1
    then have "read_on r str len fs line [c] sys (?next con (int (length line)) (bytes sys) fs)"
      using con(2,3) assms(3,5,6) echo by (intro step) (auto simp: read_got_def set_eax_def Let_def)
    then show ?thesis using 1 that [of "?next con (int (length line)) (bytes sys) fs"] by (simp add: the_mq_def)
  next
    case 2
    let ?gs = "Read_next str len (length (butlast line)) # fs"
    have "bytes_at (bytes sys) str (length (butlast line)) = butlast line"
      using assms(5) 2(2) by (metis bytes_at_snoc butlast_snoc length_butlast length_greater_0_conv Suc_pred' One_nat_def)
    then have "read_on r str len ?gs (butlast line) [c] sys (?next con 0 (bytes sys) ?gs)"
      using 2 con(2,3) assms(3,6) echo by (intro step) (auto simp: read_got_def push_io_def Let_def)
    then show ?thesis using 2 that [of "?next con 0 (bytes sys) ?gs"] by (simp add: the_mq_def)
  next
    case 3
    let ?gs = "Read_next str len (length (line @ [c])) # fs" and ?b = "(bytes sys)(str + length line := c)"
    have "bytes_at ?b str (length (line @ [c])) = line @ [c]"
      using assms(5) bytes_at_cong [of "length line" ?b str "bytes sys" str] by (simp add: bytes_at_snoc)
    then have "read_on r str len ?gs (line @ [c]) [c] sys (?next con 0 ?b ?gs)"
      using 3 con(2,3) assms(3,4,6) echo by (intro step) (auto simp: read_got_def push_io_def Let_def)
    then show ?thesis using 3 that [of "?next con 0 ?b ?gs"] by (simp add: the_mq_def)
  next
    case 4
    let ?gs = "Read_next str len (length line) # fs" and ?con = "kconsole (kern sys)"
    have "read_on r str len ?gs line [] sys (?next ?con 0 (bytes sys) ?gs)"
      using 4 ok assms(3,5,6) by (intro step) (auto simp: read_got_def push_io_def Let_def)
    then show ?thesis using 4 that [of "?next ?con 0 (bytes sys) ?gs"] by (auto simp: the_mq_def)
  qed
qed

lemma read_full:
  assumes "terminal r sys" "io sys r = Read_next str len (length line) # fs" "len \<le> length line"
    and "bytes_at (bytes sys) str (length line) = line"
  obtains sys' where "read_on r str len fs line [13] sys sys'" "eax (kern sys') = int (length line)"
    "messages (stdin sys') = messages (stdin sys)"
proof -
  have ok: "console_ok (kconsole (kern sys))" using assms(1) by (simp add: terminal_def)
  obtain con where con: "\<And>f. echo_if_enabled 13 (sys\<lparr>io := f\<rparr>) = Some (sys\<lparr>kern := (kern sys)\<lparr>kconsole := con\<rparr>, io := f\<rparr>)"
    "console_ok con" "screen_after (echo_enabled sys) [13] (kconsole (kern sys)) con"
    using echo_step [OF ok, of 13] by auto
  let ?s = "sys\<lparr>kern := (kern sys)\<lparr>kconsole := con, eax := int (length line)\<rparr>, bytes := bytes sys, io := (io sys)(r := fs)\<rparr>"
  have "read_on r str len fs line [13] sys ?s"
    using con assms(3,4) by (intro read_on_step [OF assms(1,2)]) (auto simp: read_next_def set_eax_def)
  then show ?thesis using that [of ?s] by (simp add: the_mq_def)
qed

lemma read_loop:
  assumes "line_edit len line (typed sys) = Some (line', es, rest)" "terminal r sys"
    and "io sys r = Read_next str len (length line) # fs" "bytes_at (bytes sys) str (length line) = line"
  shows "\<exists>sys'. read_on r str len fs line' es sys sys' \<and> eax (kern sys') = int (length line') \<and> typed sys' = rest"
  using assms
proof (induction "typed sys" arbitrary: sys line es)
  case Nil
  then have full: "len \<le> length line" "line' = line" "es = [13]" "rest = []" by (auto split: if_splits)
  then show ?case using read_full [OF Nil.prems(2,3) full(1) Nil.prems(4)] Nil.hyps by (metis typed_def)
next
  case (Cons c cs)
  note edit = Cons.prems(1) [folded Cons.hyps(2)]
  show ?case
  proof (cases "len \<le> length line")
    case True
    then have "line' = line" "es = [13]" "rest = c # cs" using edit by auto
    then show ?thesis using read_full [OF Cons.prems(2,3) True Cons.prems(4)] Cons.hyps(2) by (metis typed_def)
  next
    case False
    obtain m ms where m: "messages (stdin sys) = m # ms" "c = nat (m mod 256)" "cs = map (\<lambda>m. nat (m mod 256)) ms"
      using Cons.hyps(2) by (auto simp: typed_def)
    obtain s1 where s1: "reaches sys s1" "io s1 r = Read_got str len (length line) # fs" "eax (kern s1) = 0"
      "memory (kern s1) (receiver_at sys r) = m" "messages (stdin s1) = ms" "terminal r s1" "same_env sys s1"
      "bytes s1 = bytes sys" "kconsole (kern s1) = kconsole (kern sys)"
      using read_takes_character [OF Cons.prems(2,3) _ m(1)] False by auto
    have got: "read_on r str len (Read_got str len (length line) # fs) line [] sys s1"
      using s1 Cons.prems(4) by (simp add: read_on_def screen_after_def)
    have c: "c = nat (memory (kern s1) (receiver_at s1 r) mod 256)" using s1(4,7) m(2) by (simp add: same_env_def)
    have b: "bytes_at (bytes s1) str (length line) = line" using s1(8) Cons.prems(4) by simp
    obtain s2 where s2: "messages (stdin s2) = messages (stdin s1)"
      "c = 13 \<Longrightarrow> read_on r str len fs line [c] s1 s2 \<and> eax (kern s2) = int (length line)"
      "c = 127 \<Longrightarrow> line \<noteq> [] \<Longrightarrow>
        read_on r str len (Read_next str len (length (butlast line)) # fs) (butlast line) [c] s1 s2"
      "c < 127 \<Longrightarrow> c \<noteq> 13 \<Longrightarrow>
        read_on r str len (Read_next str len (length (line @ [c])) # fs) (line @ [c]) [c] s1 s2"
      "c > 127 \<or> c = 127 \<and> line = [] \<Longrightarrow>
        read_on r str len (Read_next str len (length line) # fs) line [] s1 s2"
      using read_got_step [OF s1(6,2,3) _ b c] False by (metis not_le)
    have typed: "typed s2 = cs" using s2(1) s1(5) m(3) by (simp add: typed_def)
    note ih = Cons.hyps(1) [OF typed [symmetric]]
    have more: "\<exists>sys'. read_on r str len fs line' es' s2 sys' \<and> eax (kern sys') = int (length line') \<and> typed sys' = rest"
      if "line_edit len l cs = Some (line', es', rest)" "read_on r str len (Read_next str len (length l) # fs) l ds s1 s2"
      for l ds es'
      using ih [of l es'] that typed by (simp add: read_on_def)
    consider "c = 13" | "c = 127" "line \<noteq> []" | "c < 127" "c \<noteq> 13" | "c > 127 \<or> c = 127 \<and> line = []" by linarith
    then show ?thesis
    proof cases
      case 1
      then have "line' = line" "es = [c]" "rest = cs" using edit False by auto
      then show ?thesis using s2(2) [OF 1] typed read_on_silent [OF got] by blast
    next
      case 2
      then obtain es' where es: "line_edit len (butlast line) cs = Some (line', es', rest)" "es = c # es'"
        using edit False by auto
      then show ?thesis using more [OF es(1) s2(3) [OF 2]] read_on_silent [OF got] read_on_echo [OF s2(3) [OF 2]] by blast
    next
      case 3
      then obtain es' where es: "line_edit len (line @ [c]) cs = Some (line', es', rest)" "es = c # es'"
        using edit False by auto
      then show ?thesis using more [OF es(1) s2(4) [OF 3]] read_on_silent [OF got] read_on_echo [OF s2(4) [OF 3]] by blast
    next
      case 4
      then have es: "line_edit len line cs = Some (line', es, rest)" using edit False by auto
      then show ?thesis
        using more [OF es(1) s2(5) [OF 4]] read_on_silent [OF got] read_on_silent [OF s2(5) [OF 4]] by blast
    qed
  qed
qed

subsection \<open>Delivering typed characters\<close>

lemma pcount_idle:
  assumes "terminal r sys"
  shows "pcount (stdin_fid sys) (count_at sys r) (kern sys)
    = Some (push [Return 0] (set_word (count_at sys r) (int (nb_messages (stdin sys))) (kern sys)))"
proof -
  note t = assms [unfolded terminal_def]
  obtain lp where "locked_processes (stdin sys) = Some lp" "pq_size lp = length (mq_nodes (stdin sys))"
    using open_queue [of "stdin_fid sys" "kern sys"] t by blast
  then show ?thesis using t by (simp add: pcount_def pcount_value_def)
qed

lemma set_word_frame [simp]:
  "kstack (set_word a v k) = kstack k" "ptable (set_word a v k) = ptable k" "mqt (set_word a v k) = mqt k"
  "process_queue (set_word a v k) = process_queue k" "kconsole (set_word a v k) = kconsole k"
  "kheap (set_word a v k) = kheap k" "memory (set_word a v k) a = v" "the_mq fid (set_word a v k) = the_mq fid k"
  by (simp_all add: set_word_def the_mq_def)

text \<open>\<open>keyboard_data\<close> up to the call of \<open>psend\<close>.\<close>

lemma data_counts:
  assumes "terminal r sys" "io sys r = Data_next (c # cs) # fs"
  obtains sys' where "reaches sys sys'" "io sys' r = Data_counted (c # cs) # fs" "eax (kern sys') = 0"
    "memory (kern sys') (count_at sys' r) = int (nb_messages (stdin sys))" "terminal r sys'" "same_env sys sys'"
    "stdin sys' = stdin sys" "bytes sys' = bytes sys" "kconsole (kern sys') = kconsole (kern sys)"
    "kheap (kern sys') = kheap (kern sys)"
proof -
  note t = assms(1) [unfolded terminal_def]
  define k where "k = set_word (count_at sys r) (int (nb_messages (stdin sys))) (kern sys)"
  define s1 where "s1 = push_io r [Data_counted (c # cs)] (sys\<lparr>io := (io sys)(r := fs)\<rparr>)"
  have "sys_step sys = Some (s1\<lparr>kern := push [Return 0] k\<rparr>)"
    using t assms(2) pcount_idle [OF assms(1)] by (simp add: sys_step_def data_next_def s1_def push_io_def k_def)
  moreover have "kstack k = []" "kernel_stack (proc k r) \<noteq> 0" using t by (simp_all add: k_def)
  ultimately obtain f where f: "reaches sys (s1\<lparr>kern := k\<lparr>eax := 0\<rparr>, io := f\<rparr>)" "f r = io s1 r"
    using call_returns by blast
  have io: "f r = Data_counted (c # cs) # fs" using f(2) by (simp add: s1_def push_io_def)
  have "the_mq fid (k\<lparr>eax := 0\<rparr>) = the_mq fid (kern sys)" for fid by (simp add: k_def the_mq_def)
  then show ?thesis using that [OF f(1)] io t
    by (simp add: s1_def push_io_def terminal_def same_env_def) (simp add: k_def)
qed

lemma data_sends:
  assumes "terminal r sys" "io sys r = Data_next (c # cs) # fs"
    and "nb_messages (stdin sys) < mq_size (stdin sys)" "int (mq_size (stdin sys)) \<le> KEY_BUFFER_SIZE"
  obtains sys' where "reaches sys sys'" "io sys' r = Data_next cs # fs" "terminal r sys'" "same_env sys sys'"
    "messages (stdin sys') = messages (stdin sys) @ [schar c]" "bytes sys' = bytes sys"
    "kconsole (kern sys') = kconsole (kern sys)"
proof -
  obtain s1 where s1: "reaches sys s1" "io s1 r = Data_counted (c # cs) # fs" "eax (kern s1) = 0"
    "memory (kern s1) (count_at s1 r) = int (nb_messages (stdin sys))" "terminal r s1" "same_env sys s1"
    "stdin s1 = stdin sys" "bytes s1 = bytes sys" "kconsole (kern s1) = kconsole (kern sys)"
    using data_counts [OF assms(1,2)] by metis
  note t = s1(5) [unfolded terminal_def] let ?fid = "stdin_fid s1"
  obtain q where q: "psend ?fid (schar c) (kern s1) = Some (push [Return 0] (set_mq ?fid q (kern s1)))" "mq_inv q"
    "messages q = messages (stdin s1) @ [schar c]" "mq_nodes q = []" "mq_size q = mq_size (stdin s1)"
    "buffer q = buffer (stdin s1)"
    using psend_stores [of ?fid "kern s1" "schar c"] t assms(3) s1(7) by metis
  define k where "k = set_mq ?fid q (kern s1)"
  have k: "kstack k = []" "kernel_stack (proc k r) \<noteq> 0" using t by (simp_all add: k_def)
  define s2 where "s2 = push_io r [Data_sent cs] (s1\<lparr>io := (io s1)(r := fs)\<rparr>)"
  have "sys_step s1 = Some (s2\<lparr>kern := push [Return 0] k\<rparr>)"
    using t s1(2-4) q(1) assms(3,4)
    by (simp add: sys_step_def data_counted_def s2_def push_io_def k_def)
  then obtain f where f: "reaches s1 (s2\<lparr>kern := k\<lparr>eax := 0\<rparr>, io := f\<rparr>)" "f r = io s2 r"
    using call_returns k by blast
  define s3 where "s3 = s1\<lparr>kern := k\<lparr>eax := 0\<rparr>, io := f(r := Data_next cs # fs)\<rparr>"
  have "sys_step (s2\<lparr>kern := k\<lparr>eax := 0\<rparr>, io := f\<rparr>) = Some s3"
    using k t f(2) by (simp add: sys_step_def data_sent_def s3_def s2_def push_io_def k_def)
  then have r: "reaches sys s3" using s1(1) f(1) by (metis reaches_trans reaches_step reaches_refl)
  have mq: "the_mq ?fid (k\<lparr>eax := 0\<rparr>) = q" "valid_fid ?fid (mqt k)"
    using t q(6) by (simp_all add: k_def the_mq_def set_mq_def valid_fid_def)
  have "terminal r s3" using t mq q(2,4) by (simp add: terminal_def s3_def) (simp add: k_def set_mq_def)
  moreover have "same_env s1 s3" using mq q(5) by (simp add: same_env_def s3_def) (simp add: k_def set_mq_def)
  ultimately show ?thesis using that [OF r] s1 q(3) mq same_env_trans [OF s1(6)]
    by (simp add: s3_def) (simp add: k_def set_mq_def)
qed

lemma data_loop:
  assumes "terminal r sys" "io sys r = Data_next cs # fs"
    and "nb_messages (stdin sys) + length cs \<le> mq_size (stdin sys)" "int (mq_size (stdin sys)) \<le> KEY_BUFFER_SIZE"
  shows "\<exists>sys'. reaches sys sys' \<and> io sys' r = fs \<and> terminal r sys' \<and> same_env sys sys'
    \<and> messages (stdin sys') = messages (stdin sys) @ map schar cs \<and> bytes sys' = bytes sys
    \<and> kconsole (kern sys') = kconsole (kern sys)"
  using assms
proof (induction cs arbitrary: sys)
  case Nil
  let ?s = "sys\<lparr>io := (io sys)(r := fs)\<rparr>"
  have "sys_step sys = Some ?s" using Nil by (simp add: sys_step_def terminal_def data_next_def)
  then have "reaches sys ?s" by (metis reaches_step reaches_refl)
  then show ?case using Nil by (intro exI [of _ ?s]) (simp add: terminal_def same_env_def)
next
  case (Cons c cs)
  obtain s1 where s1: "reaches sys s1" "io s1 r = Data_next cs # fs" "terminal r s1" "same_env sys s1"
    "messages (stdin s1) = messages (stdin sys) @ [schar c]" "bytes s1 = bytes sys"
    "kconsole (kern s1) = kconsole (kern sys)"
    using data_sends [OF Cons.prems(1,2)] Cons.prems(3,4) by (metis add_lessD1 length_Cons less_le_trans lessI add_Suc_right)
  have "nb_messages (stdin s1) = Suc (nb_messages (stdin sys))"
    using s1(5) length_messages [of "stdin s1"] length_messages [of "stdin sys"] by simp
  moreover have "mq_size (stdin s1) = mq_size (stdin sys)" using s1(4) unfolding same_env_def by blast
  ultimately have "\<exists>sys'. reaches s1 sys' \<and> io sys' r = fs \<and> terminal r sys' \<and> same_env s1 sys'
    \<and> messages (stdin sys') = messages (stdin s1) @ map schar cs \<and> bytes sys' = bytes s1
    \<and> kconsole (kern sys') = kconsole (kern s1)"
    using Cons.prems(3,4) by (intro Cons.IH [OF s1(3,2)]) simp_all
  then show ?case using s1 by (metis reaches_trans same_env_trans append.assoc append_Cons append_Nil list.simps(9))
qed

lemma keyboard_data_stores:
  assumes "terminal r sys" "nb_messages (stdin sys) + length str \<le> mq_size (stdin sys)"
    and "int (mq_size (stdin sys)) \<le> KEY_BUFFER_SIZE"
  obtains s0 sys' where "keyboard_data_int str sys = Some s0" "reaches s0 sys'" "io sys' r = io sys r" "terminal r sys'"
    "eax (kern sys') = eax (kern sys)" "same_env sys sys'"
    "messages (stdin sys') = messages (stdin sys) @ map schar str" "bytes sys' = bytes sys"
    "kconsole (kern sys') = kconsole (kern sys)"
proof -
  define s0 where "s0 = push_io r [Data_next str, Iret (eax (kern sys))] sys"
  have s0: "keyboard_data_int str sys = Some s0" "terminal r s0" "same_env sys s0" "stdin s0 = stdin sys"
    "io s0 r = Data_next str # Iret (eax (kern sys)) # io sys r" "bytes s0 = bytes sys" "kern s0 = kern sys"
    using assms(1) by (simp_all add: keyboard_data_int_def terminal_def same_env_def s0_def push_io_def)
  obtain s1 where s1: "reaches s0 s1" "io s1 r = Iret (eax (kern sys)) # io sys r" "terminal r s1" "same_env s0 s1"
    "messages (stdin s1) = messages (stdin s0) @ map schar str" "bytes s1 = bytes s0"
    "kconsole (kern s1) = kconsole (kern s0)"
    using data_loop [OF s0(2,5)] assms(2,3) s0(4) by auto
  define s2 where "s2 = set_eax (eax (kern sys)) (s1\<lparr>io := (io s1)(r := io sys r)\<rparr>)"
  have "sys_step s1 = Some s2" using s1(2,3) by (simp add: sys_step_def terminal_def s2_def)
  then have r: "reaches s0 s2" using s1(1) by (metis reaches_trans reaches_step reaches_refl)
  have mq: "the_mq fid (kern s2) = the_mq fid (kern s1)" for fid by (simp add: s2_def set_eax_def the_mq_def)
  have "terminal r s2" using s1(3) mq by (simp add: terminal_def) (simp add: s2_def set_eax_def)
  moreover have "same_env s1 s2" using mq by (simp add: same_env_def) (simp add: s2_def set_eax_def)
  ultimately show ?thesis
    using that [OF s0(1) r] s0 s1 same_env_trans [OF s0(3)] same_env_trans [OF s1(4)] mq
    by (simp add: s2_def set_eax_def)
qed

lemma cons_read_edits:
  assumes "terminal r sys" "0 < len" "line_edit len [] (typed sys) = Some (line, es, rest)"
  obtains s0 sys' where "cons_read str len sys = Some s0" "reaches s0 sys'" "io sys' r = io sys r" "terminal r sys'"
    "eax (kern sys') = int (length line)" "bytes_at (bytes sys') str (length line) = line" "typed sys' = rest"
    "\<And>a. a < str \<or> str + len \<le> a \<Longrightarrow> bytes sys' a = bytes sys a" "same_env sys sys'"
    "screen_after (echo_enabled sys) es (kconsole (kern sys)) (kconsole (kern sys'))"
proof -
  define s0 where "s0 = push_io r [Read_next str len 0] sys"
  have s0: "cons_read str len sys = Some s0" "terminal r s0" "same_env sys s0" "typed s0 = typed sys"
    "io s0 r = Read_next str len (length ([] :: nat list)) # io sys r" "bytes s0 = bytes sys" "kern s0 = kern sys"
    "echo_enabled s0 = echo_enabled sys"
    using assms(1,2) by (simp_all add: cons_read_def terminal_def same_env_def s0_def push_io_def typed_def)
  obtain sys' where s': "read_on r str len (io sys r) line es s0 sys'" "eax (kern sys') = int (length line)"
    "typed sys' = rest"
    using read_loop [OF _ s0(2,5), of line es rest] assms(3) s0(4) by auto
  note r = s'(1) [unfolded read_on_def]
  show ?thesis
  proof (rule that [OF s0(1)])
    show "same_env sys sys'" using same_env_trans [OF s0(3)] r by blast
  qed (use r s'(2,3) s0(6-8) in auto)
qed

subsection \<open>Properties\<close>

definition tty_system :: "nat \<Rightarrow> system" where
  "tty_system n = \<lparr>kern = update_proc 0 (\<lambda>q. q\<lparr>kernel_stack := 4096\<rparr>) (ipc_kernel n []), bytes = (\<lambda>_. 0),
     echo_enabled = True, stdin_fid = 0, receiver_at = (\<lambda>s. 8192 + 8 * s), count_at = (\<lambda>s. 8196 + 8 * s),
     io = (\<lambda>_. []), kbd_ports = []\<rparr>"

lemma terminal_tty_system: "n \<le> 2 \<Longrightarrow> terminal 0 (tty_system n)"
  using sample_queue_inv [of n "[]"]
  by (simp add: terminal_def tty_system_def update_proc_def the_mq_def ipc_kernel_def set_mq_def valid_fid_def pq_ok_def)
     (simp add: sample_queue_def NBQUEUE_def mq_nodes_def sample_kernel_def boot_kernel_def console_ok_initial)

lemma stdin_tty_system: "stdin (tty_system n) = sample_queue n []"
  by (simp add: tty_system_def update_proc_def the_mq_def ipc_kernel_def set_mq_def)

text \<open>C14: \<open>cons_read\<close> is the line editor: when the characters waiting in \<open>stdin\<close> complete a line (by a carriage
  return, or by filling the buffer), the call returns with the edited line in the buffer and its length as the
  result. Characters below 127 are appended, 127 deletes the last one, others are ignored; what follows
  the line stays in the queue, no byte outside the buffer is written, and the screen shows the echo
  of the accepted characters and of the end of line, or is untouched when echo is off.\<close>

theorem cons_read_reads_line:
  assumes "terminal r sys" "0 < len" "line_edit len [] (typed sys) = Some (line, es, rest)"
  shows "\<exists>s0 n sys'. cons_read str len sys = Some s0 \<and> sys_run n s0 = Some sys' \<and> io sys' r = io sys r
    \<and> kstack (kern sys') = [] \<and> running_process (ptable (kern sys')) = Some r
    \<and> eax (kern sys') = int (length line) \<and> bytes_at (bytes sys') str (length line) = line \<and> typed sys' = rest
    \<and> (\<forall>a. a < str \<or> str + len \<le> a \<longrightarrow> bytes sys' a = bytes sys a)
    \<and> screen_after (echo_enabled sys) es (kconsole (kern sys)) (kconsole (kern sys'))"
  by (rule cons_read_edits [OF assms]) (auto simp: reaches_def terminal_def)

theorem cons_read_reads_line_witness:
  "\<exists>s0 n sys'. cons_read 20000 2 (tty_system 2) = Some s0 \<and> sys_run n s0 = Some sys'
    \<and> eax (kern sys') = 2 \<and> bytes_at (bytes sys') 20000 2 = [10, 20]"
proof -
  have "typed (tty_system 2) = [10, 20]"
    by (simp add: typed_def stdin_tty_system sample_queue_messages upt_rec)
  then have "line_edit 2 [] (typed (tty_system 2)) = Some ([10, 20], [10, 20, 13], [])" by simp
  from cons_read_reads_line [OF terminal_tty_system _ this, of 20000]
  obtain s0 n sys' where "cons_read 20000 2 (tty_system 2) = Some s0" "sys_run n s0 = Some sys'"
    "eax (kern sys') = int (length [10 :: nat, 20])" "bytes_at (bytes sys') 20000 (length [10 :: nat, 20]) = [10, 20]"
    by auto
  then show ?thesis by (intro exI conjI) (simp_all add: numeral_2_eq_2)
qed

text \<open>\<open>keyboard_data\<close>, called in the keyboard interrupt of any process while the buffer of \<open>stdin\<close> has room for
  the whole string and nobody is blocked on it, puts the characters at the end of the queue in the order of
  the string, and the interrupted process goes on with its registers as they were; the processes and the
  other queues are untouched.\<close>

theorem keyboard_data_delivers:
  assumes "terminal r sys" "nb_messages (stdin sys) + length str \<le> mq_size (stdin sys)"
    and "int (mq_size (stdin sys)) \<le> KEY_BUFFER_SIZE"
  shows "\<exists>s0 n sys'. keyboard_data_int str sys = Some s0 \<and> sys_run n s0 = Some sys' \<and> io sys' r = io sys r
    \<and> kstack (kern sys') = [] \<and> eax (kern sys') = eax (kern sys) \<and> same_env sys sys'
    \<and> messages (stdin sys') = messages (stdin sys) @ map schar str \<and> bytes sys' = bytes sys
    \<and> kconsole (kern sys') = kconsole (kern sys)"
  by (rule keyboard_data_stores [OF assms]) (auto simp: reaches_def terminal_def)

theorem keyboard_data_delivers_witness:
  "\<exists>s0 n sys'. keyboard_data_int [233] (tty_system 1) = Some s0 \<and> sys_run n s0 = Some sys'
    \<and> messages (stdin sys') = [10, -23]"
proof -
  have "nb_messages (stdin (tty_system 1)) + length [233 :: nat] \<le> mq_size (stdin (tty_system 1))"
    "int (mq_size (stdin (tty_system 1))) \<le> KEY_BUFFER_SIZE"
    by (simp_all add: stdin_tty_system KEY_BUFFER_SIZE_def)
  from keyboard_data_delivers [OF terminal_tty_system this]
  obtain s0 n sys' where "keyboard_data_int [233] (tty_system 1) = Some s0" "sys_run n s0 = Some sys'"
    "messages (stdin sys') = messages (stdin (tty_system 1)) @ map schar [233]"
    by auto
  then show ?thesis
    by (intro exI conjI) (simp_all add: stdin_tty_system sample_queue_messages schar_def)
qed

lemma line_edit_plain:
  "\<forall>c\<in>set cs. c < 127 \<and> c \<noteq> 13 \<Longrightarrow> length line + length cs < len \<Longrightarrow>
   line_edit len line (cs @ [13]) = Some (line @ cs, cs @ [13], [])"
  by (induction cs arbitrary: line) auto

text \<open>C15: a line typed while \<open>stdin\<close> is empty is what the next \<open>cons_read\<close> returns: after the delivery of its
  characters and of the carriage return, a read with a longer buffer comes back with exactly these
  characters and leaves nothing behind.\<close>

theorem typed_line_is_read:
  assumes "terminal r sys" "messages (stdin sys) = []" "\<forall>c\<in>set line. 0 < c \<and> c < 127 \<and> c \<noteq> 13"
    and "length line < len" "length line < mq_size (stdin sys)" "int (mq_size (stdin sys)) \<le> KEY_BUFFER_SIZE"
  shows "\<exists>s0 m s1 s2 n sys'. keyboard_data_int (line @ [13]) sys = Some s0 \<and> sys_run m s0 = Some s1
    \<and> cons_read str len s1 = Some s2 \<and> sys_run n s2 = Some sys'
    \<and> eax (kern sys') = int (length line) \<and> bytes_at (bytes sys') str (length line) = line
    \<and> messages (stdin sys') = [] \<and> kstack (kern sys') = [] \<and> io sys' r = io sys r"
proof -
  have "nb_messages (stdin sys) + length (line @ [13]) \<le> mq_size (stdin sys)"
    using assms(2,5) length_messages [of "stdin sys"] by simp
  then obtain s0 s1 where s1: "keyboard_data_int (line @ [13]) sys = Some s0" "reaches s0 s1" "io s1 r = io sys r"
    "terminal r s1" "messages (stdin s1) = messages (stdin sys) @ map schar (line @ [13])"
    using keyboard_data_stores [OF assms(1) _ assms(6)] by blast
  have "map (\<lambda>m. nat (m mod 256)) (map schar (line @ [13])) = line @ [13]"
    using assms(3) by (intro nth_equalityI) (auto simp: schar_def nth_append dest!: nth_mem)
  then have "typed s1 = line @ [13]" unfolding typed_def s1(5) assms(2) by simp
  then have "line_edit len [] (typed s1) = Some (line, line @ [13], [])"
    using line_edit_plain [of line "[]" len] assms(3,4) by simp
  then obtain s2 sys' where s': "cons_read str len s1 = Some s2" "reaches s2 sys'" "io sys' r = io s1 r" "terminal r sys'"
    "eax (kern sys') = int (length line)" "bytes_at (bytes sys') str (length line) = line" "typed sys' = []"
    using cons_read_edits [OF s1(4), of len line "line @ [13]" "[]" str] assms(4) by (metis gr_implies_not0 not_gr0)
  have "messages (stdin sys') = []" using s'(7) by (simp add: typed_def)
  then show ?thesis using s1 s' unfolding reaches_def terminal_def by metis
qed

theorem typed_line_is_read_witness:
  "\<exists>s0 m s1 s2 n sys'. keyboard_data_int [104, 13] (tty_system 0) = Some s0 \<and> sys_run m s0 = Some s1
    \<and> cons_read 20000 80 s1 = Some s2 \<and> sys_run n s2 = Some sys' \<and> eax (kern sys') = 1 \<and> bytes sys' 20000 = 104"
proof -
  have "messages (stdin (tty_system 0)) = []" "length [104 :: nat] < mq_size (stdin (tty_system 0))"
    "int (mq_size (stdin (tty_system 0))) \<le> KEY_BUFFER_SIZE"
    by (simp_all add: stdin_tty_system sample_queue_messages KEY_BUFFER_SIZE_def)
  from typed_line_is_read [OF terminal_tty_system this(1) _ _ this(2,3), of 80 20000]
  obtain s0 m s1 s2 n sys' where "keyboard_data_int [104, 13] (tty_system 0) = Some s0" "sys_run m s0 = Some s1"
    "cons_read 20000 80 s1 = Some s2" "sys_run n s2 = Some sys'" "eax (kern sys') = 1" "bytes_at (bytes sys') 20000 1 = [104]"
    by auto
  then show ?thesis by (intro exI conjI) (simp_all add: bytes_at_def)
qed

lemma psend_full:
  assumes "terminal r sys" "nb_messages (stdin sys) = mq_size (stdin sys)"
  obtains lp where "psend (stdin_fid sys) m (kern sys) = block_on_queue (stdin_fid sys) lp m 0 (kern sys)" "pq_ok lp"
    "pq_nodes lp = []"
proof -
  note t = assms(1) [unfolded terminal_def]
  obtain lp where "locked_processes (stdin sys) = Some lp" "pq_ok lp" "pq_nodes lp = mq_nodes (stdin sys)"
    "pq_size lp = length (mq_nodes (stdin sys))"
    using open_queue [of "stdin_fid sys" "kern sys"] t by blast
  then show ?thesis using that t assms(2) by (simp add: psend_def Let_def)
qed

lemma data_blocks:
  assumes "terminal r sys" "io sys r = Data_counted (c # cs) # fs" "eax (kern sys) = 0"
    and "memory (kern sys) (count_at sys r) \<le> KEY_BUFFER_SIZE" "nb_messages (stdin sys) = mq_size (stdin sys)"
    and "slots_ok (kern sys)" "p_pid (proc (kern sys) r) = int r + 1"
    and "answers (kheap (kern sys)) (calls (kheap (kern sys))) \<noteq> 0"
  obtains sys' where "sys_step sys = Some sys'" "p_state (proc (kern sys') r) = BLOCKED_BY_MESSAGE"
    "kstack (kern sys') = schedule @ [Ipc_resume (int r + 1)]" "io sys' r = Data_sent cs # fs"
    "mq_nodes (stdin sys') = [\<lparr>c_pid = int r + 1, c_message = schar c, c_destination = 0, c_priority = prio (kern sys) r\<rparr>]"
proof -
  note t = assms(1) [unfolded terminal_def]
  obtain lp where lp: "psend (stdin_fid sys) (schar c) (kern sys) = block_on_queue (stdin_fid sys) lp (schar c) 0 (kern sys)"
    "pq_ok lp" "pq_nodes lp = []"
    using psend_full [OF assms(1,5)] by blast
  have run: "running_process (ptable (kern sys)) = Some r" "length (pq_nodes lp) < PROCESS_TABLE_MAX_SIZE"
    "r < PROCESS_TABLE_MAX_SIZE"
    using t lp(3) assms(6) by (simp_all add: PROCESS_TABLE_MAX_SIZE_def slots_ok_def)
  obtain k lp' where k: "block_on_queue (stdin_fid sys) lp (schar c) 0 (kern sys)
      = Some (push (schedule @ [Ipc_resume (int r + 1)]) k)"
    "the_mq (stdin_fid sys) k = (stdin sys)\<lparr>locked_processes := Some lp'\<rparr>"
    "mset (pq_nodes lp') = add_mset \<lparr>c_pid = int r + 1, c_message = schar c, c_destination = 0,
       c_priority = prio (kern sys) r\<rparr> (mset (pq_nodes lp))"
    "p_state (proc k r) = BLOCKED_BY_MESSAGE" "kstack k = kstack (kern sys)"
    by (rule block_on_queue_blocks [OF run(3,1) assms(7,8) lp(2) run(2), of "stdin_fid sys" "schar c" 0])
  let ?s = "push_io r [Data_sent cs] (sys\<lparr>io := (io sys)(r := fs), kern := push (schedule @ [Ipc_resume (int r + 1)]) k\<rparr>)"
  have "sys_step sys = Some ?s"
    using t assms(2-4) lp(1) k(1) by (simp add: sys_step_def data_counted_def push_io_def)
  then show ?thesis using that [of ?s] t lp(3) k(2-5) by (simp add: push_io_def push_def mq_nodes_def the_mq_def)
qed

text \<open>C16: the guard of \<open>keyboard_data\<close> against a full buffer compares with \<open>>\<close>: when the buffer holds exactly
  its 512 characters and nobody is blocked, the next character is sent all the same, and the process that
  happened to be interrupted is blocked inside the interrupt until somebody reads \<open>stdin\<close>.\<close>

theorem full_stdin_blocks_interrupted:
  assumes "terminal r sys" "nb_messages (stdin sys) = mq_size (stdin sys)" "int (mq_size (stdin sys)) \<le> KEY_BUFFER_SIZE"
    and "slots_ok (kern sys)" "p_pid (proc (kern sys) r) = int r + 1"
    and "answers (kheap (kern sys)) (calls (kheap (kern sys))) \<noteq> 0"
  shows "\<exists>s0 n sys'. keyboard_data_int (c # cs) sys = Some s0 \<and> sys_run n s0 = Some sys'
    \<and> p_state (proc (kern sys') r) = BLOCKED_BY_MESSAGE \<and> kstack (kern sys') = schedule @ [Ipc_resume (int r + 1)]
    \<and> io sys' r = Data_sent cs # Iret (eax (kern sys)) # io sys r
    \<and> mq_nodes (stdin sys') = [\<lparr>c_pid = int r + 1, c_message = schar c, c_destination = 0, c_priority = prio (kern sys) r\<rparr>]"
proof -
  define s0 where "s0 = push_io r [Data_next (c # cs), Iret (eax (kern sys))] sys"
  have s0: "keyboard_data_int (c # cs) sys = Some s0" "terminal r s0" "kern s0 = kern sys" "stdin_fid s0 = stdin_fid sys"
    "io s0 r = Data_next (c # cs) # Iret (eax (kern sys)) # io sys r"
    using assms(1) by (simp_all add: keyboard_data_int_def terminal_def s0_def push_io_def)
  obtain s1 where s1: "reaches s0 s1" "io s1 r = Data_counted (c # cs) # Iret (eax (kern sys)) # io sys r"
    "eax (kern s1) = 0" "memory (kern s1) (count_at s1 r) = int (nb_messages (stdin s0))" "terminal r s1"
    "same_env s0 s1" "stdin s1 = stdin s0" "kheap (kern s1) = kheap (kern s0)"
    by (rule data_counts [OF s0(2,5)])
  have env: "ptable (kern s1) = ptable (kern sys)" "process_queue (kern s1) = process_queue (kern sys)"
    "kheap (kern s1) = kheap (kern sys)" "nb_messages (stdin s1) = mq_size (stdin s1)"
    "memory (kern s1) (count_at s1 r) \<le> KEY_BUFFER_SIZE"
    using s1(4,6-8) s0(3,4) assms(2,3) by (simp_all add: same_env_def)
  obtain s2 where s2: "sys_step s1 = Some s2" "p_state (proc (kern s2) r) = BLOCKED_BY_MESSAGE"
    "kstack (kern s2) = schedule @ [Ipc_resume (int r + 1)]" "io s2 r = Data_sent cs # Iret (eax (kern sys)) # io sys r"
    "mq_nodes (stdin s2) = [\<lparr>c_pid = int r + 1, c_message = schar c, c_destination = 0, c_priority = prio (kern s1) r\<rparr>]"
    by (rule data_blocks [OF s1(5,2,3) env(5,4)]) (use assms(4-6) env(1-3) in \<open>simp_all add: slots_ok_def\<close>)
  have "reaches s0 s2" using s1(1) s2(1) by (metis reaches_trans reaches_step reaches_refl)
  then show ?thesis using s0(1) s2(2-5) env(1) unfolding reaches_def by auto
qed

theorem full_stdin_blocks_interrupted_witness:
  "\<exists>s0 n sys'. keyboard_data_int [104] (tty_system 2) = Some s0 \<and> sys_run n s0 = Some sys'
    \<and> p_state (proc (kern sys') 0) = BLOCKED_BY_MESSAGE"
proof -
  have k: "kern (tty_system 2) = update_proc 0 (\<lambda>q. q\<lparr>kernel_stack := 4096\<rparr>) (ipc_kernel 2 [])"
    by (simp add: tty_system_def)
  have "slots_ok (kern (tty_system 2))" "p_pid (proc (kern (tty_system 2)) 0) = int 0 + 1"
    "answers (kheap (kern (tty_system 2))) (calls (kheap (kern (tty_system 2)))) \<noteq> 0"
    using slots_ok_sample unfolding k by (simp_all add: slots_ok_def update_proc_def ipc_kernel_def ample_heap_def)
  moreover have "nb_messages (stdin (tty_system 2)) = mq_size (stdin (tty_system 2))"
    "int (mq_size (stdin (tty_system 2))) \<le> KEY_BUFFER_SIZE"
    by (simp_all add: stdin_tty_system KEY_BUFFER_SIZE_def)
  ultimately show ?thesis using full_stdin_blocks_interrupted [OF terminal_tty_system, of 2 104 "[]"] by fastforce
qed

end
