(* ===== verification/Syscall.thy ===== *)
theory Syscall
  imports Kbd Process_Calls
begin

text \<open>
  The system call dispatcher (\<^verbatim>\<open>kernel/syscall_handler.c\<close>): the call code selects the kernel function, the
  five arguments are the words found in the registers, read as numbers, signed numbers or addresses
  as the call needs them. Pointers are checked by \<open>check_arg\<close> first. The result is left in \<open>eax\<close>, by the frame
  \<open>Return\<close> where the call does not block. The codes are those of \<^verbatim>\<open>shared/consts.h\<close>.

  Texts given by a process (\<open>cons_write\<close>, the name of \<open>start\<close>) are read in the byte memory of \<open>system\<close>, results
  are stored as words in the memory of \<open>kernel\<close>.
\<close>

definition check_arg :: "32 word \<Rightarrow> bool" where
  "check_arg arg \<longleftrightarrow> arg = 0 \<or> 0x1000000 \<le> unat arg \<and> unat arg \<le> 0x3000000"

definition kcall :: "(kernel \<Rightarrow> kernel option) \<Rightarrow> system \<Rightarrow> system option" where
  "kcall f sys = map_option (\<lambda>k. sys\<lparr>kern := k\<rparr>) (f (kern sys))"

definition ret :: "int \<Rightarrow> kernel \<Rightarrow> kernel option" where
  "ret v k = Some (push [Return v] k)"

definition write_call :: "nat list \<Rightarrow> kernel \<Rightarrow> kernel option" where
  "write_call str k = do {
     con \<leftarrow> cons_write str (kconsole k);
     ret 0 (k\<lparr>kconsole := con\<rparr>)
   }"

definition settings_call :: "nat \<Rightarrow> nat \<Rightarrow> kernel \<Rightarrow> kernel option" where
  "settings_call quartz ticks k =
     ret 0 (set_word ticks (int (snd clock_settings)) (set_word quartz (int (fst clock_settings)) k))"

definition syscall_handler ::
  "int \<Rightarrow> 32 word \<Rightarrow> 32 word \<Rightarrow> 32 word \<Rightarrow> 32 word \<Rightarrow> 32 word \<Rightarrow> system \<Rightarrow> system option" where
  "syscall_handler call_code arg1 arg2 arg3 arg4 arg5 sys =
     (if call_code = 0 then
        (if \<not> check_arg arg1 then kcall (ret (-1)) sys
         else kcall (write_call (bytes_at (bytes sys) (unat arg1) (nat (sint arg2)))) sys)
      else if call_code = 1 then kcall (ret 0) (cons_echo (arg1 \<noteq> 0) sys)
      else if call_code = 3 then
        (if \<not> check_arg arg1 \<or> \<not> check_arg arg4 then kcall (ret (-1)) sys
         else kcall (start (uint arg1) (unat arg2) (sint arg3) (\<lambda>i. bytes sys (unat arg4 + i)) (uint arg5)) sys)
      else if call_code = 4 then kcall (kill (sint arg1)) sys
      else if call_code = 5 then kcall (exit (sint arg1)) sys
      else if call_code = 6 then kcall (chprio (sint arg1) (sint arg2)) sys
      else if call_code = 7 then kcall (ret (getpid (kern sys))) sys
      else if call_code = 8 then kcall (\<lambda>k. Option.bind (getprio (sint arg1) k) (\<lambda>p. ret p k)) sys
      else if call_code = 9 then
        (if \<not> check_arg arg2 then kcall (ret (-1)) sys else kcall (waitpid (sint arg1) (unat arg2)) sys)
      else if call_code = 10 then kcall (wait_clock (unat arg1)) sys
      else if call_code = 11 then kcall (ret (int (current_clock (kclock (kern sys))))) sys
      else if call_code = 12 then
        (if \<not> check_arg arg1 \<or> \<not> check_arg arg2 then kcall (ret (-1)) sys
         else kcall (settings_call (unat arg1) (unat arg2)) sys)
      else if call_code = 13 then
        (if \<not> check_arg arg2 then kcall (ret (-1)) sys else kcall (pcount (sint arg1) (unat arg2)) sys)
      else if call_code = 14 then kcall (pcreate_call (sint arg1)) sys
      else if call_code = 15 then kcall (pdelete (sint arg1)) sys
      else if call_code = 16 then
        (if \<not> check_arg arg2 then kcall (ret (-1)) sys else kcall (preceive (sint arg1) (unat arg2)) sys)
      else if call_code = 17 then kcall (preset (sint arg1)) sys
      else if call_code = 18 then kcall (psend (sint arg1) (sint arg2)) sys
      else if call_code = 2 then
        (if \<not> check_arg arg1 then kcall (ret (-1)) sys else cons_read (unat arg1) (unat arg2) sys)
      else None)"

subsection \<open>Which memory the calls write\<close>

lemma kqueue_memory:
  "kqueue_add s k = Some k' \<Longrightarrow> memory k' = memory k" "kqueue_del s k = Some k' \<Longrightarrow> memory k' = memory k"
  "notify_killed p k = Some k' \<Longrightarrow> memory k' = memory k"
  by (auto simp: kqueue_add_def kqueue_del_def notify_killed_def split: bind_splits)

lemma awake_memory: "awake p k = Some (a, k') \<Longrightarrow> memory k' = memory k"
  by (auto simp: awake_def dest!: kqueue_memory split: bind_splits)

lemma request_zombify_memory: "request_zombify p k = Some k' \<Longrightarrow> memory k' = memory k"
  by (auto simp: request_zombify_def Let_def dest!: kqueue_memory split: bind_splits if_splits)

lemma request_destroy_memory: "request_destroy p k = Some k' \<Longrightarrow> memory k' = memory k"
  by (auto simp: request_destroy_def Let_def dest!: kqueue_memory split: bind_splits if_splits)

lemma block_by_message_memory: "block_by_message p k = Some k' \<Longrightarrow> memory k' = memory k"
  by (auto simp: block_by_message_def Let_def dest!: kqueue_memory split: bind_splits if_splits)

lemma block_on_queue_memory: "block_on_queue fid lp m a k = Some k' \<Longrightarrow> memory k' = memory k"
  by (auto simp: block_on_queue_def Let_def dest!: block_by_message_memory split: bind_splits)

lemma chprio_memory: "chprio p n k = Some k' \<Longrightarrow> memory k' = memory k"
  by (auto simp: chprio_def Let_def dest!: kqueue_memory split: bind_splits if_splits option.splits)

lemmas call_memory = kqueue_memory awake_memory request_zombify_memory request_destroy_memory
  block_on_queue_memory chprio_memory

text \<open>\<open>writes Z f\<close>: where the call \<open>f\<close> may change the memory.\<close>

definition writes :: "nat set \<Rightarrow> kernel \<Rightarrow> kernel \<Rightarrow> bool" where
  "writes Z k k' \<longleftrightarrow> (\<forall>a. a \<notin> Z \<longrightarrow> memory k' a = memory k a)"

lemma writes_store: "a = 0 \<or> a \<in> Z \<Longrightarrow> memory k' = memory (store_result a v k) \<Longrightarrow> writes Z k k'"
  by (auto simp: writes_def store_result_def set_word_def)

lemma writes_same: "memory k' = memory k \<Longrightarrow> writes Z k k'"
  by (simp add: writes_def)

lemma writes_mono: "writes Z k k' \<Longrightarrow> Z \<subseteq> Z' \<Longrightarrow> writes Z' k k'"
  by (auto simp: writes_def)

definition destinations :: "kernel \<Rightarrow> nat set" where
  "destinations k = {c_destination c |c i lp. locked_processes (mq_data (mqt k) i) = Some lp \<and> c \<in> set (pq_nodes lp)}"

lemma reset_loop_writes:
  "reset_loop lp need k = Some (lp', need', k') \<Longrightarrow> writes (insert 0 (c_destination ` set (pq_nodes lp))) k k'"
proof (induction lp need k rule: reset_loop.induct)
  case (1 lp need k)
  show ?case
  proof (cases "pq_size lp > 0")
    case False
    with "1.prems" show ?thesis by (subst (asm) reset_loop.simps) (auto intro: writes_same)
  next
    case True
    with "1.prems" obtain c lp1 a k1 where c: "process_queue_remove_first lp = Some (c, lp1)"
      "awake (c_pid c) (store_result (c_destination c) (-1) k) = Some (a, k1)"
      "reset_loop lp1 (a \<or> need) (k1\<lparr>mqt := (mqt k1)\<lparr>reset_releases :=
         (reset_releases (mqt k1))(nat (c_pid c - 1) := True)\<rparr>\<rparr>) = Some (lp', need', k')"
      by (subst (asm) reset_loop.simps) (auto split: option.splits)
    note ih = "1.IH" [OF True c(1) refl c(2) refl c(3)]
    have sub: "set (pq_nodes lp) = insert c (set (pq_nodes lp1))"
      using c(1) by (auto simp: process_queue_remove_first_def split: list.splits)
    have "memory k1 = memory (store_result (c_destination c) (-1) k)" using awake_memory [OF c(2)] .
    then show ?thesis using ih sub by (auto simp: writes_def store_result_def set_word_def)
  qed
qed

lemma reset_writes:
  "message_queue_reset fid k = Some (v, need, k') \<Longrightarrow> writes (insert 0 (destinations k)) k k'"
proof (cases "valid_fid fid (mqt k)")
  case True
  assume "message_queue_reset fid k = Some (v, need, k')"
  then obtain lp lp' need' k1 where lp: "locked_processes (the_mq fid k) = Some lp"
    "reset_loop lp False k = Some (lp', need', k1)" "memory k' = memory k1"
    using True by (auto simp: message_queue_reset_def Let_def split: bind_splits)
  have "c_destination ` set (pq_nodes lp) \<subseteq> destinations k"
    using lp(1) unfolding destinations_def the_mq_def by blast
  then have "writes (insert 0 (destinations k)) k k1"
    by (intro writes_mono [OF reset_loop_writes [OF lp(2)]]) auto
  then show ?thesis using lp(3) by (simp add: writes_def)
qed (auto simp: message_queue_reset_def intro: writes_same)

lemma psend_writes: "psend fid m k = Some k' \<Longrightarrow> writes (insert 0 (destinations k)) k k'"
proof -
  assume p: "psend fid m k = Some k'"
  show ?thesis
  proof (cases "valid_fid fid (mqt k)")
    case True
    with p obtain lp where lp: "locked_processes (the_mq fid k) = Some lp" by (auto simp: psend_def Let_def split: bind_splits)
    show ?thesis
    proof (cases "nb_messages (the_mq fid k) = 0 \<and> pq_size lp > 0")
      case hand: True
      with p True lp obtain c lp' a k1 where c: "process_queue_remove_first lp = Some (c, lp')"
        "awake (c_pid c) (store_result (c_destination c) m
           (set_mq fid ((the_mq fid k)\<lparr>locked_processes := Some lp'\<rparr>) k)) = Some (a, k1)" "memory k' = memory k1"
        by (auto simp: psend_def Let_def split: bind_splits)
      have "c \<in> set (pq_nodes lp)" using c(1) by (auto simp: process_queue_remove_first_def split: list.splits)
      then have "c_destination c \<in> destinations k" using lp unfolding destinations_def the_mq_def by blast
      then show ?thesis using awake_memory [OF c(2)] c(3)
        by (intro writes_store [of "c_destination c" _ k' m k]) (auto simp: store_result_def set_word_def)
    next
      case False
      with p True lp show ?thesis
        by (intro writes_same) (auto simp: psend_def Let_def dest!: block_on_queue_memory split: bind_splits if_splits)
    qed
  qed (use p in \<open>auto simp: psend_def intro: writes_same\<close>)
qed

lemma preceive_writes: "preceive fid a k = Some k' \<Longrightarrow> writes {0, a} k k'"
  by (auto simp: preceive_def Let_def writes_def store_result_def set_word_def dest!: call_memory
      split: bind_splits if_splits)

lemma waitpid_writes: "waitpid p a k = Some k' \<Longrightarrow> writes {0, a} k k'"
  by (auto simp: waitpid_def reap_def Let_def writes_def store_result_def set_word_def dest!: call_memory
      split: bind_splits if_splits sum.splits)

subsection \<open>Properties\<close>

definition user_zone :: "nat set" where
  "user_zone = {0x1000000..0x3000000}"

text \<open>The arguments of a call that are addresses.\<close>

definition pointer_args :: "int \<Rightarrow> 32 word \<Rightarrow> 32 word \<Rightarrow> 32 word \<Rightarrow> 32 word list" where
  "pointer_args code arg1 arg2 arg4 = (if code = 0 \<or> code = 2 then [arg1] else if code = 3 then [arg1, arg4]
     else if code = 9 \<or> code = 13 \<or> code = 16 then [arg2] else if code = 12 then [arg1, arg2] else [])"



lemma kcall_writes:
  "kcall f sys = Some sys' \<Longrightarrow> (\<And>k'. f (kern sys) = Some k' \<Longrightarrow> writes Z (kern sys) k') \<Longrightarrow> writes Z (kern sys) (kern sys')"
  by (auto simp: kcall_def)

lemma kcall_quiet:
  "kcall (ret v) sys = Some sys' \<Longrightarrow> writes Z (kern sys) (kern sys')"
  "kcall (ret v) (cons_echo on sys) = Some sys' \<Longrightarrow> writes Z (kern sys) (kern sys')"
  "kcall (write_call str) sys = Some sys' \<Longrightarrow> writes Z (kern sys) (kern sys')"
  "kcall (kill p) sys = Some sys' \<Longrightarrow> writes Z (kern sys) (kern sys')"
  "kcall (exit v) sys = Some sys' \<Longrightarrow> writes Z (kern sys) (kern sys')"
  "kcall (chprio p n) sys = Some sys' \<Longrightarrow> writes Z (kern sys) (kern sys')"
  "kcall (\<lambda>k. Option.bind (getprio p k) (\<lambda>v. ret v k)) sys = Some sys' \<Longrightarrow> writes Z (kern sys) (kern sys')"
  "kcall (wait_clock clk) sys = Some sys' \<Longrightarrow> writes Z (kern sys) (kern sys')"
  "kcall (pcreate_call p) sys = Some sys' \<Longrightarrow> writes Z (kern sys) (kern sys')"
  "cons_read a len sys = Some sys' \<Longrightarrow> writes Z (kern sys) (kern sys')"
  by (auto simp: kcall_def ret_def cons_echo_def write_call_def kill_def exit_def wait_clock_def pcreate_call_def
      cons_read_def push_io_def Let_def intro!: writes_same dest!: call_memory split: bind_splits if_splits)

lemma kcall_destinations:
  "kcall (preset fid) sys = Some sys' \<Longrightarrow> writes (insert 0 (destinations (kern sys))) (kern sys) (kern sys')"
  "kcall (pdelete fid) sys = Some sys' \<Longrightarrow> writes (insert 0 (destinations (kern sys))) (kern sys) (kern sys')"
  "kcall (psend fid m) sys = Some sys' \<Longrightarrow> writes (insert 0 (destinations (kern sys))) (kern sys) (kern sys')"
  by (auto simp: kcall_def preset_def pdelete_def Let_def writes_def [of _ _ "push _ _"] writes_def [of _ _ "_\<lparr>mqt := _\<rparr>"]
      intro: psend_writes dest!: reset_writes [unfolded writes_def] split: bind_splits if_splits)

lemma kcall_pointer:
  "kcall (waitpid p a) sys = Some sys' \<Longrightarrow> writes {0, a} (kern sys) (kern sys')"
  "kcall (preceive fid a) sys = Some sys' \<Longrightarrow> writes {0, a} (kern sys) (kern sys')"
  "kcall (pcount fid a) sys = Some sys' \<Longrightarrow> writes {0, a} (kern sys) (kern sys')"
  "kcall (settings_call a b) sys = Some sys' \<Longrightarrow> writes {0, a, b} (kern sys) (kern sys')"
  by (auto simp: pcount_def settings_call_def ret_def writes_def [of _ _ "push _ _"] set_word_def Let_def
      intro: waitpid_writes preceive_writes elim!: kcall_writes split: bind_splits if_splits)


lemma settings_syscall:
  assumes "check_arg a" "check_arg b"
  shows "syscall_handler 12 a b arg3 arg4 arg5 sys = Some (sys\<lparr>kern := push [Return 0]
    (set_word (unat b) (int CLOCKPERIOD) (set_word (unat a) (int QUARTZ) (kern sys)))\<rparr>)"
  using assms by (simp add: syscall_handler_def kcall_def settings_call_def ret_def clock_settings_def)


text \<open>A null pointer passes the check and is written through: the access goes to address 0, whose page is protected
  (\<^verbatim>\<open>crt0.S\<close>), so that on the machine the system call ends in an exception of the kernel.\<close>

lemma clock_settings_null:
  "\<exists>sys'. syscall_handler 12 0 0 0 0 0 sys = Some sys' \<and> memory (kern sys') 0 = int CLOCKPERIOD"
  using settings_syscall [of 0 0 0 0 0 sys] by (simp add: check_arg_def set_word_def)

text \<open>C19: two system calls carry a message from process to process: \<open>psend\<close> on an open queue that is empty and
  on which nobody waits, and then \<open>preceive\<close>, both return 0, and the word sent is stored at the user
  address given to \<open>preceive\<close>; the queue is empty again.\<close>

theorem syscall_message_round_trip:
  assumes "valid_fid (sint f) (mqt (kern sys))" "mq_inv (the_mq (sint f) (kern sys))"
    and "messages (the_mq (sint f) (kern sys)) = []" "mq_nodes (the_mq (sint f) (kern sys)) = []"
    and "kstack (kern sys) = []" "unat p \<in> user_zone"
  shows "\<exists>s1 s2 s3 s4. syscall_handler 18 f m a3 a4 a5 sys = Some s1 \<and> sys_step s1 = Some s2 \<and> eax (kern s2) = 0
    \<and> kstack (kern s2) = [] \<and> syscall_handler 16 f p b3 b4 b5 s2 = Some s3 \<and> sys_step s3 = Some s4
    \<and> eax (kern s4) = 0 \<and> kstack (kern s4) = [] \<and> memory (kern s4) (unat p) = sint m
    \<and> messages (the_mq (sint f) (kern s4)) = []"
proof -
  have p: "check_arg p" "unat p \<noteq> 0" using assms(6) by (auto simp: check_arg_def user_zone_def)
  have room: "nb_messages (the_mq (sint f) (kern sys)) < mq_size (the_mq (sint f) (kern sys))"
    using open_queue [OF assms(1,2)] assms(3) length_messages [of "the_mq (sint f) (kern sys)"] by (metis list.size(3))
  obtain q where q: "psend (sint f) (sint m) (kern sys) = Some (push [Return 0] (set_mq (sint f) q (kern sys)))" "mq_inv q"
    "messages q = [sint m]" "mq_nodes q = []" "buffer q = buffer (the_mq (sint f) (kern sys))"
    using psend_stores [OF assms(1,2) room assms(4), of "sint m"] assms(3) by (metis append_Nil)
  define k2 where "k2 = (set_mq (sint f) q (kern sys))\<lparr>eax := 0\<rparr>"
  have k2: "valid_fid (sint f) (mqt k2)" "the_mq (sint f) k2 = q" "kstack k2 = []"
    using assms(1,5) q(5) by (simp_all add: k2_def valid_fid_def set_mq_def the_mq_def)
  define s1 where "s1 = sys\<lparr>kern := push [Return 0] (set_mq (sint f) q (kern sys))\<rparr>"
  define s2 where "s2 = sys\<lparr>kern := k2, io := live_io k2 (io sys)\<rparr>"
  obtain q' where q': "preceive (sint f) (unat p) k2
      = Some (push [Return 0] (store_result (unat p) (sint m) (set_mq (sint f) q' k2)))" "messages q' = []"
    using preceive_takes [of "sint f" k2 "sint m" "[]" "unat p"] k2 q(2-4) by metis
  define k4 where "k4 = store_result (unat p) (sint m) (set_mq (sint f) q' k2)"
  have k4: "kstack k4 = []" "memory k4 (unat p) = sint m" "messages (the_mq (sint f) k4) = []"
    using k2(3) p(2) q'(2) by (simp_all add: k4_def)
  have "syscall_handler 18 f m a3 a4 a5 sys = Some s1"
    using q(1) by (simp add: syscall_handler_def kcall_def s1_def)
  moreover have "sys_step s1 = Some s2"
    using assms(5) by (simp add: sys_step_def kstep_def s1_def s2_def k2_def push_def live_io_def fun_eq_iff)
  moreover have "syscall_handler 16 f p b3 b4 b5 s2 = Some (s2\<lparr>kern := push [Return 0] k4\<rparr>)"
    using q'(1) p(1) by (simp add: syscall_handler_def kcall_def s2_def k4_def)
  moreover have "sys_step (s2\<lparr>kern := push [Return 0] k4\<rparr>) = Some (s2\<lparr>kern := k4\<lparr>eax := 0\<rparr>, io := live_io k4 (io s2)\<rparr>)"
    using k4(1) by (simp add: sys_step_def kstep_def push_def live_io_def fun_eq_iff)
  moreover have "eax (kern s2) = 0" "kstack (kern s2) = []" using k2(3) by (simp_all add: s2_def k2_def)
  ultimately show ?thesis using k4
    by (intro exI [of _ s1] exI [of _ s2] exI [of _ "s2\<lparr>kern := push [Return 0] k4\<rparr>"]
        exI [of _ "s2\<lparr>kern := k4\<lparr>eax := 0\<rparr>, io := live_io k4 (io s2)\<rparr>"] conjI)
       (simp_all add: the_mq_def)
qed

theorem syscall_message_round_trip_witness:
  "\<exists>s1 s2 s3 s4. syscall_handler 18 0 77 0 0 0 (tty_system 0) = Some s1 \<and> sys_step s1 = Some s2
    \<and> syscall_handler 16 0 0x1000000 0 0 0 s2 = Some s3 \<and> sys_step s3 = Some s4 \<and> memory (kern s4) 0x1000000 = 77"
proof -
  have "mq_inv (sample_queue 0 [])" by (rule sample_queue_inv) (simp_all add: pq_ok_def)
  then have t: "valid_fid (sint (0 :: 32 word)) (mqt (kern (tty_system 0)))"
    "mq_inv (the_mq (sint (0 :: 32 word)) (kern (tty_system 0)))"
    "messages (the_mq (sint (0 :: 32 word)) (kern (tty_system 0))) = []"
    "mq_nodes (the_mq (sint (0 :: 32 word)) (kern (tty_system 0))) = []" "kstack (kern (tty_system 0)) = []"
    using terminal_tty_system [of 0] stdin_tty_system [of 0]
    by (simp_all add: terminal_def tty_system_def sample_queue_messages)
  have "unat (0x1000000 :: 32 word) \<in> user_zone" by (simp add: user_zone_def)
  from syscall_message_round_trip [OF t this, of 77 0 0 0 0 0 0]
  show ?thesis by simp blast
qed

end
