(* ===== verification/Descriptors.thy ===== *)
theory Descriptors
  imports Prelude
begin

unbundle bit_operations_syntax

text \<open>
  The tables of the processor: \<^verbatim>\<open>kernel/boot/processor_structs.c\<close> with \<^verbatim>\<open>processor_structs.h\<close> and \<^verbatim>\<open>segment.h\<close>.

  \<open>cpu\<close> holds the descriptor tables, the task state segments, the page table and the bytes sent to the ports.
  Where the tables and stacks lie is fixed by the linker: \<open>layout\<close>. Loading the registers of the processor from
  the tables (\<open>lgdt\<close>, \<open>lidt\<close>, \<open>ltr\<close> and the selectors) has no effect on this state and is not modelled.
\<close>

subsection \<open>Constants\<close>

definition BASE_TSS :: "16 word" where "BASE_TSS = 0x08"
definition KERNEL_CS :: "32 word" where "KERNEL_CS = 0x10"
definition KERNEL_DS :: "32 word" where "KERNEL_DS = 0x18"
definition USER_CS :: "32 word" where "USER_CS = 0x43"
definition USER_DS :: "32 word" where "USER_DS = 0x4b"
definition TRAP_TSS_BASE :: nat where "TRAP_TSS_BASE = 0x50"
definition HANDLER_ENTRIES :: nat where "HANDLER_ENTRIES = 32"
definition FIRST_STACK_SIZE :: "32 word" where "FIRST_STACK_SIZE = 16384"

definition SZ_32 :: "32 word" where "SZ_32 = 0x4"
definition SZ_G :: "32 word" where "SZ_G = 0x8"
definition ACC_TASK_GATE :: "32 word" where "ACC_TASK_GATE = 0x05"
definition ACC_TSS :: "32 word" where "ACC_TSS = 0x09"
definition ACC_DATA_W :: "32 word" where "ACC_DATA_W = 0x12"
definition ACC_CODE_R :: "32 word" where "ACC_CODE_R = 0x1a"
definition ACC_PL_K :: "32 word" where "ACC_PL_K = 0x00"
definition ACC_PL_U :: "32 word" where "ACC_PL_U = 0x60"
definition ACC_P :: "32 word" where "ACC_P = 0x80"

lemmas access_consts = SZ_32_def SZ_G_def ACC_TASK_GATE_def ACC_TSS_def ACC_DATA_W_def ACC_CODE_R_def
  ACC_PL_K_def ACC_PL_U_def ACC_P_def

subsection \<open>Descriptors\<close>

definition fill_descriptor :: "32 word \<Rightarrow> 32 word \<Rightarrow> 32 word \<Rightarrow> 32 word \<Rightarrow> 64 word" where
  "fill_descriptor base limit access sizebits =
     (let (limit, sizebits) = (if limit > 0xfffff then (drop_bit 12 limit, sizebits OR SZ_G) else (limit, sizebits));
          p0 = (limit AND 0xffff) + push_bit 16 (base AND 0xffff);
          p1 = drop_bit 16 base AND 0xff;
          p1 = p1 OR push_bit 8 ((access OR ACC_P) AND 0xff);
          p1 = p1 OR (limit AND 0xf0000);
          p1 = p1 OR push_bit 20 (sizebits AND 0xf);
          p1 = p1 OR (base AND 0xff000000)
      in push_bit 32 (ucast p1) OR ucast p0)"

definition fill_gate :: "32 word \<Rightarrow> 16 word \<Rightarrow> 8 word \<Rightarrow> 8 word \<Rightarrow> 64 word" where
  "fill_gate offset selector access word_count =
     (let p0 = offset AND 0xffff;
          p0 = p0 OR push_bit 16 (ucast selector);
          p1 = ucast word_count AND (0xf :: 32 word);
          p1 = p1 OR push_bit 8 (ucast access OR ACC_P);
          p1 = p1 OR (offset AND 0xffff0000)
      in push_bit 32 (ucast p1) OR ucast p0)"

subsection \<open>Task state segments\<close>

record x86_tss =
  back_link :: "32 word"
  t_esp0 :: "32 word"
  t_ss0 :: "32 word"
  t_esp1 :: "32 word"
  t_ss1 :: "32 word"
  t_esp2 :: "32 word"
  t_ss2 :: "32 word"
  t_cr3 :: "32 word"
  t_eip :: "32 word"
  t_eflags :: "32 word"
  t_eax :: "32 word"
  t_ecx :: "32 word"
  t_edx :: "32 word"
  t_ebx :: "32 word"
  t_esp :: "32 word"
  t_ebp :: "32 word"
  t_esi :: "32 word"
  t_edi :: "32 word"
  t_es :: "32 word"
  t_cs :: "32 word"
  t_ss :: "32 word"
  t_ds :: "32 word"
  t_fs :: "32 word"
  t_gs :: "32 word"
  t_ldt :: "32 word"
  trace_trap :: "16 word"
  io_bit_map_offset :: "16 word"

definition TSS_SIZE :: nat where
  "TSS_SIZE = 104"

definition zero_tss :: x86_tss where
  "zero_tss = \<lparr>back_link = 0, t_esp0 = 0, t_ss0 = 0, t_esp1 = 0, t_ss1 = 0, t_esp2 = 0, t_ss2 = 0, t_cr3 = 0, t_eip = 0,
     t_eflags = 0, t_eax = 0, t_ecx = 0, t_edx = 0, t_ebx = 0, t_esp = 0, t_ebp = 0, t_esi = 0, t_edi = 0, t_es = 0,
     t_cs = 0, t_ss = 0, t_ds = 0, t_fs = 0, t_gs = 0, t_ldt = 0, trace_trap = 0, io_bit_map_offset = 0\<rparr>"

record layout =
  tss_addr :: "32 word"
  trap_tss_addr :: "32 word"
  trap_stack_end :: "32 word"
  first_stack :: "32 word"
  pgdir :: "32 word"
  exception_handler_tasks :: "nat \<Rightarrow> 32 word"
  rodata_start :: "32 word"
  rodata_end :: "32 word"

record cpu =
  gdt :: "nat \<Rightarrow> 64 word"
  idt64 :: "nat \<Rightarrow> 64 word"
  tss :: x86_tss
  trap_tss :: "nat \<Rightarrow> x86_tss"
  pgtab :: "nat \<Rightarrow> 32 word"
  ports :: "(nat \<times> nat) list"

subsection \<open>Setting up\<close>

definition trap_descriptor :: "layout \<Rightarrow> nat \<Rightarrow> 64 word" where
  "trap_descriptor l i =
     fill_descriptor (trap_tss_addr l + of_nat (TSS_SIZE * i)) (of_nat TSS_SIZE - 1) (ACC_PL_K OR ACC_TSS OR ACC_P) 0"

definition setup_gdt :: "layout \<Rightarrow> cpu \<Rightarrow> cpu" where
  "setup_gdt l c =
     (let g = (\<lambda>_. 0);
          g = g(unat BASE_TSS div 8 := fill_descriptor (tss_addr l) (of_nat TSS_SIZE - 1) (ACC_PL_K OR ACC_TSS OR ACC_P) 0);
          g = g(unat KERNEL_CS div 8 := fill_descriptor 0 0xffffffff (ACC_PL_K OR ACC_CODE_R) SZ_32);
          g = g(unat KERNEL_DS div 8 := fill_descriptor 0 0xffffffff (ACC_PL_K OR ACC_DATA_W) SZ_32);
          g = g(unat USER_CS div 8 := fill_descriptor 0 0xffffffff (ACC_PL_U OR ACC_CODE_R) SZ_32);
          g = g(unat USER_DS div 8 := fill_descriptor 0 0xffffffff (ACC_PL_U OR ACC_DATA_W) SZ_32);
          g = fold (\<lambda>i g. g(i + TRAP_TSS_BASE div 8 := trap_descriptor l i)) [0..<HANDLER_ENTRIES] g
      in c\<lparr>gdt := g\<rparr>)"

definition setup_trap_tss :: "layout \<Rightarrow> nat \<Rightarrow> x86_tss \<Rightarrow> x86_tss" where
  "setup_trap_tss l i ts =
     ts\<lparr>t_ss0 := KERNEL_DS, t_esp0 := trap_stack_end l, t_ss := KERNEL_DS, t_esp := trap_stack_end l,
        io_bit_map_offset := of_nat TSS_SIZE, t_cs := KERNEL_CS, t_eip := exception_handler_tasks l i,
        t_ds := KERNEL_DS, t_es := KERNEL_DS, t_fs := 0, t_gs := 0, t_eflags := 2, trace_trap := 0, t_cr3 := pgdir l\<rparr>"

definition setup_idt :: "layout \<Rightarrow> cpu \<Rightarrow> cpu" where
  "setup_idt l c =
     fold (\<lambda>i c.
       (let access = ACC_TASK_GATE + (if i = 3 then 0x60 else 0)
        in c\<lparr>trap_tss := (trap_tss c)(i := setup_trap_tss l i (trap_tss c i)),
             idt64 := (idt64 c)(i := fill_gate 0 (of_nat (TRAP_TSS_BASE + 8 * i)) (ucast access) 0)\<rparr>))
       [0..<HANDLER_ENTRIES] (c\<lparr>idt64 := (\<lambda>_. 0)\<rparr>)"

definition setup_tss :: "layout \<Rightarrow> cpu \<Rightarrow> cpu" where
  "setup_tss l c =
     c\<lparr>tss := zero_tss\<lparr>t_ss0 := KERNEL_DS, t_esp0 := first_stack l + FIRST_STACK_SIZE,
       io_bit_map_offset := of_nat TSS_SIZE, t_cr3 := pgdir l\<rparr>\<rparr>"

definition outb :: "nat \<Rightarrow> nat \<Rightarrow> cpu \<Rightarrow> cpu" where
  "outb v port c = c\<lparr>ports := ports c @ [(port, v)]\<rparr>"

definition setup_pic :: "cpu \<Rightarrow> cpu" where
  "setup_pic c =
     (let c = outb 0x11 0x20 c; c = outb 0x20 0x21 c; c = outb 0x4 0x21 c; c = outb 0x1 0x21 c;
          c = outb 0x11 0xa0 c; c = outb 0x28 0xa1 c; c = outb 0x2 0xa1 c; c = outb 0x1 0xa1 c;
          c = outb 0x20 0x20 c; c = outb 0x20 0xa0 c;
          c = outb 0xff 0x21 c
      in outb 0xff 0xa1 c)"

text \<open>The assembly function \<open>setup_pgtab\<close> is an argument.\<close>

definition cpu_init :: "layout \<Rightarrow> (cpu \<Rightarrow> cpu) \<Rightarrow> cpu \<Rightarrow> cpu" where
  "cpu_init l setup_pgtab c = setup_pgtab (setup_pic (setup_tss l (setup_idt l (setup_gdt l c))))"

definition setup_rodata :: "layout \<Rightarrow> cpu \<Rightarrow> cpu" where
  "setup_rodata l c =
     c\<lparr>pgtab := fold (\<lambda>i t. t(i := t i AND 0xFFFFFFFD))
       [unat (drop_bit 12 (rodata_start l))..<unat (drop_bit 12 (rodata_end l))] (pgtab c)\<rparr>"

text \<open>From \<^verbatim>\<open>kernel/debugger.c\<close>: the address in the descriptor that a selector names.\<close>

definition tss_sel_2_tss :: "(nat \<Rightarrow> 64 word) \<Rightarrow> 16 word \<Rightarrow> 32 word" where
  "tss_sel_2_tss g sel =
     (let d = g (unat (drop_bit 3 sel));
          p = ucast (drop_bit 16 d) AND (0xffffff :: 32 word)
      in p + push_bit 24 (ucast (drop_bit 56 d) :: 32 word))"

subsection \<open>How the processor reads the tables\<close>

definition desc_base :: "64 word \<Rightarrow> 32 word" where
  "desc_base d = ucast (take_bit 24 (drop_bit 16 d)) OR push_bit 24 (ucast (drop_bit 56 d))"

definition desc_granular :: "64 word \<Rightarrow> bool" where
  "desc_granular d = bit d 55"

definition desc_limit :: "64 word \<Rightarrow> 32 word" where
  "desc_limit d =
     (let n = ucast (take_bit 16 d) OR push_bit 16 (ucast (take_bit 4 (drop_bit 48 d)))
      in if desc_granular d then push_bit 12 n OR 0xfff else n)"

definition desc_access :: "64 word \<Rightarrow> 32 word" where
  "desc_access d = ucast (take_bit 8 (drop_bit 40 d))"

lemma masks64:
  "(0xffff :: 32 word) = mask 16" "(0xff :: 32 word) = mask 8" "(0xf :: 32 word) = mask 4" "(0xffffff :: 32 word) = mask 24"
  "(0xf0000 :: 32 word) = push_bit 16 (mask 4)" "(0xff000000 :: 32 word) = push_bit 24 (mask 8)"
  "(0xffff0000 :: 32 word) = push_bit 16 (mask 16)" "(0xfff :: 32 word) = mask 12"
  by (simp_all add: mask_eq_decr_exp push_bit_eq_mult)

lemma bit_field: "bit (push_bit k (w AND mask j) :: 'a::len word) n \<longleftrightarrow> n < LENGTH('a) \<and> k \<le> n \<and> n < k + j \<and> bit w (n - k)"
  by (auto simp: bit_simps)

lemma bit_part: "bit ((w :: 'a::len word) AND push_bit k (mask j)) n \<longleftrightarrow> k \<le> n \<and> n < k + j \<and> bit w n"
  by (auto simp: bit_simps dest: bit_imp_le_length)

lemma bit_low: "bit ((w :: 'a::len word) AND mask j) n \<longleftrightarrow> n < j \<and> bit w n"
  by (auto simp: bit_simps dest: bit_imp_le_length)

lemmas bit_fields = bit_or_iff bit_push_bit_iff bit_mask_iff bit_field bit_part bit_low bit_drop_bit_eq comp_def

lemma bit_32: "bit (w :: 32 word) n \<Longrightarrow> n < 32"
  by (drule bit_imp_le_length) simp

lemma bit_low_half:
  "bit (((limit :: 32 word) AND mask 16) + push_bit 16 (base AND mask 16)) n
    \<longleftrightarrow> n < 32 \<and> (if n < 16 then bit limit n else bit base (n - 16))"
proof -
  have "(limit AND mask 16) + push_bit 16 (base AND mask 16) = (limit AND mask 16) OR push_bit 16 (base AND mask 16)"
    by (rule disjunctive_add_eq_or, rule bit_word_eqI) (simp add: bit_and_iff bit_fields)
  then show ?thesis by (auto simp: bit_fields dest: bit_32)
qed

lemma bit_high_half:
  "bit (((((drop_bit 16 (base :: 32 word) AND mask 8) OR push_bit 8 (acc AND mask 8)) OR (limit AND push_bit 16 (mask 4)))
      OR push_bit 20 (sz AND mask 4)) OR (base AND push_bit 24 (mask 8))) n
    \<longleftrightarrow> n < 32 \<and> (if n < 8 then bit base (n + 16) else if n < 16 then bit acc (n - 8) else if n < 20 then bit limit n
      else if n < 24 then bit sz (n - 20) else bit base n)"
proof -
  consider "n < 8" | "8 \<le> n" "n < 16" | "16 \<le> n" "n < 20" | "20 \<le> n" "n < 24" | "24 \<le> n" by linarith
  then show ?thesis by cases (auto simp: bit_fields add.commute dest: bit_32)
qed

lemma bit_halves: "bit (push_bit 32 (ucast (p1 :: 32 word)) OR ucast (p0 :: 32 word) :: 64 word) n
    \<longleftrightarrow> n < 64 \<and> (if n < 32 then bit p0 n else bit p1 (n - 32))"
  by (auto simp: bit_simps dest: bit_imp_le_length)

lemma bit_fill_descriptor:
  assumes "limit \<le> 0xfffff"
  shows "bit (fill_descriptor base limit access sizebits) n \<longleftrightarrow> n < 64 \<and>
    (if n < 16 then bit limit n else if n < 40 then bit base (n - 16) else if n < 48 then bit (access OR ACC_P) (n - 40)
     else if n < 52 then bit limit (n - 32) else if n < 56 then bit sizebits (n - 52) else bit base (n - 32))"
proof -
  have "\<not> limit > 0xfffff" using assms by simp
  then show ?thesis
    unfolding fill_descriptor_def masks64 Let_def prod.case if_not_P [OF \<open>\<not> limit > 0xfffff\<close>] bit_halves bit_low_half bit_high_half
    by auto
qed

lemma limit_small: "drop_bit 12 (limit :: 32 word) \<le> 0xfffff"
  using unat_bound [of limit] by (simp add: word_le_nat_alt unat_drop_bit less_mult_imp_div_less less_Suc_eq_le [symmetric])

lemma fill_descriptor_large:
  "limit > 0xfffff \<Longrightarrow> fill_descriptor base limit access sizebits = fill_descriptor base (drop_bit 12 limit) access (sizebits OR SZ_G)"
  using limit_small [of limit] by (simp add: fill_descriptor_def not_less)

lemma bit_desc_base: "bit (desc_base d) n \<longleftrightarrow> n < 32 \<and> (if n < 24 then bit d (n + 16) else bit d (n + 32))"
  by (auto simp: desc_base_def bit_simps add.commute)

lemma bit_SZ_G: "bit SZ_G n \<longleftrightarrow> n = 3"
proof -
  have eq: "SZ_G = 2 ^ 3" by (simp add: SZ_G_def)
  show ?thesis unfolding eq bit_exp_iff by auto
qed

lemma descriptor_reads:
  fixes base limit access sizebits :: "32 word"
  assumes "sizebits AND SZ_G = 0"
  defines "d \<equiv> fill_descriptor base limit access sizebits"
  shows "desc_base d = base \<and> desc_access d = take_bit 8 (access OR ACC_P)
    \<and> desc_limit d = (if limit > 0xfffff then limit OR 0xfff else limit)"
proof -
  define l s where "l = (if limit > 0xfffff then drop_bit 12 limit else limit)"
    and "s = (if limit > 0xfffff then sizebits OR SZ_G else sizebits)"
  have d: "d = fill_descriptor base l access s" unfolding d_def l_def s_def using fill_descriptor_large by simp
  have l: "l \<le> 0xfffff" using limit_small [of limit] by (auto simp: l_def not_less)
  then have "unat l < 2 ^ 20" by (simp add: word_le_nat_alt)
  then have "take_bit 20 (unat l) = unat l" by (rule take_bit_nat_eq_self)
  then have "take_bit 20 l = l" by (simp add: word_unat_eq_iff unsigned_take_bit_eq)
  then have high: "n < 20" if "bit l n" for n using that by (metis bit_take_bit_iff)
  define acc where "acc = access OR ACC_P"
  note bits = bit_fill_descriptor [OF l, of base access s, folded d acc_def]
  have "\<not> bit sizebits 3" using assms(1) and_exp_eq_0_iff_not_bit [of sizebits 3] by (simp add: SZ_G_def)
  then have gran: "desc_granular d \<longleftrightarrow> limit > 0xfffff" by (simp add: desc_granular_def bits s_def bit_SZ_G bit_simps)
  have base: "desc_base d = base"
    by (rule bit_word_eqI) (simp add: bit_desc_base bits)
  have acc: "desc_access d = take_bit 8 (access OR ACC_P)"
    unfolding acc_def [symmetric] by (rule bit_word_eqI) (auto simp: desc_access_def bits bit_take_bit_iff bit_drop_bit_eq bit_ucast_iff)
  have lim: "ucast (take_bit 16 d) OR push_bit 16 (ucast (take_bit 4 (drop_bit 48 d))) = l"
    by (rule bit_word_eqI) (auto simp: bits bit_simps dest: high)
  show ?thesis
  proof (cases "limit > 0xfffff")
    case True
    then have "l = drop_bit 12 limit" by (simp add: l_def)
    then have "push_bit 12 l OR 0xfff = limit OR 0xfff"
      unfolding masks64 by (intro bit_word_eqI) (auto simp: bit_simps)
    then show ?thesis using base acc lim gran True by (simp add: desc_limit_def)
  next
    case False
    then show ?thesis using base acc lim gran by (simp add: desc_limit_def l_def)
  qed
qed

text \<open>the processor reads from a descriptor what was put in: the base address, the access byte with the present
  bit, and as limit the given limit, rounded up to the end of its page where it has more than 20 bits.\<close>

theorem descriptor_round_trip:
  assumes "sizebits AND SZ_G = 0"
  shows "desc_base (fill_descriptor base limit access sizebits) = base
    \<and> desc_access (fill_descriptor base limit access sizebits) = take_bit 8 (access OR ACC_P)
    \<and> desc_limit (fill_descriptor base limit access sizebits) = (if limit > 0xfffff then limit OR 0xfff else limit)"
  using assms by (rule descriptor_reads)

theorem descriptor_round_trip_witness:
  "desc_base (fill_descriptor 0x12345678 0xffffffff 0x1a 4) = 0x12345678
    \<and> desc_limit (fill_descriptor 0x12345678 0xffffffff 0x1a 4) = 0xffffffff"
  using descriptor_round_trip [of 4 "0x12345678" "0xffffffff" "0x1a"] by (simp add: SZ_G_def)

lemma tss_sel_2_tss_base: "tss_sel_2_tss g sel = desc_base (g (unat (drop_bit 3 sel)))"
proof -
  let ?d = "g (unat (drop_bit 3 sel))"
  have "(ucast (drop_bit 16 ?d) AND mask 24) + push_bit 24 (ucast (drop_bit 56 ?d) :: 32 word)
      = (ucast (drop_bit 16 ?d) AND mask 24) OR push_bit 24 (ucast (drop_bit 56 ?d) :: 32 word)"
    by (rule disjunctive_add_eq_or) (auto simp: bit_eq_iff bit_simps)
  also have "\<dots> = desc_base ?d" by (rule bit_word_eqI) (auto simp: desc_base_def bit_simps)
  finally show ?thesis by (simp add: tss_sel_2_tss_def Let_def masks64)
qed

subsection \<open>Exceptions reach their tasks\<close>

text \<open>The selector and the access byte of a gate.\<close>

definition gate_selector :: "64 word \<Rightarrow> 16 word" where
  "gate_selector d = ucast (drop_bit 16 d)"

definition gate_access :: "64 word \<Rightarrow> 8 word" where
  "gate_access d = ucast (drop_bit 40 d)"

lemma bit_fill_gate_low: "bit (((off :: 32 word) AND mask 16) OR push_bit 16 (ucast (sel :: 16 word))) n
    \<longleftrightarrow> n < 32 \<and> (if n < 16 then bit off n else bit sel (n - 16))"
  by (auto simp: bit_simps dest: bit_imp_le_length)

lemma bit_fill_gate_high:
  "bit (((ucast (w :: 8 word) AND (mask 4 :: 32 word)) OR push_bit 8 acc) OR (off AND push_bit 16 (mask 16))) n
    \<longleftrightarrow> n < 32 \<and> (if n < 8 then n < 4 \<and> bit w n else bit acc (n - 8) \<or> (16 \<le> n \<and> bit off n))"
  by (auto simp: bit_simps)

lemma bit_fill_gate:
  "bit (fill_gate off sel acc w) n \<longleftrightarrow> n < 64 \<and>
    (if n < 32 then (if n < 16 then bit off n else bit sel (n - 16))
     else if n < 40 then n < 36 \<and> bit w (n - 32)
     else bit (ucast acc OR ACC_P) (n - 40) \<or> (48 \<le> n \<and> bit off (n - 32)))"
  unfolding fill_gate_def Let_def masks64 bit_halves bit_fill_gate_low bit_fill_gate_high by auto

lemma fill_gate_reads:
  "gate_selector (fill_gate off sel acc w) = sel" "gate_access (fill_gate off sel acc w) = acc OR 0x80"
proof -
  show "gate_selector (fill_gate off sel acc w) = sel"
    by (rule bit_word_eqI) (simp add: gate_selector_def bit_fill_gate bit_ucast_iff bit_drop_bit_eq)
  have p: "bit (ucast acc OR ACC_P) n \<longleftrightarrow> bit (acc OR 0x80) n" if "n < 8" for n
  proof -
    have eq: "ACC_P = 2 ^ 7" "(0x80 :: 8 word) = 2 ^ 7" by (simp_all add: ACC_P_def)
    show ?thesis using that unfolding eq bit_or_iff bit_exp_iff bit_ucast_iff by auto
  qed
  show "gate_access (fill_gate off sel acc w) = acc OR 0x80"
    by (rule bit_word_eqI) (simp add: gate_access_def bit_fill_gate bit_ucast_iff bit_drop_bit_eq p del: bit_or_iff)
qed

lemma setup_idt_loop:
  "fold (\<lambda>i c.
       (let access = ACC_TASK_GATE + (if i = 3 then 0x60 else 0)
        in c\<lparr>trap_tss := (trap_tss c)(i := setup_trap_tss l i (trap_tss c i)),
             idt64 := (idt64 c)(i := fill_gate 0 (of_nat (TRAP_TSS_BASE + 8 * i)) (ucast access) 0)\<rparr>))
       [0..<n] c
    = c\<lparr>trap_tss := (\<lambda>i. if i < n then setup_trap_tss l i (trap_tss c i) else trap_tss c i),
        idt64 := (\<lambda>i. if i < n then fill_gate 0 (of_nat (TRAP_TSS_BASE + 8 * i))
          (ucast (ACC_TASK_GATE + (if i = 3 then 0x60 else 0))) 0 else idt64 c i)\<rparr>"
  by (induction n) (auto simp: Let_def fun_eq_iff less_Suc_eq)

lemma setup_gdt_loop:
  "fold (\<lambda>i g. g(i + b := f i)) [0..<n] g k = (if b \<le> k \<and> k < b + n then f (k - b) else g k)"
  by (induction n) auto

lemma gdt_update: "gdt (c\<lparr>gdt := g\<rparr>) = g"
  by simp

lemma trap_descriptor_set: "i < 32 \<Longrightarrow> gdt (setup_gdt l c) (10 + i) = trap_descriptor l i"
proof -
  assume i: "i < 32"
  have n: "TRAP_TSS_BASE div 8 = 10" "HANDLER_ENTRIES = 32" by (simp_all add: TRAP_TSS_BASE_def HANDLER_ENTRIES_def)
  show ?thesis unfolding setup_gdt_def Let_def gdt_update setup_gdt_loop n using i by simp
qed

lemma setup_keeps:
  "gdt (setup_tss l c) = gdt c" "idt64 (setup_tss l c) = idt64 c" "trap_tss (setup_tss l c) = trap_tss c"
  "gdt (setup_pic c) = gdt c" "idt64 (setup_pic c) = idt64 c" "trap_tss (setup_pic c) = trap_tss c"
  "gdt (setup_idt l c) = gdt c"
proof -
  show "gdt (setup_idt l c) = gdt c" unfolding setup_idt_def setup_idt_loop by simp
qed (simp_all add: setup_tss_def setup_pic_def outb_def Let_def)

text \<open>C21: after \<open>cpu_init\<close> each of the 32 exceptions reaches its own task: its entry in the interrupt table is a
  present task gate, which user code may call for the breakpoint exception only; the selector in the gate leads,
  through the descriptor table, to the task state segment of that exception, and this segment starts the assembly
  handler of that exception on the trap stack in the kernel's address space. Of the assembly function \<open>setup_pgtab\<close>
  it is required that it fills the page table and not these tables.\<close>

theorem exceptions_reach_tasks:
  fixes l :: layout and c0 :: cpu
  assumes "i < 32" "\<And>c. gdt (setup_pgtab c) = gdt c \<and> idt64 (setup_pgtab c) = idt64 c \<and> trap_tss (setup_pgtab c) = trap_tss c"
  defines "c \<equiv> cpu_init l setup_pgtab c0"
  shows "gate_access (idt64 c i) = (if i = 3 then 0xe5 else 0x85)
    \<and> tss_sel_2_tss (gdt c) (gate_selector (idt64 c i)) = trap_tss_addr l + of_nat (104 * i)
    \<and> desc_limit (gdt c (unat (drop_bit 3 (gate_selector (idt64 c i))))) = 103
    \<and> t_eip (trap_tss c i) = exception_handler_tasks l i \<and> t_esp (trap_tss c i) = trap_stack_end l
    \<and> t_cs (trap_tss c i) = KERNEL_CS \<and> t_cr3 (trap_tss c i) = pgdir l"
proof -
  have c: "gdt c = gdt (setup_gdt l c0)" "idt64 c = idt64 (setup_idt l (setup_gdt l c0))"
    "trap_tss c = trap_tss (setup_idt l (setup_gdt l c0))"
    by (simp_all add: c_def cpu_init_def setup_keeps assms(2))
  have idt: "idt64 c i = fill_gate 0 (of_nat (TRAP_TSS_BASE + 8 * i)) (ucast (ACC_TASK_GATE + (if i = 3 then 0x60 else 0))) 0"
    "trap_tss c i = setup_trap_tss l i (trap_tss (setup_gdt l c0) i)"
    unfolding c setup_idt_def setup_idt_loop using assms(1) by (simp_all add: HANDLER_ENTRIES_def)
  have "unat (of_nat (80 + 8 * i) :: 16 word) = 80 + 8 * i"
    using assms(1) by (simp add: unat_of_nat del: of_nat_add of_nat_mult)
  then have "unat (drop_bit 3 (of_nat (TRAP_TSS_BASE + 8 * i) :: 16 word)) = 10 + i"
    by (simp add: unat_drop_bit TRAP_TSS_BASE_def del: of_nat_add of_nat_mult)
  then have sel: "unat (drop_bit 3 (gate_selector (idt64 c i))) = 10 + i" unfolding idt fill_gate_reads .
  have "gdt c (10 + i) = trap_descriptor l i" unfolding c using assms(1) by (rule trap_descriptor_set)
  moreover have "(0 :: 32 word) AND SZ_G = 0" by simp
  note descriptor_reads [OF this]
  ultimately have "tss_sel_2_tss (gdt c) (gate_selector (idt64 c i)) = trap_tss_addr l + of_nat (104 * i)"
    "desc_limit (gdt c (unat (drop_bit 3 (gate_selector (idt64 c i))))) = 103"
    by (simp_all add: tss_sel_2_tss_base sel trap_descriptor_def TSS_SIZE_def)
  moreover have "gate_access (idt64 c i) = (if i = 3 then 0xe5 else 0x85)"
    unfolding idt fill_gate_reads by (simp add: ACC_TASK_GATE_def)
  ultimately show ?thesis unfolding idt(2) by (simp add: setup_trap_tss_def)
qed

theorem exceptions_reach_tasks_witness:
  "\<forall>l c0. gate_access (idt64 (cpu_init l (\<lambda>c. c\<lparr>pgtab := (\<lambda>i. push_bit 12 (of_nat i) OR 7)\<rparr>) c0) 3) = 0xe5"
  using exceptions_reach_tasks [of 3 "\<lambda>c. c\<lparr>pgtab := (\<lambda>i. push_bit 12 (of_nat i) OR 7)\<rparr>"] by simp

end
