(* ===== verification/Boot.thy ===== *)
theory Boot
  imports Kbd Descriptors
begin

unbundle bit_operations_syntax

text \<open>
  Interrupt table and start of the system: \<^verbatim>\<open>kernel/handlers_functions.c\<close> and \<open>kernel_start\<close> of
  \<^verbatim>\<open>kernel/start.c\<close>. A \<open>machine\<close> adds to the system the words of the interrupt table, the mask of the
  interrupt controller and the bytes sent to the ports of the timer. The addresses of the three
  assembly handlers and of \<open>init\<close> are fixed by the linker and given as arguments.
\<close>

subsection \<open>Interrupt handlers\<close>

definition HANDLER_MAP_ADDRESS :: nat where "HANDLER_MAP_ADDRESS = 0x1000"

definition IT_VECTOR_P_VALID :: "32 word" where "IT_VECTOR_P_VALID = push_bit 15 1"

definition IT_VECTOR_DPL_USERMODE :: "32 word" where "IT_VECTOR_DPL_USERMODE = push_bit 13 3"

definition IT_VECTOR_TYPE_INTERRUPT :: "32 word" where "IT_VECTOR_TYPE_INTERRUPT = push_bit 8 14"

lemmas vector_consts = IT_VECTOR_P_VALID_def IT_VECTOR_DPL_USERMODE_def IT_VECTOR_TYPE_INTERRUPT_def

record machine =
  sys :: system
  idt :: "nat \<Rightarrow> 32 word"
  irq_mask :: "8 word"
  timer_ports :: "(nat \<times> nat) list"

definition handler_init :: "nat \<Rightarrow> 32 word \<Rightarrow> 32 word \<Rightarrow> (nat \<Rightarrow> 32 word) \<Rightarrow> nat \<Rightarrow> 32 word" where
  "handler_init N handler options mem =
     (let base_addr = HANDLER_MAP_ADDRESS + 4 * (2 * N)
      in mem(base_addr := push_bit 16 KERNEL_CS OR (handler AND 0x0000FFFF),
             base_addr + 4 := (handler AND 0xFFFF0000) OR (options AND 0x0000FFFF)))"

definition mask_IRQ_channel :: "nat \<Rightarrow> 8 word \<Rightarrow> 8 word" where
  "mask_IRQ_channel N curr_val = curr_val OR push_bit N 1"

definition unmask_IRQ_channel :: "nat \<Rightarrow> 8 word \<Rightarrow> 8 word" where
  "unmask_IRQ_channel N curr_val = curr_val AND NOT (push_bit N 1)"

definition handlers_init :: "32 word \<Rightarrow> 32 word \<Rightarrow> 32 word \<Rightarrow> (nat \<Rightarrow> 32 word) \<Rightarrow> nat \<Rightarrow> 32 word" where
  "handlers_init handler_IT_32 handler_IT_33 handler_IT_49 mem =
     (let mem = handler_init 32 handler_IT_32 (IT_VECTOR_P_VALID OR IT_VECTOR_TYPE_INTERRUPT) mem;
          mem = handler_init 33 handler_IT_33 (IT_VECTOR_P_VALID OR IT_VECTOR_TYPE_INTERRUPT) mem
      in handler_init 49 handler_IT_49
           (IT_VECTOR_P_VALID OR IT_VECTOR_DPL_USERMODE OR IT_VECTOR_TYPE_INTERRUPT) mem)"

text \<open>How the processor reads entry \<open>N\<close>: selector, offset, present bit, privilege level and type of the gate.\<close>

record gate =
  g_selector :: "32 word"
  g_offset :: "32 word"
  g_present :: bool
  g_dpl :: "32 word"
  g_type :: "32 word"

definition gate :: "(nat \<Rightarrow> 32 word) \<Rightarrow> nat \<Rightarrow> gate" where
  "gate mem N =
     (let lo = mem (HANDLER_MAP_ADDRESS + 8 * N); hi = mem (HANDLER_MAP_ADDRESS + 8 * N + 4)
      in \<lparr>g_selector = drop_bit 16 lo, g_offset = (hi AND 0xFFFF0000) OR (lo AND 0xFFFF),
          g_present = bit hi 15, g_dpl = drop_bit 13 hi AND 3, g_type = drop_bit 8 hi AND 0x1F\<rparr>)"

lemma gate_handler_init_other: "M \<noteq> N \<Longrightarrow> gate (handler_init N h opts mem) M = gate mem M"
proof -
  assume "M \<noteq> N"
  then have "HANDLER_MAP_ADDRESS + 8 * M \<noteq> HANDLER_MAP_ADDRESS + 8 * N"
    "HANDLER_MAP_ADDRESS + 8 * M \<noteq> HANDLER_MAP_ADDRESS + 8 * N + 4"
    "HANDLER_MAP_ADDRESS + 8 * M + 4 \<noteq> HANDLER_MAP_ADDRESS + 8 * N" by presburger+
  with \<open>M \<noteq> N\<close> show ?thesis by (simp add: gate_def handler_init_def Let_def)
qed

lemma gate_handler_init:
  "gate (handler_init N h opts mem) N =
     \<lparr>g_selector = KERNEL_CS, g_offset = h, g_present = bit opts 15,
      g_dpl = drop_bit 13 (opts AND 0xFFFF) AND 3, g_type = drop_bit 8 (opts AND 0xFFFF) AND 0x1F\<rparr>"
proof -
  have masks: "(0xFFFF :: 32 word) = mask 16" "(0xFFFF0000 :: 32 word) = push_bit 16 (mask 16)"
    "(3 :: 32 word) = mask 2" "(0x1F :: 32 word) = mask 5"
    by (simp_all add: mask_eq_exp_minus_1 push_bit_eq_mult)
  have "KERNEL_CS = take_bit 16 KERNEL_CS" by (simp add: KERNEL_CS_def)
  then have cs: "bit KERNEL_CS n \<Longrightarrow> n < 16" for n by (metis bit_take_bit_iff)
  show ?thesis
    unfolding gate_def handler_init_def Let_def masks
    by (simp, intro conjI bit_word_eqI) (auto simp: bit_simps dest: cs)
qed

subsection \<open>Start of the system\<close>

text \<open>The format string of the greeting, which holds no conversion.\<close>

definition banner :: "nat list" where
  "banner =
    [12, 32, 32, 32, 95, 95, 95, 95, 95, 32, 32, 32, 32, 32, 32, 95, 95, 32, 32, 32, 32, 95, 95, 32, 32, 32, 32, 32,
     32, 32, 32, 32, 32, 32, 32, 95, 95, 95, 95, 32, 32, 95, 95, 95, 95, 95, 10, 32, 32, 47, 32, 95, 95, 95, 47, 95,
     95, 95, 95, 95, 47, 32, 47, 95, 32, 32, 47, 32, 47, 95, 95, 95, 32, 95, 95, 95, 95, 95, 32, 95, 47, 32, 95, 95,
     32, 92, 47, 32, 95, 95, 95, 47, 10, 32, 32, 92, 95, 95, 32, 92, 47, 32, 95, 95, 95, 47, 32, 95, 95, 32, 92, 47,
     32, 47, 32, 95, 95, 32, 96, 47, 32, 95, 95, 32, 96, 47, 32, 47, 32, 47, 32, 47, 92, 95, 95, 32, 92, 32, 10, 32,
     95, 95, 95, 47, 32, 47, 32, 47, 95, 95, 47, 32, 47, 32, 47, 32, 47, 32, 47, 32, 47, 95, 47, 32, 47, 32, 47, 95,
     47, 32, 47, 32, 47, 95, 47, 32, 47, 95, 95, 95, 47, 32, 47, 32, 10, 47, 95, 95, 95, 95, 47, 92, 95, 95, 95, 47,
     95, 47, 32, 47, 95, 47, 95, 47, 92, 95, 95, 44, 95, 47, 92, 95, 95, 44, 32, 47, 92, 95, 95, 95, 95, 47, 47, 95,
     95, 95, 95, 47, 32, 32, 10, 32, 32, 32, 32, 32, 32, 32, 32, 32, 32, 32, 32, 32, 32, 32, 32, 32, 32, 32, 32, 32,
     32, 32, 32, 47, 95, 95, 95, 95, 47, 10]"

definition c_string :: "nat list \<Rightarrow> nat \<Rightarrow> nat" where
  "c_string cs i = (if i < length cs then cs ! i else 0)"

text \<open>\<open>kernel_start\<close> up to the call of \<open>init\<close>: the frames left on the stack are the end of \<open>start\<close>.\<close>

definition kernel_start :: "32 word \<Rightarrow> 32 word \<Rightarrow> 32 word \<Rightarrow> int \<Rightarrow> machine \<Rightarrow> machine option" where
  "kernel_start handler_IT_32 handler_IT_33 handler_IT_49 init m = do {
     let k = kern (sys m);
     let k = k\<lparr>ptable := process_table_init (ptable k)\<rparr>;
     let k = k\<lparr>mqt := message_queues_init (mqt k)\<rparr>;
     s \<leftarrow> stdin_init ((sys m)\<lparr>kern := k\<rparr>);
     let m = m\<lparr>timer_ports := timer_ports m @ clock_init\<rparr>;
     let m = m\<lparr>idt := handlers_init handler_IT_32 handler_IT_33 handler_IT_49 (idt m)\<rparr>;
     let m = m\<lparr>irq_mask := unmask_IRQ_channel 1 (unmask_IRQ_channel 0 (irq_mask m))\<rparr>;
     (_, con) \<leftarrow> printf banner [] (kconsole (kern s));
     k \<leftarrow> start init 8192 1 (c_string (ascii ''init'')) 0 ((kern s)\<lparr>kconsole := con\<rparr>);
     Some (m\<lparr>sys := s\<lparr>kern := k\<rparr>\<rparr>)
   }"

text \<open>\<open>init\<close> up to its idle loop; \<open>sti\<close> only allows interrupts.\<close>

definition init_process :: "int \<Rightarrow> machine \<Rightarrow> machine option" where
  "init_process user_start m = do {
     k \<leftarrow> start user_start 4000 2 (c_string (ascii ''user'')) 0 (kern (sys m));
     Some (m\<lparr>sys := (sys m)\<lparr>kern := k\<rparr>\<rparr>)
   }"

lemma doprnt_text: "\<forall>c\<in>set fmt. c \<noteq> 37 \<Longrightarrow> doprnt fmt args radix = Some fmt"
  by (induction fmt) auto

lemma banner_shown:
  assumes "console_ok con"
  obtains con' where "printf banner [] con = Some (0, con')" "console_ok con'"
proof -
  have "doprnt banner [] 0 = Some banner" by (rule doprnt_text) (simp add: banner_def)
  then show ?thesis using that console_putbytes_ok [OF assms, of banner] by (auto simp: printf_def vprintf_eq)
qed

lemma pcreate_answers: "pcreate n t h = Some (fid, t', h') \<Longrightarrow> answers h' = answers h"
  by (auto simp: pcreate_def heap_alloc_def Let_def split: bind_splits if_splits prod.splits)

text \<open>\<open>start\<close> when nothing runs yet: process 1 is created and will be chosen.\<close>

lemma start_first:
  assumes "ptable k = process_table_init t" "process_queue k = []" "answers (kheap k) (calls (kheap k)) \<noteq> 0" "kstack k = []"
  obtains k1 where "start program 8192 1 name 0 k = Some (push (schedule @ [Start_return 0]) k1)"
    "running_process (ptable k1) = None" "process_queue k1 = [0]" "p_pid (proc k1 0) = 1" "p_state (proc k1 0) = WAITING"
    "prio k1 0 = 1" "father_pid (proc k1 0) = PROCESS_NOT_FOUND_CODE" "current_size (ptable k1) = 1" "kstack k1 = []"
    "kernel_stack (proc k1 0) \<noteq> 0" "mqt k1 = mqt k" "kconsole k1 = kconsole k" "nb_to_zombify (ptable k1) = 0"
    "nb_to_destroy (ptable k1) = 0"
proof -
  define t1 where "t1 = (process_table_init t)\<lparr>pids_release_index := 0, pids_consume_index := 1, current_size := 1\<rparr>"
  have reg: "process_table_register (ptable k) = Some (1, t1)"
    unfolding assms(1)
    by (simp add: process_table_register_def process_table_init_def t1_def PROCESS_TABLE_MAX_SIZE_def
        INDEXES_LOCK_VALUE_def u32_inc_def Let_def)
  define k2 where "k2 = start_fields 0 1 1 name (k\<lparr>ptable := t1\<rparr>)"
  define k3 where "k3 = update_proc 0 (\<lambda>q. q\<lparr>kernel_stack := answers (kheap k) (calls (kheap k))\<rparr>)
    (k2\<lparr>kheap := (kheap k)\<lparr>calls := Suc (calls (kheap k))\<rparr>\<rparr>)"
  define k4 where "k4 = start_init_stack 0 program 0 k3"
  have none: "running_process t1 = None" by (simp add: t1_def process_table_init_def)
  have k3: "father_pid (proc k3 0) = PROCESS_NOT_FOUND_CODE" "p_pid (proc k3 0) = 1" "prio k3 0 = 1"
    "process_queue k3 = []" "running_process (ptable k3) = None" "kernel_stack (proc k3 0) \<noteq> 0" "kstack k3 = []"
    "mqt k3 = mqt k" "kconsole k3 = kconsole k" "current_size (ptable k3) = 1" "nb_to_zombify (ptable k3) = 0"
    "nb_to_destroy (ptable k3) = 0"
    using assms(2-4) none
    by (simp_all add: k3_def k2_def start_fields_def getpid_def update_proc_def)
       (simp_all add: t1_def process_table_init_def)
  have heap: "kheap k2 = kheap k" "process_queue k2 = process_queue k"
    by (simp_all add: k2_def start_fields_def update_proc_def)
  have k4: "father_pid (proc k4 0) = PROCESS_NOT_FOUND_CODE" "p_pid (proc k4 0) = 1" "prio k4 0 = 1"
    "process_queue k4 = []" "running_process (ptable k4) = None" "kernel_stack (proc k4 0) \<noteq> 0" "kstack k4 = []"
    "mqt k4 = mqt k" "kconsole k4 = kconsole k" "current_size (ptable k4) = 1" "nb_to_zombify (ptable k4) = 0"
    "nb_to_destroy (ptable k4) = 0"
    using k3 by (simp_all add: k4_def start_init_stack_def set_context_def set_word_def update_proc_def Let_def)
  have "start program 8192 1 name 0 k = start_ready 0 1 k4"
    using reg assms k3(1-4) heap
    by (simp add: start_def PROCESS_MIN_PRIORITY_def PROCESS_MAX_PRIORITY_def USER_ADDITIONNAL_STACK_SIZE_def
        STACK_PARAMETER_SIZE_def heap_alloc_def get_process_def PROCESS_TABLE_MAX_SIZE_def process_table_init_def
        k2_def [symmetric] k3_def [symmetric] k4_def Let_def)
  also have "\<dots> = Some (push (schedule @ [Start_return 0])
      ((set_state 0 WAITING (k4\<lparr>kstacks := (kstacks k4)(0 := [])\<rparr>))\<lparr>process_queue := [0]\<rparr>))"
    using k4 by (simp add: start_ready_def kqueue_add_def queue_add_def Let_def)
  finally show ?thesis using that k4 by (simp add: set_state_def update_proc_def)
qed

lemma first_schedule:
  assumes "running_process (ptable k) = None" "process_queue k = [0]" "kstack k = []" "nb_to_zombify (ptable k) = 0"
    "nb_to_destroy (ptable k) = 0"
  shows "krun 4 (push (schedule @ [Start_return 0]) k) = Some ((set_state 0 RUNNING (k\<lparr>process_queue := []\<rparr>))
    \<lparr>ptable := (ptable (set_state 0 RUNNING (k\<lparr>process_queue := []\<rparr>)))\<lparr>running_process := Some 0\<rparr>,
     kstacks := (kstacks k)(0 := []), eax := p_pid (proc k 0)\<rparr>)"
  using assms
  by (simp add: eval_nat_numeral kdone_def kstep_def push_def clean_zombify_def clean_destroy_def schedule_pick_def
      queue_top_def queue_out_def context_switch_def set_state_def update_proc_def Let_def)

lemma stdin_init_opens:
  assumes "stdin_fid s = -1" "\<forall>n. answers (kheap (kern s)) n \<noteq> 0" "mqt (kern s) = message_queues_init t"
  obtains fid t' h where
    "stdin_init s = Some (s\<lparr>kern := (kern s)\<lparr>mqt := t', kheap := h\<rparr>, stdin_fid := fid, echo_enabled := True\<rparr>)"
    "mqt_inv t'" "valid_fid fid t'" "messages (mq_data t' (nat fid)) = []" "mq_size (mq_data t' (nat fid)) = 512"
    "answers h = answers (kheap (kern s))"
proof -
  have "mqt_inv (mqt (kern s))" "mq_current_size (mqt (kern s)) < NBQUEUE"
    using mqt_inv_init [of t] assms(3) by (simp_all add: message_queues_init_def NBQUEUE_def)
  moreover have "1 \<le> KEY_BUFFER_SIZE" "KEY_BUFFER_SIZE \<le> MESSAGE_QUEUE_BUFFER_MAX_SIZE"
    by (simp_all add: KEY_BUFFER_SIZE_def MESSAGE_QUEUE_BUFFER_MAX_SIZE_def)
  ultimately obtain fid t' h where r: "pcreate KEY_BUFFER_SIZE (mqt (kern s)) (kheap (kern s)) = Some (fid, t', h)"
    "mqt_inv t'" "0 \<le> fid" "valid_fid fid t'" "messages (mq_data t' (nat fid)) = []"
    "int (mq_size (mq_data t' (nat fid))) = KEY_BUFFER_SIZE"
    using pcreate_ok [of "mqt (kern s)" KEY_BUFFER_SIZE "kheap (kern s)"] assms(2) by metis
  then show ?thesis using that assms(1) pcreate_answers [OF r(1)] by (simp add: stdin_init_def KEY_BUFFER_SIZE_def)
qed

text \<open>C20: with allocators that do not fail, \<open>kernel_start\<close> runs to its end from the state left by the boot loader,
  whatever the tables held: process 1 is created, chosen and running with nothing else ready; \<open>stdin\<close> is an
  open empty queue of 512 characters with echo on; the gates 32, 33 and 49 of the interrupt table lead to the
  three handlers in the kernel code segment as interrupt gates, with the system call gate open to user
  mode; and exactly the timer and keyboard interrupts have been unmasked.\<close>

theorem kernel_boots:
  assumes "process_queue (kern (sys m)) = []" "kstack (kern (sys m)) = []" "\<forall>n. answers (kheap (kern (sys m))) n \<noteq> 0"
    and "stdin_fid (sys m) = -1" "console_ok (kconsole (kern (sys m)))"
  shows "\<exists>m' k. kernel_start h32 h33 h49 init m = Some m' \<and> krun 4 (kern (sys m')) = Some k
    \<and> kstack k = [] \<and> eax k = 1 \<and> running_process (ptable k) = Some 0 \<and> p_pid (proc k 0) = 1
    \<and> p_state (proc k 0) = RUNNING \<and> process_queue k = [] \<and> mqt_inv (mqt k)
    \<and> valid_fid (stdin_fid (sys m')) (mqt k) \<and> messages (the_mq (stdin_fid (sys m')) k) = []
    \<and> mq_size (the_mq (stdin_fid (sys m')) k) = 512 \<and> echo_enabled (sys m')
    \<and> gate (idt m') 32 = \<lparr>g_selector = KERNEL_CS, g_offset = h32, g_present = True, g_dpl = 0, g_type = 14\<rparr>
    \<and> gate (idt m') 33 = \<lparr>g_selector = KERNEL_CS, g_offset = h33, g_present = True, g_dpl = 0, g_type = 14\<rparr>
    \<and> gate (idt m') 49 = \<lparr>g_selector = KERNEL_CS, g_offset = h49, g_present = True, g_dpl = 3, g_type = 14\<rparr>
    \<and> (\<forall>i. bit (irq_mask m') i \<longleftrightarrow> bit (irq_mask m) i \<and> i \<noteq> 0 \<and> i \<noteq> 1)"
proof -
  define k0 where "k0 = (kern (sys m))\<lparr>ptable := process_table_init (ptable (kern (sys m))),
    mqt := message_queues_init (mqt (kern (sys m)))\<rparr>"
  define s0 where "s0 = (sys m)\<lparr>kern := k0\<rparr>"
  obtain fid t' h where st: "stdin_init s0
      = Some (s0\<lparr>kern := k0\<lparr>mqt := t', kheap := h\<rparr>, stdin_fid := fid, echo_enabled := True\<rparr>)"
    "mqt_inv t'" "valid_fid fid t'" "messages (mq_data t' (nat fid)) = []" "mq_size (mq_data t' (nat fid)) = 512"
    "answers h = answers (kheap (kern (sys m)))"
    by (rule stdin_init_opens [of s0 "mqt (kern (sys m))"]) (use assms(3,4) in \<open>simp_all add: s0_def k0_def\<close>)
  obtain con where con: "printf banner [] (kconsole (kern (sys m))) = Some (0, con)" "console_ok con"
    using banner_shown [OF assms(5)] .
  let ?k = "k0\<lparr>mqt := t', kheap := h, kconsole := con\<rparr>"
  obtain k1 where k1: "start init 8192 1 (c_string (ascii ''init'')) 0 ?k = Some (push (schedule @ [Start_return 0]) k1)"
    "running_process (ptable k1) = None" "process_queue k1 = [0]" "p_pid (proc k1 0) = 1" "kstack k1 = []"
    "mqt k1 = t'" "nb_to_zombify (ptable k1) = 0" "nb_to_destroy (ptable k1) = 0"
    by (rule start_first [of ?k "ptable (kern (sys m))" init "c_string (ascii ''init'')"])
       (use assms(1-3) st(6) in \<open>simp_all add: k0_def\<close>)
  define m' where "m' = m\<lparr>timer_ports := timer_ports m @ clock_init, idt := handlers_init h32 h33 h49 (idt m),
    irq_mask := unmask_IRQ_channel 1 (unmask_IRQ_channel 0 (irq_mask m)),
    sys := s0\<lparr>kern := push (schedule @ [Start_return 0]) k1, stdin_fid := fid, echo_enabled := True\<rparr>\<rparr>"
  have start: "kernel_start h32 h33 h49 init m = Some m'"
    using st(1) con(1) k1(1) by (simp add: kernel_start_def m'_def s0_def k0_def Let_def)
  define k where "k = (set_state 0 RUNNING (k1\<lparr>process_queue := []\<rparr>))
    \<lparr>ptable := (ptable (set_state 0 RUNNING (k1\<lparr>process_queue := []\<rparr>)))\<lparr>running_process := Some 0\<rparr>,
     kstacks := (kstacks k1)(0 := []), eax := p_pid (proc k1 0)\<rparr>"
  have run: "krun 4 (kern (sys m')) = Some k"
    using first_schedule [OF k1(2,3,5,7,8)] by (simp add: m'_def k_def)
  have k: "kstack k = []" "eax k = 1" "running_process (ptable k) = Some 0" "p_pid (proc k 0) = 1"
    "p_state (proc k 0) = RUNNING" "process_queue k = []" "mqt k = t'"
    using k1(4-6) by (simp_all add: k_def set_state_def update_proc_def)
  have gates: "gate (idt m') 32 = \<lparr>g_selector = KERNEL_CS, g_offset = h32, g_present = True, g_dpl = 0, g_type = 14\<rparr>"
    "gate (idt m') 33 = \<lparr>g_selector = KERNEL_CS, g_offset = h33, g_present = True, g_dpl = 0, g_type = 14\<rparr>"
    "gate (idt m') 49 = \<lparr>g_selector = KERNEL_CS, g_offset = h49, g_present = True, g_dpl = 3, g_type = 14\<rparr>"
    by (simp_all add: m'_def handlers_init_def gate_handler_init gate_handler_init_other Let_def vector_consts)
  have irq: "bit (irq_mask m') i \<longleftrightarrow> bit (irq_mask m) i \<and> i \<noteq> 0 \<and> i \<noteq> 1" for i
    by (auto simp: m'_def unmask_IRQ_channel_def bit_simps dest: bit_imp_le_length)
  show ?thesis
    using start run gates irq st(2-5) k by (intro exI [of _ m'] exI [of _ k]) (simp add: the_mq_def, simp add: m'_def)
qed

definition blank_machine :: machine where
  "blank_machine = \<lparr>sys = (tty_system 0)\<lparr>kern := boot_kernel, stdin_fid := -1\<rparr>, idt = (\<lambda>_. 0), irq_mask = -1, timer_ports = []\<rparr>"

theorem kernel_boots_witness:
  "\<exists>m' k. kernel_start 0x101000 0x101040 0x101080 0x102000 blank_machine = Some m' \<and> krun 4 (kern (sys m')) = Some k
    \<and> running_process (ptable k) = Some 0 \<and> g_offset (gate (idt m') 49) = 0x101080 \<and> \<not> bit (irq_mask m') 1"
proof -
  have "process_queue (kern (sys blank_machine)) = []" "kstack (kern (sys blank_machine)) = []"
    "\<forall>n. answers (kheap (kern (sys blank_machine))) n \<noteq> 0" "stdin_fid (sys blank_machine) = -1"
    "console_ok (kconsole (kern (sys blank_machine)))"
    by (simp_all add: blank_machine_def boot_kernel_def ample_heap_def console_ok_initial)
  from kernel_boots [OF this, of "0x101000" "0x101040" "0x101080" "0x102000"] show ?thesis by auto
qed

end
