(* ===== verification/Ipc_Invariant.thy ===== *)
theory Ipc_Invariant
  imports Ipc
begin

text \<open>
  The invariant that the message queues and the process table keep together, and that every call of
  \<^verbatim>\<open>kernel/message_queue.c\<close> and the scheduler preserve it: the queue table is well formed, the ready queue is
  sorted and holds the ready processes, a process blocked on a message is entered in the list of
  exactly one queue at most once, and no entry names a process that runs or is ready. In such a state no call
  fails an assertion.
\<close>

subsection \<open>The invariant\<close>

definition blocked_pids :: "kernel \<Rightarrow> nat \<Rightarrow> int list" where
  "blocked_pids k i = map c_pid (mq_nodes (mq_data (mqt k) i))"

definition blocked_ok :: "kernel \<Rightarrow> bool" where
  "blocked_ok k \<longleftrightarrow> (\<forall>i<NBQUEUE. distinct (blocked_pids k i)
     \<and> (\<forall>p\<in>set (blocked_pids k i). \<exists>s. get_process p = Some s \<and> p_pid (proc k s) = p
          \<and> p_state (proc k s) = BLOCKED_BY_MESSAGE)
     \<and> (\<forall>j<NBQUEUE. i \<noteq> j \<longrightarrow> set (blocked_pids k i) \<inter> set (blocked_pids k j) = {}))"

definition ipc_inv :: "kernel \<Rightarrow> bool" where
  "ipc_inv k \<longleftrightarrow> sched_inv k \<and> mqt_inv (mqt k) \<and> blocked_ok k"

text \<open>The calls.\<close>

datatype ipc_call = Psend int int | Preceive int nat | Preset int | Pdelete int | Pcount int nat | Pcreate int

fun run_ipc :: "ipc_call \<Rightarrow> kernel \<Rightarrow> kernel option" where
  "run_ipc (Psend fid m) k = psend fid m k"
| "run_ipc (Preceive fid a) k = preceive fid a k"
| "run_ipc (Preset fid) k = preset fid k"
| "run_ipc (Pdelete fid) k = pdelete fid k"
| "run_ipc (Pcount fid a) k = pcount fid a k"
| "run_ipc (Pcreate n) k = pcreate_call n k"

subsection \<open>What the calls leave alone\<close>

text \<open>A call on queue \<open>fid\<close> changes the entry of this queue only and keeps its buffer, the identifiers and priorities of
  the processes.\<close>

definition ipc_frame :: "int \<Rightarrow> kernel \<Rightarrow> kernel \<Rightarrow> bool" where
  "ipc_frame fid k k' \<longleftrightarrow> free_fids (mqt k') = free_fids (mqt k) \<and> fids_ok (mqt k') = fids_ok (mqt k)
     \<and> (\<forall>i. i \<noteq> nat fid \<longrightarrow> mq_data (mqt k') i = mq_data (mqt k) i)
     \<and> buffer (the_mq fid k') = buffer (the_mq fid k) \<and> running_process (ptable k') = running_process (ptable k)
     \<and> (\<forall>s. p_pid (proc k' s) = p_pid (proc k s) \<and> prio k' s = prio k s)"

lemma free_fids_reset [simp]:
  "free_fids (t\<lparr>reset_releases := r\<rparr>) = free_fids t" "fids_ok (t\<lparr>reset_releases := r\<rparr>) = fids_ok t"
  by (simp_all add: free_fids_def fids_ok_def)

lemma ipc_frame_refl: "ipc_frame fid k (push fs k)"
  by (simp add: ipc_frame_def)

lemma awake_frame:
  assumes "awake p k = Some (a, k')"
  shows "mqt k' = mqt k" "the_mq fid k' = the_mq fid k" "p_pid (proc k' s) = p_pid (proc k s)" "prio k' s = prio k s"
    "running_process (ptable k') = running_process (ptable k)"
  using assms by (auto simp: awake_def kqueue_add_eq split: bind_splits if_splits)

lemma block_on_queue_frame:
  "block_on_queue fid lp m a k = Some k' \<Longrightarrow> ipc_frame fid k k'"
  unfolding block_on_queue_def block_by_message_def kqueue_del_def ipc_frame_def
  by (auto simp: Let_def set_mq_def the_mq_def split: bind_splits if_splits)

lemma psend_frame: "psend fid m k = Some k' \<Longrightarrow> ipc_frame fid k k'"
  unfolding psend_def
  by (auto simp: Let_def ipc_frame_refl split: bind_splits if_splits
      dest!: block_on_queue_frame register_frame)
    (auto simp: ipc_frame_def awake_frame set_mq_def the_mq_def)

lemma preceive_frame: "preceive fid a k = Some k' \<Longrightarrow> ipc_frame fid k k'"
  unfolding preceive_def
  by (auto simp: Let_def ipc_frame_refl split: bind_splits if_splits
      dest!: block_on_queue_frame register_frame unregister_frame)
    (auto simp: ipc_frame_def awake_frame set_mq_def the_mq_def)

lemma mqt_inv_frame:
  assumes "mqt_inv (mqt k)" "ipc_frame fid k k'" "mq_inv (the_mq fid k')"
  shows "mqt_inv (mqt k')"
proof -
  have "mq_inv (mq_data (mqt k') i) \<and> buffer (mq_data (mqt k') i) = buffer (mq_data (mqt k) i)" if "i < NBQUEUE" for i
    using assms that by (cases "i = nat fid") (auto simp: mqt_inv_def ipc_frame_def the_mq_def)
  then show ?thesis using assms(1,2) by (auto simp: mqt_inv_def ipc_frame_def)
qed

subsection \<open>Waking blocked processes\<close>

lemma sched_inv_ready:
  assumes "sched_inv k" "running_process (ptable k) = Some r" "running_process (ptable k') = Some r"
    and "distinct ss" "set ss \<inter> set (process_queue k) = {}" "r \<notin> set ss"
    and "\<And>s. s \<in> set ss \<Longrightarrow> s < PROCESS_TABLE_MAX_SIZE \<and> p_pid (proc k s) = int s + 1 \<and> p_state (proc k' s) = WAITING"
    and "\<And>s. s \<notin> set ss \<Longrightarrow> p_state (proc k' s) = p_state (proc k s)"
    and "\<And>s. p_pid (proc k' s) = p_pid (proc k s)" "\<And>s. prio k' s = prio k s"
    and "process_queue k' = fold (queue_insert (prio k)) ss (process_queue k)"
  shows "sched_inv k'"
proof -
  have m: "mset (process_queue k') = mset ss + mset (process_queue k)" "prio_sorted (prio k) (process_queue k')"
    using assms(1,11) fold_queue_insert_props(1,2) [of "prio k" "process_queue k" ss] by (auto simp: sched_inv_def)
  then have "set (process_queue k') = set ss \<union> set (process_queue k)"
    by (metis set_mset_mset set_mset_union)
  moreover have "distinct (process_queue k')"
    using m(1) assms(1,4,5) by (metis distinct_append mset_append mset_eq_imp_distinct_iff sched_inv_def)
  moreover have "s < PROCESS_TABLE_MAX_SIZE \<and> p_pid (proc k' s) = int s + 1 \<and> p_state (proc k' s) = WAITING"
    if "s \<in> set ss \<union> set (process_queue k)" for s
    using that assms(1) assms(7) [of s] assms(8) [of s] assms(9) [of s] by (cases "s \<in> set ss") (auto simp: sched_inv_def)
  moreover have "r < PROCESS_TABLE_MAX_SIZE" "p_pid (proc k' r) = int r + 1" "r \<notin> set (process_queue k)"
    using assms(1,2) assms(9) [of r] by (auto simp: sched_inv_def)
  moreover have "prio_sorted (prio k') (process_queue k')" 
    using m(2) prio_sorted_cong [of "process_queue k'" "prio k'" "prio k"] assms(10) by blast
  ultimately show ?thesis using assms(3,6) unfolding sched_inv_def by simp
qed

lemma blocked_okD:
  assumes "blocked_ok k" "i < NBQUEUE" "p \<in> set (blocked_pids k i)"
  obtains s where "get_process p = Some s" "s < PROCESS_TABLE_MAX_SIZE" "p = int s + 1"
    "p_pid (proc k s) = int s + 1" "p_state (proc k s) = BLOCKED_BY_MESSAGE"
  using assms by (fastforce simp: blocked_ok_def get_process_Some)

text \<open>After a call on queue \<open>fid\<close> the entries are still sound when those that have left are the woken processes.\<close>

lemma blocked_ok_wake:
  assumes "blocked_ok k" "ipc_frame fid k k'" "nat fid < NBQUEUE"
    and "blocked_pids k (nat fid) = map (\<lambda>s. int s + 1) ss @ ps" "blocked_pids k' (nat fid) = ps"
    and "\<And>s. s \<notin> set ss \<Longrightarrow> p_state (proc k' s) = p_state (proc k s)"
  shows "blocked_ok k'"
proof -
  have same: "blocked_pids k' i = blocked_pids k i" if "i \<noteq> nat fid" for i
    using assms(2) that by (simp add: blocked_pids_def ipc_frame_def)
  have woken: "int s + 1 \<notin> set (blocked_pids k' i)" if "s \<in> set ss" "i < NBQUEUE" for s i
  proof (cases "i = nat fid")
    case True
    have "distinct (map (\<lambda>s. int s + 1) ss @ ps)"
      using assms(1,3) unfolding blocked_ok_def assms(4) [symmetric] by blast
    then show ?thesis using that(1) assms(5) True by auto
  next
    case False
    have "int s + 1 \<in> set (blocked_pids k (nat fid))" using that(1) assms(4) by simp
    moreover have "set (blocked_pids k (nat fid)) \<inter> set (blocked_pids k i) = {}"
      using assms(1,3) that(2) False by (simp add: blocked_ok_def)
    ultimately show ?thesis unfolding same [OF False] by blast
  qed
  have sub: "set (blocked_pids k' i) \<subseteq> set (blocked_pids k i)" "distinct (blocked_pids k' i)" if "i < NBQUEUE" for i
  proof -
    have "distinct (blocked_pids k i)" using assms(1) that by (simp add: blocked_ok_def)
    then have "set (blocked_pids k' i) \<subseteq> set (blocked_pids k i) \<and> distinct (blocked_pids k' i)"
      using assms(4,5) same [of i] by (cases "i = nat fid") auto
    then show "set (blocked_pids k' i) \<subseteq> set (blocked_pids k i)" "distinct (blocked_pids k' i)" by blast+
  qed
  have pid: "p_pid (proc k' s) = p_pid (proc k s)" for s using assms(2) by (simp add: ipc_frame_def)
  have "\<exists>s. get_process p = Some s \<and> p_pid (proc k' s) = p \<and> p_state (proc k' s) = BLOCKED_BY_MESSAGE"
    if i: "i < NBQUEUE" and p: "p \<in> set (blocked_pids k' i)" for i p
  proof -
    have "p \<in> set (blocked_pids k i)" using sub(1) [OF i] p by blast
    then obtain s where s: "get_process p = Some s" "p = int s + 1" "p_pid (proc k s) = int s + 1"
      "p_state (proc k s) = BLOCKED_BY_MESSAGE"
      by (rule blocked_okD [OF assms(1) i])
    then have "s \<notin> set ss" using woken i p by blast
    then show ?thesis using s assms(6) pid by auto
  qed
  moreover have "set (blocked_pids k' i) \<inter> set (blocked_pids k' j) = {}" if "i < NBQUEUE" "j < NBQUEUE" "i \<noteq> j" for i j
    using that sub(1) [of i] sub(1) [of j] assms(1) unfolding blocked_ok_def by blast
  ultimately show ?thesis using sub(2) unfolding blocked_ok_def by blast
qed

text \<open>The state in which a call starts, with the processes blocked on its queue.\<close>

lemma blocked_slots:
  assumes "ipc_inv k" "valid_fid fid (mqt k)" "running_process (ptable k) = Some r" "p_state (proc k r) = RUNNING"
  obtains ss where "blocked_pids k (nat fid) = map (\<lambda>s. int s + 1) ss" "distinct ss"
    "map (\<lambda>c. get_process (c_pid c)) (mq_nodes (the_mq fid k)) = map Some ss"
    "set ss \<inter> set (process_queue k) = {}" "r \<notin> set ss" "length ss < PROCESS_TABLE_MAX_SIZE"
    "\<And>s. s \<in> set ss \<Longrightarrow> s < PROCESS_TABLE_MAX_SIZE \<and> p_pid (proc k s) = int s + 1"
proof -
  let ?ps = "blocked_pids k (nat fid)"
  define ss where "ss = map (\<lambda>p. nat (p - 1)) ?ps"
  have fid: "nat fid < NBQUEUE" using assms(2) by (auto simp: valid_fid_def)
  have b: "blocked_ok k" and sched: "sched_inv k" using assms(1) by (simp_all add: ipc_inv_def)
  have each: "\<exists>s. p = int s + 1 \<and> s < PROCESS_TABLE_MAX_SIZE \<and> p_pid (proc k s) = int s + 1
      \<and> p_state (proc k s) = BLOCKED_BY_MESSAGE" if "p \<in> set ?ps" for p
    using blocked_okD [OF b fid that] by blast
  have ps: "?ps = map (\<lambda>s. int s + 1) ss"
    unfolding ss_def map_map by (rule sym, rule map_idI) (use each in fastforce)
  have d: "distinct ss" using b fid ps by (metis blocked_ok_def distinct_map)
  have slot: "s < PROCESS_TABLE_MAX_SIZE \<and> p_pid (proc k s) = int s + 1 \<and> p_state (proc k s) = BLOCKED_BY_MESSAGE"
    if "s \<in> set ss" for s
    using each [of "int s + 1"] that ps by auto
  have "map c_pid (mq_nodes (the_mq fid k)) = map (\<lambda>s. int s + 1) ss" using ps by (simp add: blocked_pids_def the_mq_def)
  then have "map get_process (map c_pid (mq_nodes (the_mq fid k))) = map get_process (map (\<lambda>s. int s + 1) ss)" by simp
  then have g: "map (\<lambda>c. get_process (c_pid c)) (mq_nodes (the_mq fid k)) = map Some ss"
    using slot by (simp add: comp_def get_process_Some cong: map_cong)
  have r: "r \<notin> set ss" using slot assms(4) by fastforce
  have rr: "r < PROCESS_TABLE_MAX_SIZE" using sched assms(3) by (simp add: sched_inv_def)
  have "card (insert r (set ss)) \<le> card {..<PROCESS_TABLE_MAX_SIZE}" using slot rr by (intro card_mono) auto
  then have "length ss < PROCESS_TABLE_MAX_SIZE" using r d by (simp add: distinct_card)
  moreover have "set ss \<inter> set (process_queue k) = {}" using slot sched by (fastforce simp: sched_inv_def)
  ultimately show ?thesis using that ps d g r slot by blast
qed

lemma ipc_inv_open:
  assumes "ipc_inv k" "valid_fid fid (mqt k)"
  shows "nat fid < NBQUEUE" "mq_inv (the_mq fid k)"
  using assms by (auto simp: ipc_inv_def mqt_inv_def valid_fid_def the_mq_def)

text \<open>A call that wakes the processes \<open>ss\<close>, the first ones blocked on the queue, keeps the invariant.\<close>

lemma ipc_inv_wake:
  assumes "ipc_inv k" "valid_fid fid (mqt k)" "running_process (ptable k) = Some r" "running_process (ptable k') = Some r"
    and "ipc_frame fid k k'" "mq_inv (the_mq fid k')"
    and "blocked_pids k (nat fid) = map (\<lambda>s. int s + 1) ss @ ps" "blocked_pids k' (nat fid) = ps"
    and "distinct ss" "set ss \<inter> set (process_queue k) = {}" "r \<notin> set ss"
    and "\<And>s. s \<in> set ss \<Longrightarrow> s < PROCESS_TABLE_MAX_SIZE \<and> p_pid (proc k s) = int s + 1 \<and> p_state (proc k' s) = WAITING"
    and "\<And>s. s \<notin> set ss \<Longrightarrow> p_state (proc k' s) = p_state (proc k s)"
    and "process_queue k' = fold (queue_insert (prio k)) ss (process_queue k)"
  shows "ipc_inv k'"
proof -
  have inv: "sched_inv k" "mqt_inv (mqt k)" "blocked_ok k" using assms(1) by (simp_all add: ipc_inv_def)
  have "p_pid (proc k' s) = p_pid (proc k s)" "prio k' s = prio k s" for s using assms(5) by (simp_all add: ipc_frame_def)
  then have "sched_inv k'" using sched_inv_ready [OF inv(1) assms(3,4,9-13) _ _ assms(14)] by blast
  moreover have "mqt_inv (mqt k')" by (rule mqt_inv_frame [OF inv(2) assms(5,6)])
  moreover have "blocked_ok k'"
    by (rule blocked_ok_wake [OF inv(3) assms(5) _ assms(7,8,13)]) (use ipc_inv_open [OF assms(1,2)] in simp)
  ultimately show ?thesis by (simp add: ipc_inv_def)
qed

subsection \<open>The calls keep the invariant\<close>

lemma ipc_inv_push [simp]: "ipc_inv (push fs k) = ipc_inv k"
  by (simp add: ipc_inv_def sched_inv_def blocked_ok_def blocked_pids_def)

lemma ipc_frame_push [simp]: "ipc_frame fid k (push fs k') = ipc_frame fid k k'"
  by (simp add: ipc_frame_def)

lemma blocked_pids_the_mq: "blocked_pids k (nat fid) = map c_pid (mq_nodes (the_mq fid k))"
  by (simp add: blocked_pids_def the_mq_def)

lemma ipc_inv_set_mq:
  assumes "ipc_inv k" "valid_fid fid (mqt k)" "running_process (ptable k) = Some r" "running_process (ptable k') = Some r"
    and "ipc_frame fid k k'" "mq_inv (the_mq fid k')" "mq_nodes (the_mq fid k') = mq_nodes (the_mq fid k)"
    and "process_queue k' = process_queue k" "\<And>s. p_state (proc k' s) = p_state (proc k s)"
  shows "ipc_inv k'"
  by (rule ipc_inv_wake [OF assms(1-6), of "[]"]) (simp_all add: assms(7-9) blocked_pids_the_mq)

lemma ipc_inv_wake_first:
  assumes "ipc_inv k" "valid_fid fid (mqt k)" "running_process (ptable k) = Some r" "p_state (proc k r) = RUNNING"
    and "mq_nodes (the_mq fid k) = c # cs"
  obtains s where "get_process (c_pid c) = Some s" "s \<notin> set (process_queue k)" "r \<noteq> s"
    "\<And>k'. running_process (ptable k') = Some r \<Longrightarrow> ipc_frame fid k k' \<Longrightarrow> mq_inv (the_mq fid k') \<Longrightarrow>
       mq_nodes (the_mq fid k') = cs \<Longrightarrow> p_state (proc k' s) = WAITING \<Longrightarrow>
       (\<And>s'. s' \<noteq> s \<Longrightarrow> proc k' s' = proc k s') \<Longrightarrow>
       process_queue k' = queue_insert (prio k) s (process_queue k) \<Longrightarrow> ipc_inv k'"
proof -
  obtain ss where ss: "blocked_pids k (nat fid) = map (\<lambda>s. int s + 1) ss" "distinct ss"
    "map (\<lambda>c. get_process (c_pid c)) (mq_nodes (the_mq fid k)) = map Some ss"
    "set ss \<inter> set (process_queue k) = {}" "r \<notin> set ss" "length ss < PROCESS_TABLE_MAX_SIZE"
    "\<And>s. s \<in> set ss \<Longrightarrow> s < PROCESS_TABLE_MAX_SIZE \<and> p_pid (proc k s) = int s + 1"
    using blocked_slots [OF assms(1-4)] by blast
  obtain s sr where s: "ss = s # sr" "get_process (c_pid c) = Some s"
    using ss(3) assms(5) by (cases ss) auto
  have sep: "s \<notin> set (process_queue k)" "r \<noteq> s" using ss(4,5) s(1) by auto
  have pids: "blocked_pids k (nat fid) = map (\<lambda>s. int s + 1) [s] @ map c_pid cs"
    using s(2) assms(5) by (simp add: blocked_pids_the_mq get_process_Some)
  have slot: "s < PROCESS_TABLE_MAX_SIZE \<and> p_pid (proc k s) = int s + 1" using ss(7) s(1) by simp
  show ?thesis
  proof (rule that [OF s(2) sep])
    fix k'
    assume "running_process (ptable k') = Some r" "ipc_frame fid k k'" "mq_inv (the_mq fid k')"
      "mq_nodes (the_mq fid k') = cs" "p_state (proc k' s) = WAITING" "\<And>s'. s' \<noteq> s \<Longrightarrow> proc k' s' = proc k s'"
      "process_queue k' = queue_insert (prio k) s (process_queue k)"
    then show "ipc_inv k'" using sep slot
      by (intro ipc_inv_wake [OF assms(1-3) _ _ _ pids]) (auto simp: blocked_pids_the_mq)
  qed
qed

lemma block_on_queue_inv:
  assumes "ipc_inv k" "valid_fid fid (mqt k)" "running_process (ptable k) = Some r" "p_state (proc k r) = RUNNING"
    and "answers (kheap k) (calls (kheap k)) \<noteq> 0" "locked_processes (the_mq fid k) = Some lp"
    and "nb_messages (the_mq fid k) = 0 \<or> nb_messages (the_mq fid k) = mq_size (the_mq fid k)"
  shows "\<exists>k'. block_on_queue fid lp m a k = Some k' \<and> ipc_inv k'"
proof -
  let ?q = "the_mq fid k"
  have inv: "sched_inv k" "mqt_inv (mqt k)" "blocked_ok k" using assms(1) by (simp_all add: ipc_inv_def)
  note q = ipc_inv_open [OF assms(1,2)]
  have lp: "pq_ok lp" "buffer_ok ?q" "mq_nodes ?q = pq_nodes lp"
    using open_queue [OF assms(2) q(2)] assms(6) by (metis option.inject)+
  obtain ss where ss: "blocked_pids k (nat fid) = map (\<lambda>s. int s + 1) ss" "length ss < PROCESS_TABLE_MAX_SIZE"
    by (rule blocked_slots [OF assms(1-4)]) (rule that)
  have r: "r < PROCESS_TABLE_MAX_SIZE" "p_pid (proc k r) = int r + 1" "r \<notin> set (process_queue k)"
    using inv(1) assms(3) by (simp_all add: sched_inv_def)
  have "length (pq_nodes lp) < PROCESS_TABLE_MAX_SIZE"
    using arg_cong [OF ss(1), of length] ss(2) lp(3) by (simp add: blocked_pids_the_mq)
  then obtain k1 lp' where k1: "block_on_queue fid lp m a k = Some (push (schedule @ [Ipc_resume (int r + 1)]) k1)"
    "the_mq fid k1 = ?q\<lparr>locked_processes := Some lp'\<rparr>" "pq_ok lp'"
    "mset (pq_nodes lp') = add_mset \<lparr>c_pid = int r + 1, c_message = m, c_destination = a, c_priority = prio k r\<rparr>
       (mset (pq_nodes lp))"
    "p_state (proc k1 r) = BLOCKED_BY_MESSAGE" "process_queue k1 = process_queue k"
    "\<And>s. s \<noteq> r \<Longrightarrow> proc k1 s = proc k s" "running_process (ptable k1) = Some r"
    using block_on_queue_blocks [OF r(1) assms(3) r(2) assms(5) lp(1), of fid m a] by metis
  have frame: "ipc_frame fid k k1" using block_on_queue_frame [OF k1(1)] by simp
  have mq: "mq_inv (the_mq fid k1)" using lp(2) k1(2,3) assms(2,7)
    by (intro mq_inv_open [of _ lp']) (auto simp: valid_fid_def the_mq_def)
  have pr: "p_pid (proc k1 s) = p_pid (proc k s)" "prio k1 s = prio k s" for s using frame by (simp_all add: ipc_frame_def)
  have "sched_inv k1" using inv(1) assms(3) r k1(6-8) pr prio_sorted_cong [of "process_queue k" "prio k1" "prio k"]
    by (auto simp: sched_inv_def) (metis k1(7))+
  moreover have "mqt_inv (mqt k1)" by (rule mqt_inv_frame [OF inv(2) frame mq])
  moreover have "blocked_ok k1"
  proof -
    have same: "blocked_pids k1 i = blocked_pids k i" if "i \<noteq> nat fid" for i
      using frame that by (simp add: blocked_pids_def ipc_frame_def)
    have m: "mset (blocked_pids k1 (nat fid)) = mset ((int r + 1) # blocked_pids k (nat fid))"
      unfolding blocked_pids_the_mq k1(2) lp(3) using arg_cong [OF k1(4), of "image_mset c_pid"] by (simp add: mq_nodes_def)
    have new: "int r + 1 \<notin> set (blocked_pids k i)" if "i < NBQUEUE" for i
    proof
      assume "int r + 1 \<in> set (blocked_pids k i)"
      then obtain s where "int r + 1 = int s + 1" "p_state (proc k s) = BLOCKED_BY_MESSAGE"
        using blocked_okD [OF inv(3) \<open>i < NBQUEUE\<close>] by metis
      then show False using assms(4) by simp
    qed
    have "distinct (blocked_pids k (nat fid))" using inv(3) q(1) by (simp add: blocked_ok_def)
    then have here: "set (blocked_pids k1 (nat fid)) = insert (int r + 1) (set (blocked_pids k (nat fid)))"
      "distinct (blocked_pids k1 (nat fid))"
      using mset_eq_setD [OF m] mset_eq_imp_distinct_iff [OF m] new [OF q(1)] by simp_all
    have "\<exists>s. get_process p = Some s \<and> p_pid (proc k1 s) = p \<and> p_state (proc k1 s) = BLOCKED_BY_MESSAGE"
      if i: "i < NBQUEUE" and p: "p \<in> set (blocked_pids k1 i)" for i p
    proof (cases "p = int r + 1")
      case True
      then show ?thesis using r k1(5) pr(1) by (intro exI [of _ r]) (simp add: get_process_Some)
    next
      case False
      then have "p \<in> set (blocked_pids k i)" using p here(1) same [of i] by (cases "i = nat fid") auto
      then obtain s where s: "get_process p = Some s" "p = int s + 1" "p_pid (proc k s) = int s + 1"
        "p_state (proc k s) = BLOCKED_BY_MESSAGE"
        by (rule blocked_okD [OF inv(3) i])
      then show ?thesis using k1(7) [of s] False by (intro exI [of _ s]) simp
    qed
    moreover have "distinct (blocked_pids k1 i)" if "i < NBQUEUE" for i
      using that here(2) same [of i] inv(3) by (cases "i = nat fid") (auto simp: blocked_ok_def)
    moreover have "set (blocked_pids k1 i) \<inter> set (blocked_pids k1 j) = {}" if "i < NBQUEUE" "j < NBQUEUE" "i \<noteq> j" for i j
    proof -
      have "set (blocked_pids k i) \<inter> set (blocked_pids k j) = {}" using inv(3) that by (simp add: blocked_ok_def)
      then show ?thesis using new [OF that(1)] new [OF that(2)] here(1) same [of i] same [of j] that(3)
        by (cases "i = nat fid"; cases "j = nat fid") auto
    qed
    ultimately show ?thesis unfolding blocked_ok_def by blast
  qed
  ultimately have "ipc_inv k1" unfolding ipc_inv_def by blast
  then show ?thesis using k1(1) by simp
qed

lemma queue_cases:
  assumes "mq_inv q" "buffer q \<noteq> 0"
  obtains (room) "nb_messages q < mq_size q" "mq_nodes q = []" | (full) "nb_messages q = mq_size q" "0 < mq_size q"
  | (handover) c cs where "nb_messages q = 0" "mq_nodes q = c # cs" "0 < mq_size q"
proof -
  have "0 < mq_size q" using mq_inv_size_pos [OF assms(1)] assms(2) by simp
  moreover have "nb_messages q \<le> mq_size q" using assms by (auto simp: mq_inv_def buffer_ok_def ring_ok_def)
  moreover have "mq_nodes q \<noteq> [] \<longrightarrow> nb_messages q = 0 \<or> nb_messages q = mq_size q"
    using assms by (auto simp: mq_inv_def mq_nodes_def)
  ultimately show ?thesis using that by (cases "mq_nodes q") fastforce+
qed

lemma psend_inv:
  assumes "ipc_inv k" "running_process (ptable k) = Some r" "p_state (proc k r) = RUNNING"
    and "answers (kheap k) (calls (kheap k)) \<noteq> 0"
  shows "\<exists>k'. psend fid m k = Some k' \<and> ipc_inv k'"
proof (cases "valid_fid fid (mqt k)")
  case False
  then show ?thesis using assms(1) by (simp add: psend_def)
next
  case True
  note q = ipc_inv_open [OF assms(1) True]
  have b: "buffer (the_mq fid k) \<noteq> 0" using True by (simp add: valid_fid_def the_mq_def)
  obtain lp where lp: "locked_processes (the_mq fid k) = Some lp" "pq_size lp = length (mq_nodes (the_mq fid k))"
    using open_queue [OF True q(2)] by metis
  from q(2) b show ?thesis
  proof (cases rule: queue_cases)
    case room
    obtain q' where q': "psend fid m k = Some (push [Return 0] (set_mq fid q' k))" "mq_inv q'" "mq_nodes q' = []"
      using psend_stores [OF True q(2) room] by metis
    have "ipc_inv (set_mq fid q' k)"
      by (rule ipc_inv_set_mq [OF assms(1) True assms(2)])
        (use assms(2) psend_frame [OF q'(1)] q'(2,3) room(2) in simp_all)
    then show ?thesis using q'(1) by simp
  next
    case full
    then have "psend fid m k = block_on_queue fid lp m 0 k" using True lp by (simp add: psend_def Let_def)
    then show ?thesis using block_on_queue_inv [OF assms(1) True assms(2-4) lp(1)] full(1) by simp
  next
    case (handover c cs)
    obtain s where s: "get_process (c_pid c) = Some s" "s \<notin> set (process_queue k)" "r \<noteq> s"
      and keep: "\<And>k'. running_process (ptable k') = Some r \<Longrightarrow> ipc_frame fid k k' \<Longrightarrow> mq_inv (the_mq fid k') \<Longrightarrow>
         mq_nodes (the_mq fid k') = cs \<Longrightarrow> p_state (proc k' s) = WAITING \<Longrightarrow>
         (\<And>s'. s' \<noteq> s \<Longrightarrow> proc k' s' = proc k s') \<Longrightarrow>
         process_queue k' = queue_insert (prio k) s (process_queue k) \<Longrightarrow> ipc_inv k'"
      using ipc_inv_wake_first [OF assms(1) True assms(2,3) handover(2)] by blast
    have e: "messages (the_mq fid k) = []" using handover(1) by (metis length_0_conv length_messages)
    obtain k' where k': "psend fid m k = Some (push ((if prio k s > prio k r then schedule else []) @ [Return 0]) k')"
      "mq_inv (the_mq fid k')" "mq_nodes (the_mq fid k') = cs"
      "p_state (proc k' s) = WAITING" "process_queue k' = queue_insert (prio k) s (process_queue k)"
      "\<And>s'. s' \<noteq> s \<Longrightarrow> proc k' s' = proc k s'" "running_process (ptable k') = Some r"
      by (rule psend_hands_over [OF True q(2) e handover(2) s(1,2) assms(2) s(3), of m]) (rule that)
    have "ipc_inv k'" by (rule keep) (use k' psend_frame [OF k'(1)] in simp_all)
    then show ?thesis using k'(1) by simp
  qed
qed

lemma preceive_inv:
  assumes "ipc_inv k" "running_process (ptable k) = Some r" "p_state (proc k r) = RUNNING"
    and "answers (kheap k) (calls (kheap k)) \<noteq> 0"
  shows "\<exists>k'. preceive fid a k = Some k' \<and> ipc_inv k'"
proof (cases "valid_fid fid (mqt k)")
  case False
  then show ?thesis using assms(1) by (simp add: preceive_def)
next
  case True
  let ?q = "the_mq fid k"
  note q = ipc_inv_open [OF assms(1) True]
  obtain lp where lp: "locked_processes ?q = Some lp" "pq_size lp = length (mq_nodes ?q)" "0 < mq_size ?q"
    "mq_nodes ?q \<noteq> [] \<longrightarrow> nb_messages ?q = 0 \<or> nb_messages ?q = mq_size ?q"
    using open_queue [OF True q(2)] by metis
  show ?thesis
  proof (cases "messages ?q")
    case Nil
    then have "nb_messages ?q = 0" by (metis length_0_conv length_messages)
    then have "preceive fid a k = block_on_queue fid lp 0 a k" using True lp(1,3) by (simp add: preceive_def Let_def)
    then show ?thesis using block_on_queue_inv [OF assms(1) True assms(2-4) lp(1)] \<open>nb_messages ?q = 0\<close> by simp
  next
    case ms: (Cons m ms)
    show ?thesis
    proof (cases "mq_nodes ?q")
      case Nil
      obtain q' where q': "preceive fid a k = Some (push [Return 0] (store_result a m (set_mq fid q' k)))" "mq_inv q'"
        "mq_nodes q' = []"
        using preceive_takes [OF True q(2) ms Nil] by metis
      have "ipc_inv (store_result a m (set_mq fid q' k))"
        by (rule ipc_inv_set_mq [OF assms(1) True assms(2)])
          (use assms(2) preceive_frame [OF q'(1)] q'(2,3) Nil in simp_all)
      then show ?thesis using q'(1) by simp
    next
      case cs: (Cons c cs)
      obtain s where s: "get_process (c_pid c) = Some s" "s \<notin> set (process_queue k)" "r \<noteq> s"
        and keep: "\<And>k'. running_process (ptable k') = Some r \<Longrightarrow> ipc_frame fid k k' \<Longrightarrow> mq_inv (the_mq fid k') \<Longrightarrow>
           mq_nodes (the_mq fid k') = cs \<Longrightarrow> p_state (proc k' s) = WAITING \<Longrightarrow>
           (\<And>s'. s' \<noteq> s \<Longrightarrow> proc k' s' = proc k s') \<Longrightarrow>
           process_queue k' = queue_insert (prio k) s (process_queue k) \<Longrightarrow> ipc_inv k'"
        using ipc_inv_wake_first [OF assms(1) True assms(2,3) cs] by blast
      obtain k' where k': "preceive fid a k = Some (push ((if prio k s > prio k r then schedule else []) @ [Return 0]) k')"
        "mq_inv (the_mq fid k')" "mq_nodes (the_mq fid k') = cs"
        "p_state (proc k' s) = WAITING" "process_queue k' = queue_insert (prio k) s (process_queue k)"
        "\<And>s'. s' \<noteq> s \<Longrightarrow> proc k' s' = proc k s'"
        by (rule preceive_admits_sender [OF True q(2) ms cs s(1,2) assms(2) s(3), of a]) (rule that)
      moreover have f: "ipc_frame fid k k'" using preceive_frame [OF k'(1)] by simp
      moreover have "running_process (ptable k') = Some r" using f assms(2) by (simp add: ipc_frame_def)
      ultimately have "ipc_inv k'" by (intro keep)
      then show ?thesis using k'(1) by simp
    qed
  qed
qed

lemma reset_loop_frame:
  "reset_loop lp need k = Some (lp', need', k') \<Longrightarrow>
   (\<exists>rr. mqt k' = (mqt k)\<lparr>reset_releases := rr\<rparr>) \<and> (\<forall>s. p_pid (proc k' s) = p_pid (proc k s) \<and> prio k' s = prio k s)"
proof (induction lp need k rule: reset_loop.induct)
  case (1 lp need k)
  show ?case
  proof (cases "pq_size lp > 0")
    case True
    from 1(2) True obtain c lp1 a k1 where c: "process_queue_remove_first lp = Some (c, lp1)"
      "awake (c_pid c) (store_result (c_destination c) (-1) k) = Some (a, k1)"
      "reset_loop lp1 (a \<or> need) (k1\<lparr>mqt := (mqt k1)\<lparr>reset_releases :=
         (reset_releases (mqt k1))(nat (c_pid c - 1) := True)\<rparr>\<rparr>) = Some (lp', need', k')"
      by (subst (asm) reset_loop.simps) (auto split: option.splits)
    note f = awake_frame [OF c(2)]
    show ?thesis using 1(1) [OF True c(1) refl c(2) refl c(3)] f by (auto simp: f(1))
  next
    case False
    then have "k' = k" using 1(2) by (subst (asm) reset_loop.simps) simp
    then show ?thesis by (intro conjI exI [of _ "reset_releases (mqt k)"]) simp_all
  qed
qed

lemma message_queue_reset_frame:
  assumes "message_queue_reset fid k = Some (n, need, k')" "valid_fid fid (mqt k)"
  shows "free_fids (mqt k') = free_fids (mqt k)" "fids_ok (mqt k') = fids_ok (mqt k)"
    "p_pid (proc k' s) = p_pid (proc k s)" "prio k' s = prio k s"
  using assms by (auto simp: message_queue_reset_def Let_def set_mq_def split: bind_splits if_splits dest!: reset_loop_frame)

lemma message_queue_reset_inv:
  assumes "ipc_inv k" "running_process (ptable k) = Some r" "p_state (proc k r) = RUNNING" "valid_fid fid (mqt k)"
  obtains need k' where "message_queue_reset fid k = Some (0, need, k')" "ipc_inv k'"
    "mq_nodes (the_mq fid k') = []" "buffer (the_mq fid k') \<noteq> 0"
proof -
  note q = ipc_inv_open [OF assms(1,4)]
  have b: "buffer (the_mq fid k) \<noteq> 0" using assms(4) by (simp add: valid_fid_def the_mq_def)
  obtain ss where ss: "blocked_pids k (nat fid) = map (\<lambda>s. int s + 1) ss" "distinct ss"
    "map (\<lambda>c. get_process (c_pid c)) (mq_nodes (the_mq fid k)) = map Some ss"
    "set ss \<inter> set (process_queue k) = {}" "r \<notin> set ss" "length ss < PROCESS_TABLE_MAX_SIZE"
    "\<And>s. s \<in> set ss \<Longrightarrow> s < PROCESS_TABLE_MAX_SIZE \<and> p_pid (proc k s) = int s + 1"
    using blocked_slots [OF assms(1,4,2,3)] by blast
  obtain k' where k': "message_queue_reset fid k = Some (0, \<exists>s\<in>set ss. prio k s > prio k r, k')"
    "mq_inv (the_mq fid k')" "mq_nodes (the_mq fid k') = []" "mq_size (the_mq fid k') = mq_size (the_mq fid k)"
    "process_queue k' = fold (queue_insert (prio k)) ss (process_queue k)"
    "\<And>s. proc k' s = (if s \<in> set ss then (proc k s)\<lparr>p_state := WAITING\<rparr> else proc k s)"
    "running_process (ptable k') = Some r"
    "\<And>i. i \<noteq> nat fid \<Longrightarrow> mq_data (mqt k') i = mq_data (mqt k) i"
    by (rule message_queue_reset_effect [OF assms(4) q(2) ss(3,2,4) assms(2) ss(5)]) (rule that)
  have nz: "buffer (the_mq fid k') \<noteq> 0"
    using mq_inv_size_pos [OF k'(2)] mq_inv_size_pos [OF q(2)] k'(4) b by simp
  note f = message_queue_reset_frame [OF k'(1) assms(4)]
  have inv: "sched_inv k" "mqt_inv (mqt k)" "blocked_ok k" using assms(1) by (simp_all add: ipc_inv_def)
  have "sched_inv k'"
    by (rule sched_inv_ready [OF inv(1) assms(2) k'(7) ss(2,4,5) _ _ f(3,4) k'(5)]) (use ss(7) k'(6) in auto)
  moreover have "mqt_inv (mqt k')"
  proof -
    have "mq_inv (mq_data (mqt k') i) \<and> (buffer (mq_data (mqt k') i) = 0 \<longleftrightarrow> buffer (mq_data (mqt k) i) = 0)"
      if "i < NBQUEUE" for i
      using inv(2) k'(8) [of i] k'(2) nz b that by (cases "i = nat fid") (auto simp: mqt_inv_def the_mq_def)
    then show ?thesis using inv(2) f(1,2) by (simp add: mqt_inv_def)
  qed
  moreover have "blocked_ok k'"
    unfolding blocked_ok_def
  proof (intro allI impI)
    fix i
    assume i: "i < NBQUEUE"
    have pids: "blocked_pids k' j = (if j = nat fid then [] else blocked_pids k j)" for j
      using k'(8) [of j] k'(3) by (auto simp: blocked_pids_def the_mq_def)
    have "\<exists>s. get_process p = Some s \<and> p_pid (proc k' s) = p \<and> p_state (proc k' s) = BLOCKED_BY_MESSAGE"
      if p: "p \<in> set (blocked_pids k' i)" for p
    proof -
      have ne: "i \<noteq> nat fid" "p \<in> set (blocked_pids k i)" using p pids [of i] by (auto split: if_splits)
      then obtain s where s: "get_process p = Some s" "p = int s + 1" "p_pid (proc k s) = int s + 1"
        "p_state (proc k s) = BLOCKED_BY_MESSAGE"
        using blocked_okD [OF inv(3) i] by metis
      have "set (blocked_pids k (nat fid)) \<inter> set (blocked_pids k i) = {}"
        using inv(3) q(1) i ne(1) by (simp add: blocked_ok_def)
      then have "s \<notin> set ss" using ss(1) ne(2) s(2) by auto
      then show ?thesis using s k'(6) [of s] by (intro exI [of _ s]) simp
    qed
    then show "distinct (blocked_pids k' i)
      \<and> (\<forall>p\<in>set (blocked_pids k' i). \<exists>s. get_process p = Some s \<and> p_pid (proc k' s) = p \<and> p_state (proc k' s) = BLOCKED_BY_MESSAGE)
      \<and> (\<forall>j<NBQUEUE. i \<noteq> j \<longrightarrow> set (blocked_pids k' i) \<inter> set (blocked_pids k' j) = {})"
      using inv(3) i pids by (simp add: blocked_ok_def)
  qed
  ultimately have "ipc_inv k'" by (simp add: ipc_inv_def)
  then show ?thesis using that k'(1,3) nz by blast
qed

lemma preset_inv:
  assumes "ipc_inv k" "running_process (ptable k) = Some r" "p_state (proc k r) = RUNNING"
  shows "\<exists>k'. preset fid k = Some k' \<and> ipc_inv k'"
proof (cases "valid_fid fid (mqt k)")
  case False
  then show ?thesis using assms(1) by (simp add: preset_def message_queue_reset_def)
next
  case True
  obtain need k' where "message_queue_reset fid k = Some (0, need, k')" "ipc_inv k'"
    by (rule message_queue_reset_inv [OF assms True])
  then show ?thesis by (simp add: preset_def)
qed

lemma mqt_inv_close:
  assumes "mqt_inv t" "valid_fid fid t"
  obtains t' where "message_queue_table_unregister (t\<lparr>mq_data := (mq_data t)(nat fid := empty_message_queue)\<rparr>) fid = Some t'"
    "mqt_inv t'" "mq_data t' = (mq_data t)(nat fid := empty_message_queue)"
proof -
  have fid: "0 \<le> fid" "fid < int NBQUEUE" "buffer (mq_data t (nat fid)) \<noteq> 0" using assms(2) by (auto simp: valid_fid_def)
  have "nat fid < NBQUEUE" "int (nat fid) = fid" using fid(1,2) by auto
  then have new: "fid \<notin> set (free_fids t)" using assms(1) fid(3) unfolding mqt_inv_def by metis
  have "distinct (fid # free_fids t)" using new assms(1) by (simp add: mqt_inv_def)
  moreover have "set (fid # free_fids t) \<subseteq> {0..<int NBQUEUE}" using fid(1,2) assms(1) by (auto simp: mqt_inv_def)
  ultimately have "length (fid # free_fids t) \<le> card {0..<int NBQUEUE}" by (metis card_mono distinct_card finite_atLeastLessThan_int)
  then have "length (free_fids t) < NBQUEUE" by simp
  then obtain t1 where t1: "message_queue_table_unregister t fid = Some t1" "fids_ok t1" "free_fids t1 = free_fids t @ [fid]"
    using fid_put [of t fid] assms(1) by (auto simp: mqt_inv_def)
  define t' where "t' = t1\<lparr>mq_data := (mq_data t)(nat fid := empty_message_queue)\<rparr>"
  have "mqt_inv t'"
    unfolding mqt_inv_def
  proof (intro conjI)
    show "fids_ok t'" "distinct (free_fids t')" "\<forall>f\<in>set (free_fids t'). 0 \<le> f \<and> f < int NBQUEUE"
      using t1 new assms(1) fid by (auto simp: t'_def mqt_inv_def)
    show "\<forall>i<NBQUEUE. mq_inv (mq_data t' i) \<and> (buffer (mq_data t' i) = 0 \<longleftrightarrow> int i \<in> set (free_fids t'))"
    proof -
      have "buffer empty_message_queue = 0" by (simp add: empty_message_queue_def)
      then show ?thesis using assms(1) t1(3) fid by (auto simp: t'_def mqt_inv_def)
    qed
  qed
  moreover have "message_queue_table_unregister (t\<lparr>mq_data := (mq_data t)(nat fid := empty_message_queue)\<rparr>) fid = Some t'"
    using t1(1) by (simp add: table_register_mq_data t'_def)
  ultimately show ?thesis using that by (simp add: t'_def)
qed

lemma pdelete_inv:
  assumes "ipc_inv k" "running_process (ptable k) = Some r" "p_state (proc k r) = RUNNING"
  shows "\<exists>k'. pdelete fid k = Some k' \<and> ipc_inv k'"
proof (cases "valid_fid fid (mqt k)")
  case False
  then show ?thesis using assms(1) by (simp add: pdelete_def message_queue_reset_def)
next
  case True
  obtain need k1 where k1: "message_queue_reset fid k = Some (0, need, k1)" "ipc_inv k1"
    "mq_nodes (the_mq fid k1) = []" "buffer (the_mq fid k1) \<noteq> 0"
    by (rule message_queue_reset_inv [OF assms True])
  have "valid_fid fid (mqt k1)" using True k1(4) by (simp add: valid_fid_def the_mq_def)
  then obtain t' where t': "message_queue_table_unregister ((mqt k1)\<lparr>mq_data := (mq_data (mqt k1))(nat fid := empty_message_queue)\<rparr>) fid = Some t'"
    "mqt_inv t'" "mq_data t' = (mq_data (mqt k1))(nat fid := empty_message_queue)"
    using mqt_inv_close k1(2) unfolding ipc_inv_def by metis
  define h where "h = heap_free (buffer (the_mq fid k1)) (mq_size (the_mq fid k1) * 4) (kheap k1)"
  define k2 where "k2 = (set_mq fid empty_message_queue (k1\<lparr>kheap := h\<rparr>))\<lparr>mqt := t'\<rparr>"
  have "pdelete fid k = Some (push ((if need then schedule else []) @ [Return 0]) k2)"
    using k1(1) t'(1) by (simp add: pdelete_def Let_def k2_def h_def set_mq_def)
  moreover have "ipc_inv k2"
  proof -
    have "blocked_pids k2 i = blocked_pids k1 i" for i
      using k1(3) t'(3) by (auto simp: blocked_pids_def k2_def the_mq_def mq_nodes_def empty_message_queue_def)
    then show ?thesis using k1(2) t'(2) by (simp add: ipc_inv_def sched_inv_def blocked_ok_def k2_def)
  qed
  ultimately show ?thesis by simp
qed

lemma pcount_inv:
  assumes "ipc_inv k"
  shows "\<exists>k'. pcount fid a k = Some k' \<and> ipc_inv k'"
proof (cases "valid_fid fid (mqt k)")
  case False
  then show ?thesis using assms by (simp add: pcount_def)
next
  case True
  then obtain lp where "locked_processes (the_mq fid k) = Some lp"
    using open_queue [OF True] ipc_inv_open [OF assms True] by metis
  moreover have "ipc_inv (set_word a v k)" for v
    using assms by (simp add: ipc_inv_def sched_inv_def blocked_ok_def blocked_pids_def)
  ultimately show ?thesis using True assms by (simp add: pcount_def pcount_value_def)
qed

lemma pcreate_inv:
  assumes "ipc_inv k" "answers (kheap k) (Suc (calls (kheap k))) \<noteq> 0"
  shows "\<exists>k'. pcreate_call n k = Some k' \<and> ipc_inv k'"
proof -
  have inv: "sched_inv k" "mqt_inv (mqt k)" "blocked_ok k" using assms(1) by (simp_all add: ipc_inv_def)
  have "\<exists>fid t h. pcreate n (mqt k) (kheap k) = Some (fid, t, h) \<and> mqt_inv t
      \<and> (\<forall>i<NBQUEUE. mq_nodes (mq_data t i) = mq_nodes (mq_data (mqt k) i))"
  proof (cases "n < 1 \<or> n > MESSAGE_QUEUE_BUFFER_MAX_SIZE \<or> mq_current_size (mqt k) \<ge> NBQUEUE")
    case True
    then show ?thesis using inv(2) by (auto simp: pcreate_def)
  next
    case False
    then have n: "1 \<le> n" "n \<le> MESSAGE_QUEUE_BUFFER_MAX_SIZE" "mq_current_size (mqt k) < NBQUEUE" by auto
    show ?thesis
    proof (cases "answers (kheap k) (calls (kheap k)) = 0")
      case True
      show ?thesis by (rule pcreate_no_memory [OF inv(2) n True]) simp
    next
      case False
      obtain fid t h where t: "pcreate n (mqt k) (kheap k) = Some (fid, t, h)" "mqt_inv t" "0 \<le> fid" "fid < int NBQUEUE"
        "buffer (mq_data (mqt k) (nat fid)) = 0"
        "locked_processes (mq_data t (nat fid)) = Some process_queue_create"
        "\<And>i. i \<noteq> nat fid \<Longrightarrow> mq_data t i = mq_data (mqt k) i"
        by (rule pcreate_ok [OF inv(2) n False assms(2)]) (rule that)
      have "nat fid < NBQUEUE" using t(3,4) by auto
      then have "mq_inv (mq_data (mqt k) (nat fid))" using inv(2) by (simp add: mqt_inv_def)
      then have "mq_nodes (mq_data t (nat fid)) = mq_nodes (mq_data (mqt k) (nat fid))"
        using t(5,6) by (simp add: mq_nodes_def mq_inv_def process_queue_create_def)
      then show ?thesis using t(1,2,7) by metis
    qed
  qed
  then obtain fid t h where t: "pcreate n (mqt k) (kheap k) = Some (fid, t, h)" "mqt_inv t"
    "\<And>i. i < NBQUEUE \<Longrightarrow> mq_nodes (mq_data t i) = mq_nodes (mq_data (mqt k) i)"
    by blast
  have "ipc_inv (k\<lparr>mqt := t, kheap := h\<rparr>)"
    using inv t(2,3) by (simp add: ipc_inv_def sched_inv_def blocked_ok_def blocked_pids_def)
  then show ?thesis using t(1) by (simp add: pcreate_call_def)
qed

lemma run_ipc_inv:
  assumes "ipc_inv k" "running_process (ptable k) = Some r" "p_state (proc k r) = RUNNING"
    and "answers (kheap k) (calls (kheap k)) \<noteq> 0" "answers (kheap k) (Suc (calls (kheap k))) \<noteq> 0"
  shows "\<exists>k'. run_ipc c k = Some k' \<and> ipc_inv k'"
  using psend_inv [OF assms(1-4)] preceive_inv [OF assms(1-4)] preset_inv [OF assms(1-3)] pdelete_inv [OF assms(1-3)]
    pcount_inv [OF assms(1)] pcreate_inv [OF assms(1,5)]
  by (cases c) simp_all

subsection \<open>The scheduler keeps the invariant\<close>

lemma schedule_pick_mqt: "schedule_pick k = Some k' \<Longrightarrow> mqt k' = mqt k"
  by (auto simp: schedule_pick_def process_switch_def context_switch_def kqueue_add_eq Let_def
      split: bind_splits option.splits if_splits)

lemma schedule_inv:
  assumes "ipc_inv k" "running_process (ptable k) = Some old"
    and "current_size (ptable k) < PROCESS_TABLE_MAX_SIZE \<or> old = 0"
  shows "\<exists>k'. schedule_pick k = Some k' \<and> ipc_inv k'"
proof -
  have inv: "sched_inv k" "mqt_inv (mqt k)" "blocked_ok k" using assms(1) by (simp_all add: ipc_inv_def)
  show ?thesis
  proof (cases "process_queue k = [] \<or> p_state (proc k old) = RUNNING \<and> prio k (last (process_queue k)) < prio k old")
    case True
    then show ?thesis using schedule_pick_stay [OF inv(1) assms(2,3)] assms(1) by blast
  next
    case False
    then obtain q new where q: "process_queue k = q @ [new]" by (cases "process_queue k" rule: rev_cases) auto
    with False have give: "p_state (proc k old) = RUNNING \<longrightarrow> prio k old \<le> prio k new" by auto
    obtain k' where k': "schedule_pick k = Some k'" "sched_inv k'"
      "\<And>s. proc k' s = (if s = new then (proc k s)\<lparr>p_state := RUNNING\<rparr>
         else if s = old \<and> p_state (proc k old) = RUNNING then (proc k s)\<lparr>p_state := WAITING\<rparr> else proc k s)"
      by (rule schedule_pick_switch [OF inv(1) assms(2,3) q give]) (rule that)
    have "p_state (proc k new) = WAITING" using inv(1) q by (simp add: sched_inv_def)
    then have blocked: "proc k' s = proc k s" if "p_state (proc k s) = BLOCKED_BY_MESSAGE" for s
      using that k'(3) [of s] by auto
    have "blocked_pids k' = blocked_pids k" using schedule_pick_mqt [OF k'(1)] by (simp add: fun_eq_iff blocked_pids_def)
    then have "blocked_ok k'" using inv(3) blocked unfolding blocked_ok_def by metis
    then show ?thesis using k'(1,2) inv(2) schedule_pick_mqt [OF k'(1)] by (simp add: ipc_inv_def)
  qed
qed

subsection \<open>Properties\<close>


lemma ipc_inv_sample: "ipc_inv sample_kernel"
proof -
  have "mq_nodes (mq_data (mqt sample_kernel) i) = []" if "i < NBQUEUE" for i
    using that by (simp add: message_queues_init_def mq_nodes_def empty_message_queue_def)
  then show ?thesis by (simp add: ipc_inv_def mqt_inv_init blocked_ok_def blocked_pids_def)
qed


end
