(* ===== verification/Bitops.thy ===== *)
theory Bitops
  imports Prelude
begin

text \<open>
  The bit operations of the keyboard driver, \<^verbatim>\<open>kernel/kbd-linux/asm/bitops.h\<close>. A memory region is a function from
  word indices to words, counted from the address that is passed; the bit instructions of the i386 with a memory
  operand address any bit of it, also before its start, so indices and bit numbers are integers. The \<open>bitset\<close> of a
  region is the set of bits as the callers see it, a function from bit numbers to truth values; it is what
  \<open>Keyboard\<close> keeps of \<open>key_down\<close>. Shown: every operation is the operation of its name on the bit set, and the
  searches find the first zero bit without looking past the last word of the region.
\<close>

unbundle bit_operations_syntax

type_synonym region = "int \<Rightarrow> 32 word"

section \<open>The instructions\<close>

text \<open>\<open>bt\<close> gives the carry flag; \<open>sbb r, r\<close> turns it into 0 or -1.\<close>

definition bt :: "region \<Rightarrow> int \<Rightarrow> bool" where
  "bt a nr = bit (a (nr div 32)) (nat (nr mod 32))"

definition sbb :: "bool \<Rightarrow> int" where
  "sbb carry = (if carry then -1 else 0)"

definition bts :: "region \<Rightarrow> int \<Rightarrow> region" where
  "bts a nr = a(nr div 32 := a (nr div 32) OR push_bit (nat (nr mod 32)) 1)"

definition btr :: "region \<Rightarrow> int \<Rightarrow> region" where
  "btr a nr = a(nr div 32 := a (nr div 32) AND NOT (push_bit (nat (nr mod 32)) 1))"

definition btc :: "region \<Rightarrow> int \<Rightarrow> region" where
  "btc a nr = a(nr div 32 := a (nr div 32) XOR push_bit (nat (nr mod 32)) 1)"

text \<open>\<open>bsf\<close>: the lowest set bit; of 0 there is none, the zero flag is set and the destination is undefined.\<close>

definition bsf :: "32 word \<Rightarrow> nat option" where
  "bsf x = find (bit x) [0..<32]"

text \<open>\<open>repe scasl\<close> with -1 in \<open>eax\<close>, from word \<open>i\<close> on, at most \<open>n\<close> words: the word that differs.\<close>

primrec scas :: "region \<Rightarrow> int \<Rightarrow> nat \<Rightarrow> int option" where
  "scas a i 0 = None"
| "scas a i (Suc n) = (if a i = -1 then scas a (i + 1) n else Some i)"

section \<open>The operations\<close>

definition set_bit :: "int \<Rightarrow> region \<Rightarrow> region" where
  "set_bit nr a = bts a nr"

definition set_bit_nonatomic :: "int \<Rightarrow> region \<Rightarrow> region" where
  "set_bit_nonatomic nr a = bts a nr"

definition clear_bit :: "int \<Rightarrow> region \<Rightarrow> region" where
  "clear_bit nr a = btr a nr"

definition change_bit_nonatomic :: "int \<Rightarrow> region \<Rightarrow> region" where
  "change_bit_nonatomic nr a = btc a nr"

definition change_bit :: "int \<Rightarrow> region \<Rightarrow> region" where
  "change_bit nr a = btc a nr"

definition test_and_set_bit :: "int \<Rightarrow> region \<Rightarrow> int \<times> region" where
  "test_and_set_bit nr a = (let oldbit = sbb (bt a nr) in (oldbit, bts a nr))"

definition test_and_set_bit_nonatomic :: "int \<Rightarrow> region \<Rightarrow> int \<times> region" where
  "test_and_set_bit_nonatomic nr a = (let oldbit = sbb (bt a nr) in (oldbit, bts a nr))"

definition test_and_clear_bit :: "int \<Rightarrow> region \<Rightarrow> int \<times> region" where
  "test_and_clear_bit nr a = (let oldbit = sbb (bt a nr) in (oldbit, btr a nr))"

definition test_and_clear_bit_nonatomic :: "int \<Rightarrow> region \<Rightarrow> int \<times> region" where
  "test_and_clear_bit_nonatomic nr a = (let oldbit = sbb (bt a nr) in (oldbit, btr a nr))"

definition test_and_change_bit_nonatomic :: "int \<Rightarrow> region \<Rightarrow> int \<times> region" where
  "test_and_change_bit_nonatomic nr a = (let oldbit = sbb (bt a nr) in (oldbit, btc a nr))"

definition test_and_change_bit :: "int \<Rightarrow> region \<Rightarrow> int \<times> region" where
  "test_and_change_bit nr a = (let oldbit = sbb (bt a nr) in (oldbit, btc a nr))"

definition constant_test_bit :: "int \<Rightarrow> region \<Rightarrow> int" where
  "constant_test_bit nr a = (if push_bit (nat (nr AND 31)) 1 AND a (drop_bit 5 nr) \<noteq> 0 then 1 else 0)"

definition variable_test_bit :: "int \<Rightarrow> region \<Rightarrow> int" where
  "variable_test_bit nr a = sbb (bt a nr)"

text \<open>The search compares whole words with -1. \<open>edi\<close> is counted from the start of the region, in bytes. With
  \<open>ecx = 0\<close> the scan does nothing and leaves the zero flag of \<open>xorl %edx, %edx\<close>, so it ends like a scan without
  a hit.\<close>

definition find_first_zero_bit :: "region \<Rightarrow> 32 word \<Rightarrow> int" where
  "find_first_zero_bit a sz =
     (if sz = 0 then 0
      else let ecx = unat (drop_bit 5 (sz + 31)) in
        case scas a 0 ecx of
          None \<Rightarrow> let edi = 4 * word_of_nat ecx in sint (push_bit 3 edi + (0 :: 32 word))
        | Some i \<Rightarrow>
            let eax = -1 XOR a i;
                edi = 4 * (word_of_int i + 1) - 4;
                edx = (case bsf eax of Some k \<Rightarrow> word_of_nat k | None \<Rightarrow> 0) in
            sint (push_bit 3 edi + edx :: 32 word))"

definition find_next_zero_bit :: "region \<Rightarrow> int \<Rightarrow> int \<Rightarrow> int" where
  "find_next_zero_bit a sz offset =
     (let p = drop_bit 5 offset; bit = offset AND 31;
          rest = (\<lambda>p set. offset + set + find_first_zero_bit (\<lambda>i. a (p + i)) (word_of_int (sz - 32 * p))) in
      if bit \<noteq> 0 then
        let set = (case bsf (NOT (drop_bit (nat bit) (a p))) of Some k \<Rightarrow> int k | None \<Rightarrow> 32) in
        if set < 32 - bit then set + offset else rest (p + 1) (32 - bit)
      else rest p 0)"

definition ffz :: "32 word \<Rightarrow> nat option" where
  "ffz word = bsf (NOT word)"

definition ffs :: "32 word \<Rightarrow> int" where
  "ffs x = (case bsf x of Some r \<Rightarrow> int r | None \<Rightarrow> -1) + 1"

section \<open>Bit sets\<close>

definition bitset :: "region \<Rightarrow> int \<Rightarrow> bool" where
  "bitset a n = bit (a (n div 32)) (nat (n mod 32))"

lemma same_bit: "n div 32 = m div 32 \<Longrightarrow> nat (n mod 32) = nat (m mod 32) \<longleftrightarrow> n = m" for n m :: int
  by (metis eq_nat_nat_iff div_mult_mod_eq pos_mod_sign zero_less_numeral)

lemma in_word: "nat (n mod 32) < 32" for n :: int
  by (simp add: nat_less_iff)

lemma bit_mask:
  fixes x :: "32 word"
  assumes "j < 32"
  shows "bit (x OR push_bit k 1) j \<longleftrightarrow> j = k \<or> bit x j"
    "bit (x AND NOT (push_bit k 1)) j \<longleftrightarrow> j \<noteq> k \<and> bit x j"
    "bit (x XOR push_bit k 1) j \<longleftrightarrow> (j = k) \<noteq> bit x j"
  using assms by (auto simp: bit_or_iff bit_and_iff bit_xor_iff bit_not_iff bit_exp_iff)

lemma bitset_word_update:
  "bitset (a(nr div 32 := x)) n = (if n div 32 = nr div 32 then bit x (nat (n mod 32)) else bitset a n)"
  by (simp add: bitset_def)

lemma bitset_bts: "bitset (bts a nr) = (bitset a)(nr := True)"
proof
  fix n
  show "bitset (bts a nr) n = ((bitset a)(nr := True)) n"
    unfolding bts_def bitset_word_update bit_mask(1) [OF in_word] using same_bit [of n nr]
    by (cases "n div 32 = nr div 32") (auto simp: bitset_def)
qed

lemma bitset_btr: "bitset (btr a nr) = (bitset a)(nr := False)"
proof
  fix n
  show "bitset (btr a nr) n = ((bitset a)(nr := False)) n"
    unfolding btr_def bitset_word_update bit_mask(2) [OF in_word] using same_bit [of n nr]
    by (cases "n div 32 = nr div 32") (auto simp: bitset_def)
qed

lemma bitset_btc: "bitset (btc a nr) = (bitset a)(nr := \<not> bitset a nr)"
proof
  fix n
  show "bitset (btc a nr) n = ((bitset a)(nr := \<not> bitset a nr)) n"
    unfolding btc_def bitset_word_update bit_mask(3) [OF in_word] using same_bit [of n nr]
    by (cases "n div 32 = nr div 32") (auto simp: bitset_def)
qed

lemma bt_bitset: "bt = bitset"
  by (intro ext) (simp add: bt_def bitset_def)

lemma sbb_iff: "sbb c \<noteq> 0 \<longleftrightarrow> c"
  by (simp add: sbb_def)

lemma and_31: "nr AND 31 = nr mod 32" for nr :: int
  using take_bit_eq_mask [of 5 nr] by (simp add: take_bit_eq_mod mask_eq_exp_minus_1)

lemma drop_5: "drop_bit 5 nr = nr div 32" for nr :: int
  by (simp add: drop_bit_eq_div)

lemma zero_iff_no_bit: "x = 0 \<longleftrightarrow> (\<forall>i<32. \<not> bit x i)" for x :: "32 word"
  by (auto intro: bit_word_eqI)

lemma bit_mask_and: "push_bit k 1 AND x = 0 \<longleftrightarrow> \<not> bit x k" if "k < 32" for x :: "32 word"
  using that unfolding zero_iff_no_bit by (auto simp: bit_and_iff bit_exp_iff)

lemma constant_test_iff: "constant_test_bit nr a \<noteq> 0 \<longleftrightarrow> bitset a nr"
  unfolding constant_test_bit_def and_31 drop_5 bitset_def using bit_mask_and [OF in_word [of nr]] by simp

lemma zero_word: "a i = 0 \<longleftrightarrow> (\<forall>j\<in>{0..<32}. \<not> bitset a (32 * i + j))"
proof -
  have "bitset a (32 * i + int k) = bit (a i) k" if "k < 32" for k
    using that by (simp add: bitset_def)
  then have "(\<forall>j\<in>int ` {0..<32}. \<not> bitset a (32 * i + j)) \<longleftrightarrow> a i = 0"
    unfolding zero_iff_no_bit by auto
  then show ?thesis by (simp add: image_int_atLeastLessThan)
qed

lemmas bit_operation_defs = set_bit_def set_bit_nonatomic_def clear_bit_def change_bit_def
  change_bit_nonatomic_def test_and_set_bit_def test_and_set_bit_nonatomic_def test_and_clear_bit_def
  test_and_clear_bit_nonatomic_def test_and_change_bit_def test_and_change_bit_nonatomic_def variable_test_bit_def

text \<open>What an operation of the header is to do, given what it does to one bit: its answer is not zero just when
  the bit was set, and the rest of the set stays.\<close>

definition on_bit :: "(bool \<Rightarrow> bool) \<Rightarrow> int \<Rightarrow> region \<Rightarrow> int \<times> region \<Rightarrow> bool" where
  "on_bit f nr a r \<longleftrightarrow> (fst r \<noteq> 0 \<longleftrightarrow> bitset a nr) \<and> bitset (snd r) = (bitset a)(nr := f (bitset a nr))"


section \<open>Searching\<close>

lemma bsf_SomeD:
  assumes "bsf x = Some k"
  shows "bit x k" "k < 32" "\<forall>j<k. \<not> bit x j"
proof -
  have e: "\<exists>i<length [0..<32]. bit x ([0..<32] ! i) \<and> k = [0..<32] ! i \<and> (\<forall>j<i. \<not> bit x ([0..<32] ! j))"
    using assms unfolding bsf_def find_Some_iff by metis
  then show "bit x k" "k < 32" "\<forall>j<k. \<not> bit x j" by (auto simp del: upt_Suc)
qed

lemma bsf_None_iff: "bsf x = None \<longleftrightarrow> x = 0"
  by (auto simp: bsf_def find_None_iff zero_iff_no_bit simp del: upt_Suc)

lemma scas_None: "scas a i n = None \<Longrightarrow> i \<le> j \<Longrightarrow> j < i + int n \<Longrightarrow> a j = -1"
proof (induction n arbitrary: i)
  case (Suc n)
  then show ?case by (cases "i = j") (auto split: if_splits)
qed simp

lemma scas_Some:
  "scas a i n = Some k \<Longrightarrow> i \<le> k \<and> k < i + int n \<and> a k \<noteq> -1 \<and> (\<forall>j. i \<le> j \<and> j < k \<longrightarrow> a j = -1)"
proof (induction n arbitrary: i)
  case (Suc n)
  show ?case
  proof (cases "a i = -1")
    case True
    then have "i + 1 \<le> k \<and> k < i + 1 + int n \<and> a k \<noteq> -1 \<and> (\<forall>j. i + 1 \<le> j \<and> j < k \<longrightarrow> a j = -1)"
      using Suc.IH [of "i + 1"] Suc.prems by simp
    then show ?thesis using True by (auto simp: int_one_le_iff_zero_less) (metis add1_zle_eq antisym_conv2)
  next
    case False
    then show ?thesis using Suc.prems by auto
  qed
qed simp

lemma not_zero_iff: "NOT x = 0 \<longleftrightarrow> x = -1" for x :: "32 word"
  by (metis bit.compl_zero bit.double_compl)

text \<open>What the searches promise of their answer \<open>r\<close>, for a region that ends before bit \<open>hi\<close>.\<close>

definition first_zero :: "(int \<Rightarrow> bool) \<Rightarrow> int \<Rightarrow> int \<Rightarrow> int \<Rightarrow> bool" where
  "first_zero b lo hi r \<longleftrightarrow>
     lo \<le> r \<and> r \<le> hi \<and> (\<forall>n\<in>{lo..<r}. b n) \<and> (r < hi \<longrightarrow> \<not> b r)"

lemma full_word: "a (n div 32) = -1 \<Longrightarrow> bitset a n"
  using in_word [of n] by (simp add: bitset_def)

lemma word_below: "0 \<le> n \<Longrightarrow> n < 32 * m \<Longrightarrow> 0 \<le> n div 32 \<and> n div 32 < m" for n m :: int
  by linarith

lemma first_zero_None:
  assumes "\<forall>j. 0 \<le> j \<and> j < m \<longrightarrow> a j = -1" "0 \<le> m"
  shows "first_zero (bitset a) 0 (32 * m) (32 * m)"
  unfolding first_zero_def using assms word_below full_word by auto

lemma first_zero_Some:
  assumes "\<forall>j. 0 \<le> j \<and> j < i \<longrightarrow> a j = -1" "0 \<le> i" "i < m" "bsf (NOT (a i)) = Some k"
  shows "first_zero (bitset a) 0 (32 * m) (32 * i + int k)"
proof -
  note k = bsf_SomeD [OF assms(4)]
  have "bitset a n" if "0 \<le> n" "n < 32 * i + int k" for n
  proof (cases "n < 32 * i")
    case True
    then show ?thesis using assms(1) word_below that(1) full_word by blast
  next
    case False
    then have "n div 32 = i" using that(2) k(2) by linarith
    then have d: "n div 32 = i" "n mod 32 = n - 32 * i" by (auto simp flip: minus_mult_div_eq_mod)
    have "nat (n mod 32) < k" using that(2) d(2) False by linarith
    then have "\<not> bit (NOT (a i)) (nat (n mod 32))" using k(3) by blast
    then show ?thesis using in_word [of n] d(1) by (simp add: bitset_def bit_not_iff)
  qed
  moreover have "\<not> bitset a (32 * i + int k)" using k(1,2) by (simp add: bitset_def bit_not_iff)
  moreover have "32 * i + int k \<le> 32 * m" using assms(3) k(2) by linarith
  ultimately show ?thesis unfolding first_zero_def using assms(2) by auto
qed

lemma sint_small: "0 \<le> x \<Longrightarrow> x < 2 ^ 31 \<Longrightarrow> sint (word_of_int x :: 32 word) = x"
  by (simp add: sint_sbintrunc' signed_take_bit_int_eq_self)

lemma first_zero_bit:
  assumes "-31 \<le> s" "s \<le> 2 ^ 31 - 32"
  shows "first_zero (bitset a) 0 (32 * ((s + 31) div 32)) (find_first_zero_bit a (word_of_int s))"
proof -
  let ?w = "word_of_int s :: 32 word"
  let ?m = "(s + 31) div 32"
  have m: "0 \<le> ?m" "32 * ?m < 2 ^ 31" using assms by auto
  have "?w + 31 = word_of_int (s + 31)" by simp
  then have "uint (?w + 31) = uint (word_of_int (s + 31) :: 32 word)" by (rule arg_cong)
  also have "\<dots> = s + 31" unfolding uint_word_of_int_eq using assms by (intro take_bit_int_eq_self) auto
  finally have "unat (?w + 31) = nat (s + 31)" by (metis nat_uint_eq)
  then have ecx: "unat (drop_bit 5 (?w + 31)) = nat ?m"
    using assms(1) by (simp add: unat_drop_bit nat_div_distrib)
  show ?thesis
  proof (cases "?w = 0")
    case True
    then have "s = 0 \<or> s < 0" using assms by (auto simp: word_of_int_eq_0_iff zdvd_not_zless)
    then have "?m = 0" using assms(1) by linarith
    then show ?thesis using True by (auto simp: find_first_zero_bit_def first_zero_def)
  next
    case False
    show ?thesis
    proof (cases "scas a 0 (nat ?m)")
      case None
      have "sint (push_bit 3 (4 * word_of_nat (nat ?m)) :: 32 word) = 32 * ?m"
        using sint_small [of "32 * ?m"] m by (simp add: push_bit_eq_mult)
      then have "find_first_zero_bit a ?w = 32 * ?m"
        using False None by (simp add: find_first_zero_bit_def ecx)
      moreover have "\<forall>j. 0 \<le> j \<and> j < ?m \<longrightarrow> a j = -1" using scas_None [OF None] m(1) by simp
      ultimately show ?thesis using first_zero_None m(1) by metis
    next
      case (Some i)
      note i = scas_Some [OF Some]
      obtain k where k: "bsf (NOT (a i)) = Some k" using i bsf_None_iff [of "NOT (a i)"] not_zero_iff by auto
      have "0 \<le> 32 * i + int k" "32 * i + int k < 2 ^ 31" using i m bsf_SomeD(2) [OF k] by auto
      then have "sint (push_bit 3 (4 * (word_of_int i + 1) - 4) + word_of_nat k :: 32 word) = 32 * i + int k"
        using sint_small [of "32 * i + int k"] by (simp add: push_bit_eq_mult)
      then have "find_first_zero_bit a ?w = 32 * i + int k"
        using False Some k by (simp add: find_first_zero_bit_def ecx)
      moreover have "i < ?m" using i m(1) by simp
      ultimately show ?thesis using first_zero_Some i k by metis
    qed
  qed
qed

lemma first_zero_from:
  assumes "sz + 31 \<ge> 32 * p" "sz - 32 * p \<le> 2 ^ 31 - 32"
  shows "first_zero (bitset a) (32 * p) (32 * ((sz + 31) div 32))
    (32 * p + find_first_zero_bit (\<lambda>i. a (p + i)) (word_of_int (sz - 32 * p)))"
proof -
  let ?b = "\<lambda>i. a (p + i)" and ?s = "sz - 32 * p"
  let ?r = "find_first_zero_bit ?b (word_of_int ?s)"
  have shift: "bitset ?b n = bitset a (32 * p + n)" for n by (simp add: bitset_def algebra_simps)
  have "?s + 31 = (sz + 31) + (- p) * 32" by simp
  then have "32 * ((?s + 31) div 32) = 32 * ((sz + 31) div 32) - 32 * p"
    using div_mult_self1 [of 32 "sz + 31" "- p"] by (simp add: algebra_simps)
  then have "first_zero (bitset ?b) 0 (32 * ((sz + 31) div 32) - 32 * p) (find_first_zero_bit ?b (word_of_int ?s))"
    using first_zero_bit [of ?s ?b] assms by simp
  then have r: "0 \<le> ?r" "?r \<le> 32 * ((sz + 31) div 32) - 32 * p" "\<forall>n. 0 \<le> n \<and> n < ?r \<longrightarrow> bitset a (32 * p + n)"
    "?r < 32 * ((sz + 31) div 32) - 32 * p \<longrightarrow> \<not> bitset a (32 * p + ?r)"
    unfolding first_zero_def shift by auto
  have "bitset a n" if "32 * p \<le> n" "n < 32 * p + ?r" for n
    using r(3) [rule_format, of "n - 32 * p"] that by simp
  then show ?thesis unfolding first_zero_def using r by auto
qed

lemma first_zero_extend:
  assumes "first_zero b m hi r" "lo \<le> m" "\<And>n. lo \<le> n \<Longrightarrow> n < m \<Longrightarrow> b n"
  shows "first_zero b lo hi r"
  using assms unfolding first_zero_def by (auto intro: order_trans)

lemma partial_word:
  fixes x :: "32 word"
  assumes "0 < b" "b < 32"
  obtains k where "bsf (NOT (drop_bit b x)) = Some k" "k \<le> 32 - b"
    "\<And>j. b \<le> j \<Longrightarrow> j < b + k \<Longrightarrow> bit x j" "k < 32 - b \<Longrightarrow> \<not> bit x (b + k)"
proof -
  have nb: "bit (NOT (drop_bit b x)) j \<longleftrightarrow> \<not> bit x (b + j)" if "j < 32" for j
    using that by (simp add: bit_not_iff bit_drop_bit_eq)
  have "\<not> bit x 32" using bit_imp_le_length [of x 32] by auto
  then have "bit (NOT (drop_bit b x)) (32 - b)" using nb [of "32 - b"] assms by simp
  then have "NOT (drop_bit b x) \<noteq> 0" by (metis bit_0_eq bot_apply bot_bool_def)
  then obtain k where k: "bsf (NOT (drop_bit b x)) = Some k" using bsf_None_iff by fastforce
  note f = bsf_SomeD [OF k]
  have "k \<le> 32 - b" using f(3) \<open>bit (NOT (drop_bit b x)) (32 - b)\<close> by (meson not_le_imp_less)
  moreover have "bit x j" if "b \<le> j" "j < b + k" for j
    using f(2,3) nb [of "j - b"] that by auto
  moreover have "\<not> bit x (b + k)" using f(1,2) nb [of k] by simp
  ultimately show thesis using that k by blast
qed

lemma next_zero_bit:
  assumes "0 \<le> offset" "offset \<le> sz" "sz \<le> 2 ^ 31 - 32"
  shows "first_zero (bitset a) offset (32 * ((sz + 31) div 32)) (find_next_zero_bit a sz offset)"
proof -
  define p where "p = offset div 32"
  define b where "b = offset mod 32"
  have off: "offset = 32 * p + b" "0 \<le> b" "b < 32" "0 \<le> p" using assms(1) by (simp_all add: p_def b_def)
  note next_def = find_next_zero_bit_def [of a sz offset, folded b_def p_def, unfolded and_31 drop_5, folded b_def p_def]
  show ?thesis
  proof (cases "b = 0")
    case True
    then have "find_next_zero_bit a sz offset = 32 * p + find_first_zero_bit (\<lambda>i. a (p + i)) (word_of_int (sz - 32 * p))"
      unfolding next_def by (simp add: off(1))
    then show ?thesis using first_zero_from [of p sz a] assms off True by simp
  next
    case False
    then have nb: "0 < nat b" "nat b < 32" using off by auto
    obtain k where k: "bsf (NOT (drop_bit (nat b) (a p))) = Some k" "k \<le> 32 - nat b"
      "\<And>j. nat b \<le> j \<Longrightarrow> j < nat b + k \<Longrightarrow> bit (a p) j" "k < 32 - nat b \<Longrightarrow> \<not> bit (a p) (nat b + k)"
      using partial_word [OF nb] by metis
    have at: "bitset a n \<longleftrightarrow> bit (a p) (nat (n - 32 * p))" if "32 * p \<le> n" "n < 32 * (p + 1)" for n
    proof -
      have "n div 32 = p" using that int_div_pos_eq [where a = n and b = 32 and q = p and r = "n - 32 * p"] by simp
      then show ?thesis by (auto simp: bitset_def simp flip: minus_mult_div_eq_mod)
    qed
    have set: "bitset a n" if "offset \<le> n" "n < offset + int k" for n
      using at [of n] k(2) k(3) [of "nat (n - 32 * p)"] that off by auto
    show ?thesis
    proof (cases "int k < 32 - b")
      case True
      have "\<not> bitset a (offset + int k)" using at [of "offset + int k"] k(4) True off by (simp add: nat_add_distrib)
      moreover have "p + 1 \<le> (sz + 31) div 32" using False assms off by linarith
      then have "offset + int k < 32 * ((sz + 31) div 32)" using True off by linarith
      moreover have "find_next_zero_bit a sz offset = offset + int k" using True False k(1) by (simp add: next_def)
      ultimately show ?thesis using set by (simp add: first_zero_def)
    next
      case wide: False
      then have k': "int k = 32 - b" using k(2) off by auto
      have "find_next_zero_bit a sz offset = 32 * (p + 1) + find_first_zero_bit (\<lambda>i. a (p + 1 + i)) (word_of_int (sz - 32 * (p + 1)))"
        unfolding next_def using wide False k(1) off(1) by simp
      moreover have "32 * (p + 1) \<le> sz + 31" "sz - 32 * (p + 1) \<le> 2 ^ 31 - 32"
        using nb(1) assms off(1,4) by simp_all
      ultimately have "first_zero (bitset a) (32 * (p + 1)) (32 * ((sz + 31) div 32)) (find_next_zero_bit a sz offset)"
        using first_zero_from [of "p + 1" sz a] by metis
      moreover have "offset + int k = 32 * (p + 1)" "offset \<le> 32 * (p + 1)" using k' off by simp_all
      ultimately show ?thesis using set first_zero_extend [where m = "32 * (p + 1)" and lo = offset] by metis
    qed
  qed
qed

text \<open>C31: The search for a zero bit. For a region of \<open>sz\<close> bits and a start within it, \<open>find_next_zero_bit\<close> returns the first
  zero bit at or after \<open>offset\<close>, or the end of the last word when there is none, and the answer depends on no
  word behind that one. This rests on a wrap-around: when the partial first word is full and was the last one,
  the remaining size is negative; as an unsigned number it still rounds up to 0 words, so the scan stops.\<close>

theorem find_next_zero_bit_finds_first:
  assumes "0 \<le> offset" "offset \<le> sz" "sz \<le> 2 ^ 31 - 32"
  shows "first_zero (bitset a) offset (32 * ((sz + 31) div 32)) (find_next_zero_bit a sz offset)"
  using assms by (rule next_zero_bit)

text \<open>39 bits of which all from bit 33 on are set: the end of the second word is returned. With bit 37 zero, 37.\<close>

theorem find_next_zero_bit_finds_first_witness:
  "first_zero (bitset (\<lambda>i. if i = 1 then 0xFFFFFFFE else 0)) 33 64
     (find_next_zero_bit (\<lambda>i. if i = 1 then 0xFFFFFFFE else 0) 39 33) \<and>
   find_next_zero_bit (\<lambda>i. if i = 1 then 0xFFFFFFFE else 0) 39 33 = 64 \<and>
   find_next_zero_bit (\<lambda>i. if i = 1 then 0xFFFFFFDE else 0) 39 33 = 37"
proof (intro conjI)
  show "first_zero (bitset (\<lambda>i. if i = 1 then 0xFFFFFFFE else 0)) 33 64
    (find_next_zero_bit (\<lambda>i. if i = 1 then 0xFFFFFFFE else 0) 39 33)"
    using find_next_zero_bit_finds_first [of 33 39 "\<lambda>i. if i = 1 then 0xFFFFFFFE else 0"] by simp
qed (code_simp+)

text \<open>The searches of one word: the lowest zero bit, the number of the lowest set bit counted from 1 (0 if there is none).
  \<open>ffz\<close> has no answer for a word without a zero bit.\<close>

lemma ffz_lowest: "ffz w = Some k \<longleftrightarrow> k < 32 \<and> \<not> bit w k \<and> (\<forall>j<k. bit w j)"
proof
  assume "ffz w = Some k"
  then show "k < 32 \<and> \<not> bit w k \<and> (\<forall>j<k. bit w j)"
    using bsf_SomeD [of "NOT w" k] by (auto simp: ffz_def bit_not_iff)
next
  assume k: "k < 32 \<and> \<not> bit w k \<and> (\<forall>j<k. bit w j)"
  then have "w \<noteq> -1" by auto
  then obtain l where l: "bsf (NOT w) = Some l" using bsf_None_iff [of "NOT w"] not_zero_iff by auto
  have "\<not> bit w l" "l < 32" "\<forall>j<l. bit w j" using bsf_SomeD [OF l] by (auto simp: bit_not_iff)
  then have "l = k" using k by (metis linorder_neqE_nat)
  then show "ffz w = Some k" using l by (simp add: ffz_def)
qed

lemma ffs_lowest: "ffs x = 0 \<and> x = 0 \<or> (\<exists>k<32. ffs x = int k + 1 \<and> bit x k \<and> (\<forall>j<k. \<not> bit x j))"
  using bsf_None_iff [of x] bsf_SomeD [of x] by (cases "bsf x") (auto simp: ffs_def)

end
