(* ===== verification/Gdb_Packet.thy ===== *)
theory Gdb_Packet
  imports Kstring
begin

text \<open>
  The packet layer of the remote debugger stub (\<^verbatim>\<open>kernel/gdb_serial.c\<close>, \<open>hex\<close> to \<open>putfrags\<close>).

  \<open>gdb_io\<close> is the serial line seen through \<open>gdb_serial_recv\<close> and \<open>gdb_serial_send\<close>: the bytes that will still
  be received and the bytes sent so far. Receiving waits for a byte; \<open>None\<close> is waiting for a byte that
  never comes. Characters are bytes (numbers below 256). The buffer of a packet lies in byte memory at an
  address \<open>inbuf\<close>.
\<close>

subsection \<open>The serial line\<close>

record gdb_io =
  rx :: "nat list"
  tx :: "nat list"

definition gdb_recv :: "gdb_io \<Rightarrow> (nat \<times> gdb_io) option" where
  "gdb_recv s = (case rx s of [] \<Rightarrow> None | c # cs \<Rightarrow> Some (c, s\<lparr>rx := cs\<rparr>))"

definition gdb_send :: "nat \<Rightarrow> gdb_io \<Rightarrow> gdb_io" where
  "gdb_send c s = s\<lparr>tx := tx s @ [c mod 256]\<rparr>"

subsection \<open>Hexadecimal digits\<close>

definition BUFMAX :: nat where
  "BUFMAX = 400"

definition hexchars :: "nat \<Rightarrow> nat" where
  "hexchars d = [48, 49, 50, 51, 52, 53, 54, 55, 56, 57, 97, 98, 99, 100, 101, 102] ! d"

definition hex :: "nat \<Rightarrow> int" where
  "hex ch =
     (if 48 \<le> ch \<and> ch \<le> 57 then int ch - 48
      else if 97 \<le> ch \<and> ch \<le> 102 then int ch - 97 + 10
      else if 65 \<le> ch \<and> ch \<le> 70 then int ch - 65 + 10
      else - 1)"

text \<open>\<open>hex2bin\<close> converts two digits a byte. The result is the returned code and the bytes that were stored: a
  wrong digit ends the conversion after the bytes before it. A digit pair is negative as soon as one digit is.\<close>

definition hex_pair :: "nat \<Rightarrow> nat \<Rightarrow> int" where
  "hex_pair a b = (if hex a < 0 \<or> hex b < 0 then - 1 else hex a * 16 + hex b)"

fun hex2bin :: "nat \<Rightarrow> nat \<Rightarrow> memory \<Rightarrow> int \<times> nat list" where
  "hex2bin in_p 0 m = (0, [])"
| "hex2bin in_p (Suc len) m =
     (let ch = hex_pair (m in_p) (m (in_p + 1))
      in if ch < 0 then (- 1, [])
         else let (r, out) = hex2bin (in_p + 2) len m in (r, nat ch # out))"

subsection \<open>Receiving a packet\<close>

partial_function (option) wait_start :: "gdb_io \<Rightarrow> gdb_io option" where
  "wait_start s = do {
     (ch, s) \<leftarrow> gdb_recv s;
     if ch mod 128 \<noteq> 36 then wait_start s else Some s
   }"

text \<open>The loop that reads up to the character \<open>#\<close> or to the end of the buffer, with \<open>count\<close>, \<open>checksum\<close> and
  \<open>ch\<close>.\<close>

partial_function (option) read_body ::
  "nat \<Rightarrow> nat \<Rightarrow> nat \<Rightarrow> nat \<Rightarrow> memory \<Rightarrow> gdb_io \<Rightarrow> (nat \<times> nat \<times> nat \<times> memory \<times> gdb_io) option" where
  "read_body inbuf cnt csum ch m s =
     (if cnt < BUFMAX then do {
        (ch, s) \<leftarrow> gdb_recv s;
        if ch = 35 \<and> (cnt = 0 \<or> m (inbuf + (cnt - 1)) \<noteq> 125) then Some (cnt, csum, ch, m, s)
        else read_body inbuf (cnt + 1) ((csum + ch) mod 256) ch (m(inbuf + cnt := ch)) s
      }
      else Some (cnt, csum, ch, m, s))"

text \<open>The removal of the sequence characters, for \<open>i\<close> up to \<open>count\<close>.\<close>

fun remove_sequence :: "nat \<Rightarrow> nat list \<Rightarrow> memory \<Rightarrow> memory" where
  "remove_sequence buf [] m = m"
| "remove_sequence buf (i # is) m = remove_sequence buf is (m(buf + (i - 3) := m (buf + i)))"

definition accept_packet :: "nat \<Rightarrow> memory \<Rightarrow> gdb_io \<Rightarrow> (memory \<times> gdb_io) option" where
  "accept_packet inbuf m s =
     (let s = gdb_send 43 s
      in if m (inbuf + 2) = 58 then do {
           let s = gdb_send (m (inbuf + 1)) (gdb_send (m inbuf) s);
           cnt \<leftarrow> strlen inbuf m;
           Some (remove_sequence inbuf [3..<cnt + 1] m, s)
         }
         else Some (m, s))"

text \<open>The end of a packet: the check digits, and the reply. The first result is \<open>xmitcsum\<close>.\<close>

definition check_packet :: "nat \<Rightarrow> nat \<Rightarrow> nat \<Rightarrow> memory \<Rightarrow> gdb_io \<Rightarrow> (nat \<times> memory \<times> gdb_io) option" where
  "check_packet inbuf csum ch m s =
     (if ch = 35 then do {
        (h1, s) \<leftarrow> gdb_recv s;
        (h2, s) \<leftarrow> gdb_recv s;
        let xmitcsum = nat ((hex h1 * 16 + hex h2) mod 256);
        (m, s) \<leftarrow> (if csum \<noteq> xmitcsum then Some (m, gdb_send 45 s) else accept_packet inbuf m s);
        Some (xmitcsum, m, s)
      }
      else Some (255, m, s))"

partial_function (option) getpacket :: "nat \<Rightarrow> memory \<Rightarrow> gdb_io \<Rightarrow> (memory \<times> gdb_io) option" where
  "getpacket inbuf m s = do {
     s \<leftarrow> wait_start s;
     (cnt, csum, ch, m, s) \<leftarrow> read_body inbuf 0 0 36 m s;
     (xmitcsum, m, s) \<leftarrow> check_packet inbuf csum ch (m(inbuf + cnt := 0)) s;
     if csum \<noteq> xmitcsum then getpacket inbuf m s else Some (m, s)
   }"

subsection \<open>Sending a packet\<close>

text \<open>A fragment: \<open>data\<close> are the bytes from the pointer on; \<open>len\<close> 0 stands for a string that ends with 0.\<close>

record outfrag =
  data :: "nat \<Rightarrow> nat"
  len :: nat
  hexify :: bool

definition frag_more :: "outfrag \<Rightarrow> nat \<Rightarrow> bool" where
  "frag_more f p = (if len f \<noteq> 0 then p < len f else data f p \<noteq> 0)"

definition frag_run :: "outfrag \<Rightarrow> nat \<Rightarrow> bool" where
  "frag_run f p \<longleftrightarrow>
     (len f = 0 \<or> p + (if hexify f then 1 else 3) < len f) \<and> data f (p + 1) = data f p \<and>
     (if hexify f then data f p div 16 = data f p mod 16
      else data f (p + 2) = data f p \<and> data f (p + 3) = data f p)"

text \<open>The loop that finds the end of a run, on the number \<open>limit - q\<close> of bytes left.\<close>

fun run_end :: "outfrag \<Rightarrow> nat \<Rightarrow> nat \<Rightarrow> nat \<Rightarrow> nat" where
  "run_end f p q 0 = q"
| "run_end f p q (Suc left) = (if data f q = data f p then run_end f p (q + 1) left else q)"

definition run_limit :: "outfrag \<Rightarrow> nat \<Rightarrow> nat" where
  "run_limit f p =
     (let limit = p + (if hexify f then 98 div 2 else 98)
      in if len f \<noteq> 0 \<and> len f < limit then len f else limit)"

text \<open>One round of the loop over a fragment: the characters sent and the new \<open>p\<close>.\<close>

definition frag_step :: "outfrag \<Rightarrow> nat \<Rightarrow> nat list \<times> nat" where
  "frag_step f p =
     (if frag_run f p then
        let q0 = p + (if hexify f then 2 else 4);
            q = run_end f p q0 (run_limit f p - q0);
            rl = (if hexify f then (q - p) * 2 else q - p)
        in ([if hexify f then hexchars (data f p mod 16) else data f p, 42, 29 + rl - 1], q)
      else if hexify f then ([hexchars (data f p div 16), hexchars (data f p mod 16)], p + 1)
      else ([data f p], p + 1))"

partial_function (option) send_frag :: "outfrag \<Rightarrow> nat \<Rightarrow> nat list option" where
  "send_frag f p =
     (if frag_more f p then do {
        let (cs, p) = frag_step f p;
        rest \<leftarrow> send_frag f p;
        Some (cs @ rest)
      }
      else Some [])"

fun send_frags :: "outfrag list \<Rightarrow> nat list option" where
  "send_frags [] = Some []"
| "send_frags (f # fs) = do { cs \<leftarrow> send_frag f 0; rest \<leftarrow> send_frags fs; Some (cs @ rest) }"

definition checksum :: "nat list \<Rightarrow> nat" where
  "checksum cs = foldl (\<lambda>s c. (s + c) mod 256) 0 cs"

definition packet :: "nat list \<Rightarrow> nat list" where
  "packet cs = [36] @ cs @ [35, hexchars (checksum cs div 16), hexchars (checksum cs mod 16)]"

partial_function (option) putfrags :: "outfrag list \<Rightarrow> gdb_io \<Rightarrow> gdb_io option" where
  "putfrags fs s = do {
     cs \<leftarrow> send_frags fs;
     let s = fold gdb_send (packet cs) s;
     (c, s) \<leftarrow> gdb_recv s;
     if c mod 128 \<noteq> 43 then putfrags fs s else Some s
   }"

declare run_end.simps [simp del]

subsection \<open>Hexadecimal text\<close>

definition hex_text :: "nat list \<Rightarrow> nat list" where
  "hex_text bs = concat (map (\<lambda>b. [hexchars (b div 16), hexchars (b mod 16)]) bs)"

lemma hex_text_simps [simp]:
  "hex_text [] = []"
  "hex_text (b # bs) = hexchars (b div 16) # hexchars (b mod 16) # hex_text bs"
  "hex_text (bs @ cs) = hex_text bs @ hex_text cs"
  "length (hex_text bs) = 2 * length bs"
  by (simp_all add: hex_text_def length_concat comp_def sum_list_triv)

lemma lt16_cases: "d < 16 \<Longrightarrow> d \<in> {0, 1, 2, 3, 4, 5, 6, 7, 8, 9, 10, 11, 12, 13, 14, 15 :: nat}"
  by (simp add: eval_nat_numeral less_Suc_eq)

lemma hexchars_range: "d < 16 \<Longrightarrow> hexchars d \<in> {48..57} \<union> {97..102}"
  by (drule lt16_cases) (auto simp: hexchars_def)

lemma hex_hexchars [simp]: "d < 16 \<Longrightarrow> hex (hexchars d) = int d"
  by (drule lt16_cases) (auto simp: hexchars_def hex_def)

lemma hexchars_not [simp]:
  "d < 16 \<Longrightarrow> c \<notin> {48..57} \<union> {97..102} \<Longrightarrow> hexchars d \<noteq> c"
  using hexchars_range [of d] by auto

lemma hex_range: "hex c = - 1 \<or> (0 \<le> hex c \<and> hex c < 16)"
  by (simp add: hex_def)

lemma hex_pair_byte: "hex_pair a b < 0 \<or> hex_pair a b < 256"
  using hex_range [of a] hex_range [of b] by (auto simp: hex_pair_def)

lemma hex_pair_digits [simp]:
  "b < 256 \<Longrightarrow> hex_pair (hexchars (b div 16)) (hexchars (b mod 16)) = int b"
  by (simp add: hex_pair_def less_mult_imp_div_less not_less zdiv_int zmod_int pos_imp_zdiv_nonneg_iff)

lemma set_hex_text: "\<forall>b\<in>set bs. b < 256 \<Longrightarrow> set (hex_text bs) \<subseteq> {48..57} \<union> {97..102}"
proof (induction bs)
  case (Cons b bs)
  then show ?case using hexchars_range [of "b div 16"] hexchars_range [of "b mod 16"]
    by (simp add: less_mult_imp_div_less)
qed simp

lemma hex2bin_text:
  "bytes_at m p (2 * length bs) = hex_text bs \<Longrightarrow> \<forall>b\<in>set bs. b < 256 \<Longrightarrow> hex2bin p (length bs) m = (0, bs)"
proof (induction bs arbitrary: p)
  case (Cons b bs)
  from Cons.prems have "m p = hexchars (b div 16)" "m (Suc p) = hexchars (b mod 16)"
    "bytes_at m (p + 2) (2 * length bs) = hex_text bs"
    by (simp_all add: bytes_at_Suc)
  with Cons show ?case by (simp add: Let_def)
qed simp

lemma hex2bin_bytes: "hex2bin p n m = (r, out) \<Longrightarrow> (\<forall>b\<in>set out. b < 256) \<and> length out \<le> n \<and> (r = 0 \<longrightarrow> length out = n) \<and> (r = 0 \<or> r = - 1)"
proof (induction p n m arbitrary: r out rule: hex2bin.induct)
  case (2 p n m)
  let ?ch = "hex_pair (m p) (m (p + 1))"
  show ?case
  proof (cases "?ch < 0")
    case False
    obtain r' out' where o: "hex2bin (p + 2) n m = (r', out')" by force
    with 2(2) False have "r = r'" "out = nat ?ch # out'" by (auto simp: Let_def)
    with 2(1) [OF refl False o] False hex_pair_byte [of "m p" "m (p + 1)"] show ?thesis by auto
  qed (use 2(2) in simp)
qed simp

subsection \<open>Received packets\<close>

text \<open>The text of a packet as the stub delimits it: a character \<open>#\<close> belongs to the text only behind a
  \<open>}\<close>, and \<open>}\<close> is not the last character. The first argument is the character before.\<close>

fun body_ok :: "nat \<Rightarrow> nat list \<Rightarrow> bool" where
  "body_ok prev [] \<longleftrightarrow> prev \<noteq> 125"
| "body_ok prev (c # cs) \<longleftrightarrow> (c = 35 \<longrightarrow> prev = 125) \<and> body_ok c cs"

lemma body_ok_plain: "35 \<notin> set cs \<Longrightarrow> 125 \<notin> set cs \<Longrightarrow> prev \<noteq> 125 \<Longrightarrow> body_ok prev cs"
  by (induction cs arbitrary: prev) auto

lemma wait_start_finds:
  "\<forall>c\<in>set junk. c mod 128 \<noteq> 36 \<Longrightarrow> rx s = junk @ 36 # r \<Longrightarrow> wait_start s = Some (s\<lparr>rx := r\<rparr>)"
proof (induction junk arbitrary: s)
  case Nil
  then show ?case by (subst wait_start.simps) (simp add: gdb_recv_def)
next
  case (Cons c junk)
  then show ?case by (subst wait_start.simps) (simp add: gdb_recv_def)
qed

lemma read_body_reads:
  assumes "body_ok prev cs" "n = 0 \<Longrightarrow> prev \<noteq> 125" "0 < n \<Longrightarrow> m (inbuf + (n - 1)) = prev"
    "n + length cs < BUFMAX" "rx s = cs @ 35 # r"
  shows "read_body inbuf n k ch m s
    = Some (n + length cs, foldl (\<lambda>s c. (s + c) mod 256) k cs, 35, store_bytes (inbuf + n) cs m, s\<lparr>rx := r\<rparr>)"
  using assms
proof (induction cs arbitrary: n k ch m s prev)
  case Nil
  then have "n = 0 \<or> m (inbuf + (n - 1)) \<noteq> 125" by auto
  with Nil show ?case by (subst read_body.simps) (simp add: gdb_recv_def)
next
  case (Cons c cs)
  have stop: "\<not> (c = 35 \<and> (n = 0 \<or> m (inbuf + (n - 1)) \<noteq> 125))" 
    using Cons.prems(1-3) by (cases "n = 0") auto
  have "read_body inbuf n k ch m s
      = read_body inbuf (n + 1) ((k + c) mod 256) c (m(inbuf + n := c)) (s\<lparr>rx := cs @ 35 # r\<rparr>)"
    using Cons.prems(4,5) stop by (subst read_body.simps) (auto simp: gdb_recv_def)
  also have "\<dots> = Some (n + 1 + length cs, foldl (\<lambda>s c. (s + c) mod 256) ((k + c) mod 256) cs, 35,
      store_bytes (inbuf + (n + 1)) cs (m(inbuf + n := c)), s\<lparr>rx := r\<rparr>)"
    using Cons.prems by (subst Cons.IH [of c]) simp_all
  finally show ?case by (simp add: store_bytes_Cons)
qed

lemma accept_packet_plain:
  "m (inbuf + 2) \<noteq> 58 \<Longrightarrow> accept_packet inbuf m s = Some (m, gdb_send 43 s)"
  by (simp add: accept_packet_def)

lemma getpacket_unfold:
  assumes "\<forall>c\<in>set junk. c mod 128 \<noteq> 36" "body_ok 0 cs" "length cs < BUFMAX"
    "rx s = junk @ 36 # cs @ 35 # h1 # h2 # r"
    "m' = store_bytes inbuf (cs @ [0]) m" "x = nat ((hex h1 * 16 + hex h2) mod 256)"
  shows "getpacket inbuf m s
    = (if checksum cs = x then accept_packet inbuf m' (s\<lparr>rx := r\<rparr>)
       else getpacket inbuf m' (gdb_send 45 (s\<lparr>rx := r\<rparr>)))"
proof -
  have w: "wait_start s = Some (s\<lparr>rx := cs @ 35 # h1 # h2 # r\<rparr>)"
    using assms(1,4) by (rule wait_start_finds)
  have b: "read_body inbuf 0 0 36 m (s\<lparr>rx := cs @ 35 # h1 # h2 # r\<rparr>)
      = Some (length cs, checksum cs, 35, store_bytes inbuf cs m, s\<lparr>rx := h1 # h2 # r\<rparr>)"
    using read_body_reads [of 0 cs 0 m inbuf "s\<lparr>rx := cs @ 35 # h1 # h2 # r\<rparr>" "h1 # h2 # r" 0 36] assms(2,3)
    by (simp add: checksum_def)
  have m': "(store_bytes inbuf cs m)(inbuf + length cs := 0) = m'"
    by (simp add: assms(5) store_bytes_append store_bytes_Cons)
  show ?thesis
    by (subst getpacket.simps) (simp add: w b m' check_packet_def gdb_recv_def assms(6) split: option.splits)
qed

lemma bytes_at_store_bytes' [simp]: "n = length bs \<Longrightarrow> bytes_at (store_bytes a bs m) a n = bs"
  by simp

lemma memory_outside:
  "a < inbuf \<or> inbuf + BUFMAX < a \<Longrightarrow> length cs < BUFMAX \<Longrightarrow> store_bytes inbuf (cs @ [0]) m a = m a"
  by (rule store_bytes_outside) auto

text \<open>Transmissions: noise without a start character, the text of the packet and the two check digits.\<close>

type_synonym transmission = "nat list \<times> nat list \<times> nat \<times> nat"

fun transmission :: "transmission \<Rightarrow> nat list" where
  "transmission (junk, cs, h1, h2) = junk @ 36 # cs @ [35, h1, h2]"

fun framed :: "transmission \<Rightarrow> bool" where
  "framed (junk, cs, h1, h2) \<longleftrightarrow> (\<forall>c\<in>set junk. c mod 128 \<noteq> 36) \<and> body_ok 0 cs \<and> length cs < BUFMAX"

fun intact :: "transmission \<Rightarrow> bool" where
  "intact (junk, cs, h1, h2) \<longleftrightarrow> checksum cs = nat ((hex h1 * 16 + hex h2) mod 256)"

lemma getpacket_refuses:
  assumes "\<forall>t\<in>set ts. framed t \<and> \<not> intact t" "rx s = concat (map transmission ts) @ r"
  shows "\<exists>m'. (\<forall>a. a < inbuf \<or> inbuf + BUFMAX < a \<longrightarrow> m' a = m a) \<and>
    getpacket inbuf m s = getpacket inbuf m' \<lparr>rx = r, tx = tx s @ replicate (length ts) 45\<rparr>"
  using assms
proof (induction ts arbitrary: m s)
  case Nil
  then show ?case by (intro exI [of _ m]) (cases s, simp)
next
  case (Cons t ts)
  obtain junk cs h1 h2 where t: "t = (junk, cs, h1, h2)" by (cases t)
  let ?m = "store_bytes inbuf (cs @ [0]) m"
  let ?s = "gdb_send 45 (s\<lparr>rx := concat (map transmission ts) @ r\<rparr>)"
  have step: "getpacket inbuf m s = getpacket inbuf ?m ?s"
    using getpacket_unfold [of junk cs s h1 h2 "concat (map transmission ts) @ r" ?m inbuf m "nat ((hex h1 * 16 + hex h2) mod 256)"]
      Cons.prems t by simp
  have out: "\<forall>a. a < inbuf \<or> inbuf + BUFMAX < a \<longrightarrow> ?m a = m a"
    using Cons.prems(1) t by (auto intro!: memory_outside)
  obtain m' where "\<forall>a. a < inbuf \<or> inbuf + BUFMAX < a \<longrightarrow> m' a = ?m a"
    "getpacket inbuf ?m ?s = getpacket inbuf m' \<lparr>rx = r, tx = tx ?s @ replicate (length ts) 45\<rparr>"
    using Cons.IH [of ?s ?m] Cons.prems(1) by (auto simp: gdb_send_def)
  then show ?case using step out by (intro exI [of _ m']) (simp add: gdb_send_def)
qed

lemma remove_sequence_moves:
  "i + length xs = n \<Longrightarrow> bytes_at m (buf + 3 + i) (length xs) = xs \<Longrightarrow>
    remove_sequence buf [3 + i..<3 + n] m = store_bytes (buf + i) xs m"
proof (induction xs arbitrary: i m)
  case (Cons x xs)
  from Cons.prems have x: "m (buf + 3 + i) = x" "bytes_at m (buf + 3 + Suc i) (length xs) = xs"
    by (simp_all add: bytes_at_Suc)
  let ?m = "m(buf + i := x)"
  have "bytes_at ?m (buf + 3 + Suc i) (length xs) = bytes_at m (buf + 3 + Suc i) (length xs)"
    by (rule bytes_at_cong) simp
  with x(2) have "remove_sequence buf [3 + Suc i..<3 + n] ?m = store_bytes (buf + Suc i) xs ?m"
    using Cons.prems(1) by (intro Cons.IH) (simp_all add: fun_upd_def)
  moreover have "remove_sequence buf [3 + i..<3 + n] m = remove_sequence buf [3 + Suc i..<3 + n] ?m"
    using Cons.prems(1) x(1) by (simp add: upt_conv_Cons add.assoc)
  ultimately show ?case by (simp add: store_bytes_Cons)
qed simp

lemma accept_packet_sequence:
  assumes "cstring m inbuf (a # b # 58 # cs)"
  shows "accept_packet inbuf m s
    = Some (store_bytes inbuf (cs @ [0]) m, gdb_send b (gdb_send a (gdb_send 43 s)))"
proof -
  note bytes = assms [unfolded cstring_iff, THEN conjunct2]
  have c: "m inbuf = a" "m (inbuf + 1) = b" "m (inbuf + 2) = 58" "bytes_at m (inbuf + 3 + 0) (length (cs @ [0])) = cs @ [0]"
    using bytes by (simp_all add: bytes_at_Suc numeral_eq_Suc)
  have "remove_sequence inbuf [3 + 0..<3 + length (cs @ [0])] m = store_bytes (inbuf + 0) (cs @ [0]) m"
    using c(4) by (intro remove_sequence_moves) simp_all
  moreover have "strlen inbuf m = Some (length cs + 3)" using strlen_length [OF assms] by simp
  ultimately show ?thesis using c by (simp add: accept_packet_def Let_def add.commute numeral_eq_Suc)
qed

lemma getpacket_once:
  assumes "framed (junk, cs, h1, h2)" "intact (junk, cs, h1, h2)" "rx s = transmission (junk, cs, h1, h2) @ r"
    and "store_bytes inbuf (cs @ [0]) m (inbuf + 2) \<noteq> 58"
  shows "getpacket inbuf m s = Some (store_bytes inbuf (cs @ [0]) m, \<lparr>rx = r, tx = tx s @ [43]\<rparr>)"
  using getpacket_unfold [of junk cs s h1 h2 r "store_bytes inbuf (cs @ [0]) m" inbuf m "nat ((hex h1 * 16 + hex h2) mod 256)"]
    assms by (simp add: accept_packet_plain gdb_send_def)

lemma getpacket_delivers:
  assumes "\<forall>t\<in>set ts. framed t \<and> \<not> intact t" "framed (junk, cs, h1, h2)" "intact (junk, cs, h1, h2)"
    and "3 \<le> length cs" "cs ! 2 \<noteq> 58"
    and "rx s = concat (map transmission ts) @ transmission (junk, cs, h1, h2) @ r"
  shows "\<exists>m'. getpacket inbuf m s = Some (m', \<lparr>rx = r, tx = tx s @ replicate (length ts) 45 @ [43]\<rparr>) \<and>
    bytes_at m' inbuf (length cs + 1) = cs @ [0] \<and> (\<forall>a. a < inbuf \<or> inbuf + BUFMAX < a \<longrightarrow> m' a = m a)"
proof -
  let ?s = "\<lparr>rx = transmission (junk, cs, h1, h2) @ r, tx = tx s @ replicate (length ts) 45\<rparr>"
  obtain m1 where m1: "\<forall>a. a < inbuf \<or> inbuf + BUFMAX < a \<longrightarrow> m1 a = m a" "getpacket inbuf m s = getpacket inbuf m1 ?s"
    using getpacket_refuses [OF assms(1) assms(6), of inbuf m] by auto
  let ?m = "store_bytes inbuf (cs @ [0]) m1"
  have c: "?m (inbuf + 2) \<noteq> 58"
    using assms(4,5) store_bytes_inside [of 2 "cs @ [0]" inbuf m1] by (simp add: nth_append)
  have "getpacket inbuf m1 ?s = Some (?m, \<lparr>rx = r, tx = tx ?s @ [43]\<rparr>)"
    by (rule getpacket_once [OF assms(2,3) _ c]) simp
  then show ?thesis using m1 assms(2) memory_outside [of _ inbuf cs m1]
    by (intro exI [of _ ?m]) simp
qed

subsection \<open>The buffer of a packet is not overrun\<close>

lemma read_body_bounds:
  assumes "read_body inbuf n k ch m s = Some (n', k', ch', m', s')" "n \<le> BUFMAX"
  shows "n' \<le> BUFMAX \<and> (\<forall>a. a < inbuf \<or> inbuf + BUFMAX \<le> a \<longrightarrow> m' a = m a)"
proof -
  let ?P = "\<lambda>inbuf n m (n', k', ch', m', s'). n \<le> BUFMAX \<longrightarrow>
      n' \<le> BUFMAX \<and> (\<forall>a. a < inbuf \<or> inbuf + BUFMAX \<le> a \<longrightarrow> m' a = m a)"
  have "?P inbuf n m (n', k', ch', m', s')"
  proof (rule read_body.raw_induct [of "\<lambda>inbuf n k ch m s r. ?P inbuf n m r", OF _ assms(1)], goal_cases)
    case (1 rb inbuf n k ch m s y)
    obtain n' k' ch' m' s' where y: "y = (n', k', ch', m', s')" by (cases y)
    show ?case
    proof (cases "n < BUFMAX \<and> (\<exists>c s1. gdb_recv s = Some (c, s1) \<and> \<not> (c = 35 \<and> (n = 0 \<or> m (inbuf + (n - 1)) \<noteq> 125)))")
      case True
      then obtain c s1 where c: "gdb_recv s = Some (c, s1)" "\<not> (c = 35 \<and> (n = 0 \<or> m (inbuf + (n - 1)) \<noteq> 125))" by blast
      have "rb inbuf (n + 1) ((k + c) mod 256) c (m(inbuf + n := c)) s1 = Some y"
        using 1(2) by (simp only: if_P [OF conjunct1 [OF True]] c(1) Option.bind.bind_lunit prod.case if_not_P [OF c(2)])
      from 1(1) [OF this] True y show ?thesis by auto
    next
      case False
      then have "n' = n \<and> m' = m" using 1(2) y by (auto simp: Option.bind_eq_Some_conv split: if_splits)
      then show ?thesis using y by simp
    qed
  qed
  then show ?thesis using assms(2) by simp
qed

lemma remove_sequence_outside:
  "\<forall>i\<in>set is. a \<noteq> buf + (i - 3) \<Longrightarrow> remove_sequence buf is m a = m a"
  by (induction "is" arbitrary: m) auto

lemma first_zero:
  assumes "m (p + n) = (0 :: nat)"
  obtains cs where "cstring m p cs" "length cs \<le> n"
proof -
  let ?k = "LEAST k. m (p + k) = 0"
  have z: "m (p + ?k) = 0" by (rule LeastI [of _ n]) (rule assms)
  have l: "?k \<le> n" by (rule Least_le) (rule assms)
  have "\<forall>i<?k. m (p + i) \<noteq> 0" using not_less_Least by blast
  then have "0 \<notin> set (bytes_at m p ?k)" by (auto simp: in_set_conv_nth)
  with z have "cstring m p (bytes_at m p ?k)" by (simp add: cstring_iff bytes_at_snoc)
  then show thesis by (rule that) (use l in simp)
qed

lemma accept_packet_bounds:
  assumes "accept_packet inbuf m s = Some (m', s')" "n \<le> BUFMAX" "m (inbuf + n) = 0"
  shows "(\<forall>a. a < inbuf \<or> inbuf + BUFMAX < a \<longrightarrow> m' a = m a) \<and> (\<exists>n\<le>BUFMAX. m' (inbuf + n) = 0)"
proof -
  obtain cs where cs: "cstring m inbuf cs" "length cs \<le> n" by (rule first_zero) (rule assms(3))
  have len: "strlen inbuf m = Some (length cs)" by (rule strlen_length) (rule cs(1))
  show ?thesis
  proof (cases "m (inbuf + 2) = 58")
    case False
    then show ?thesis using assms by (auto simp: accept_packet_def Let_def)
  next
    case True
    then have m': "m' = remove_sequence inbuf [3..<length cs + 1] m"
      using assms(1) len by (simp add: accept_packet_def Let_def)
    have out: "\<forall>a. a < inbuf \<or> inbuf + BUFMAX < a \<longrightarrow> m' a = m a"
      using assms(2) cs(2) unfolding m' by (intro allI impI remove_sequence_outside) auto
    show ?thesis
    proof (cases "length cs < 3")
      case True
      then have "m' (inbuf + n) = 0" using m' assms(3) by simp
      then show ?thesis using out assms(2) by blast
    next
      case False
      define xs where "xs = drop 3 cs @ [0]"
      have l: "length xs = length cs - 2" "3 + (length cs - 2) = length cs + 1" using False by (simp_all add: xs_def)
      have "cstring m (inbuf + 3) (drop 3 cs)" using cs(1) False by (intro cstring_drop) simp_all
      then have "bytes_at m (inbuf + 3 + 0) (length xs) = xs" using l by (simp add: xs_def cstring_iff)
      then have "m' = store_bytes inbuf xs m"
        using remove_sequence_moves [of 0 xs "length xs" m inbuf] l m' by simp
      then have "m' (inbuf + (length cs - 3)) = 0"
        using store_bytes_inside [of "length cs - 3" xs inbuf m] False by (simp add: xs_def nth_append)
      moreover have "length cs - 3 \<le> BUFMAX" using cs(2) assms(2) by simp
      ultimately show ?thesis using out by blast
    qed
  qed
qed

lemma check_packet_bounds:
  assumes "check_packet inbuf k ch m s = Some (x, m', s')" "n \<le> BUFMAX" "m (inbuf + n) = 0"
  shows "(\<forall>a. a < inbuf \<or> inbuf + BUFMAX < a \<longrightarrow> m' a = m a) \<and> (\<exists>n\<le>BUFMAX. m' (inbuf + n) = 0)"
proof -
  from assms(1) consider "m' = m" | s1 where "accept_packet inbuf m s1 = Some (m', s')"
    by (auto simp: check_packet_def Let_def Option.bind_eq_Some_conv split: if_splits)
  then show ?thesis
  proof cases
    case 2
    then show ?thesis using assms(2,3) by (rule accept_packet_bounds)
  qed (use assms(2,3) in auto)
qed

lemma getpacket_bounds:
  assumes "getpacket inbuf m s = Some (m', s')"
  shows "(\<forall>a. a < inbuf \<or> inbuf + BUFMAX < a \<longrightarrow> m' a = m a) \<and> (\<exists>n\<le>BUFMAX. m' (inbuf + n) = 0)"
proof -
  let ?P = "\<lambda>inbuf m (m', s'). (\<forall>a. a < inbuf \<or> inbuf + BUFMAX < a \<longrightarrow> m' a = m a) \<and> (\<exists>n\<le>BUFMAX. m' (inbuf + n) = 0)"
  have "?P inbuf m (m', s')"
  proof (rule getpacket.raw_induct [of "\<lambda>inbuf m s r. ?P inbuf m r", OF _ assms], goal_cases)
    case (1 gp inbuf m s y)
    from 1(2) obtain s1 n k ch m1 s2 x m2 s3 where r: "read_body inbuf 0 0 36 m s1 = Some (n, k, ch, m1, s2)"
      "check_packet inbuf k ch (m1(inbuf + n := 0)) s2 = Some (x, m2, s3)" "gp inbuf m2 s3 = Some y \<or> y = (m2, s3)"
      by (auto simp: Option.bind_eq_Some_conv split: if_splits)
    have n: "n \<le> BUFMAX" "\<forall>a. a < inbuf \<or> inbuf + BUFMAX < a \<longrightarrow> (m1(inbuf + n := 0)) a = m a"
      using read_body_bounds [OF r(1)] by auto
    have m2: "(\<forall>a. a < inbuf \<or> inbuf + BUFMAX < a \<longrightarrow> m2 a = m a) \<and> (\<exists>n\<le>BUFMAX. m2 (inbuf + n) = 0)"
      using check_packet_bounds [OF r(2) n(1)] n(2) by simp
    show ?case using r(3)
    proof
      assume "gp inbuf m2 s3 = Some y"
      from 1(1) [OF this] m2 show ?thesis by (cases y) auto
    qed (use m2 in auto)
  qed
  then show ?thesis by simp
qed

text \<open>no packet, whatever its bytes and length, makes \<open>getpacket\<close> write outside the \<open>BUFMAX + 1\<close> bytes of
  its buffer, and what it leaves there is a string that ends inside the buffer.\<close>

theorem getpacket_fits_buffer:
  assumes "getpacket inbuf m s = Some (m', s')"
  shows "(\<forall>a. a < inbuf \<or> inbuf + BUFMAX < a \<longrightarrow> m' a = m a) \<and> (\<exists>n\<le>BUFMAX. m' (inbuf + n) = 0)"
  using assms by (rule getpacket_bounds)

subsection \<open>Run-length encoding\<close>

text \<open>The receiver's reading of a packet: a character, \<open>*\<close> and a count \<open>n\<close> stand for \<open>n - 28\<close> copies of the
  character.\<close>

fun rle_expand :: "nat list \<Rightarrow> nat list" where
  "rle_expand (c # d # n # r) = (if d = 42 then replicate (n - 28) c @ rle_expand r else c # rle_expand (d # n # r))"
| "rle_expand r = r"

definition no_star :: "nat list \<Rightarrow> bool" where
  "no_star r \<longleftrightarrow> r = [] \<or> hd r \<noteq> 42"

lemma rle_expand_plain: "no_star r \<Longrightarrow> rle_expand (c # r) = c # rle_expand r"
  by (cases r rule: rle_expand.cases) (auto simp: no_star_def)

lemma no_star_append: "no_star xs \<Longrightarrow> no_star ys \<Longrightarrow> no_star (xs @ ys)"
  by (cases xs) (auto simp: no_star_def)

lemma no_star_Cons [simp]: "no_star (c # r) \<longleftrightarrow> c \<noteq> 42"
  by (simp add: no_star_def)

lemma no_star_Nil [simp]: "no_star []"
  by (simp add: no_star_def)

text \<open>\<open>frag_size f n\<close>: the fragment has \<open>n\<close> bytes. \<open>frag_text f p q\<close>: the text of its bytes from \<open>p\<close> to \<open>q\<close>.\<close>

definition frag_size :: "outfrag \<Rightarrow> nat \<Rightarrow> bool" where
  "frag_size f n \<longleftrightarrow> (if len f \<noteq> 0 then n = len f else data f n = 0 \<and> (\<forall>i<n. data f i \<noteq> 0))"

definition frag_text :: "outfrag \<Rightarrow> nat \<Rightarrow> nat \<Rightarrow> nat list" where
  "frag_text f p q = (let bs = bytes_at (data f) p (q - p) in if hexify f then hex_text bs else bs)"

definition frag_ok :: "outfrag \<Rightarrow> nat \<Rightarrow> bool" where
  "frag_ok f n \<longleftrightarrow> frag_size f n \<and> (\<forall>i<n. data f i < 256 \<and> (hexify f \<or> data f i \<noteq> 42))"

lemma frag_more_iff: "frag_size f n \<Longrightarrow> p \<le> n \<Longrightarrow> frag_more f p \<longleftrightarrow> p < n"
  by (cases "p = n") (auto simp: frag_size_def frag_more_def split: if_splits)

lemma frag_text_append:
  assumes "p \<le> q" "q \<le> n"
  shows "frag_text f p q @ frag_text f q n = frag_text f p n"
proof -
  have "bytes_at (data f) p (n - p) = bytes_at (data f) p (q - p) @ bytes_at (data f) q (n - q)"
    using bytes_at_add [of "data f" p "q - p" "n - q"] assms by simp
  then show ?thesis by (simp add: frag_text_def Let_def)
qed

lemma run_end_bounds:
  "q \<le> run_end f p q k \<and> run_end f p q k \<le> q + k \<and> (\<forall>i. q \<le> i \<and> i < run_end f p q k \<longrightarrow> data f i = data f p)"
proof (induction f p q k rule: run_end.induct)
  case (2 f p q left)
  show ?case
  proof (cases "data f q = data f p")
    case True
    have "data f i = data f p" if "q \<le> i" "i < run_end f p (q + 1) left" for i
      using 2 [OF True] True that by (cases "i = q") auto
    then show ?thesis using 2 [OF True] True by (simp add: run_end.simps)
  qed (simp add: run_end.simps)
qed (simp add: run_end.simps)

lemma hex_text_replicate:
  "b div 16 = b mod 16 \<Longrightarrow> hex_text (replicate k b) = replicate (2 * k) (hexchars (b mod 16))"
  by (induction k) simp_all

text \<open>A run: the end of the bytes that are replaced, and their number.\<close>

lemma frag_run_bounds:
  assumes "frag_run f p" "p < n" "frag_size f n"
  defines "w \<equiv> if hexify f then 2 else 4"
  defines "q \<equiv> run_end f p (p + w) (run_limit f p - (p + w))"
  shows "p + w \<le> q" "q \<le> n" "q \<le> p + (if hexify f then 49 else 98)" "bytes_at (data f) p (q - p) = replicate (q - p) (data f p)"
proof -
  note b = run_end_bounds [of "p + w" f p "run_limit f p - (p + w)", folded q_def]
  show pq: "p + w \<le> q" using b by blast
  have w: "\<forall>i<w. data f (p + i) = data f p"
    using assms(1) by (auto simp: frag_run_def w_def eval_nat_numeral less_Suc_eq)
  have same: "data f i = data f p" if "p \<le> i" "i < q" for i
  proof (cases "i < p + w")
    case True
    then show ?thesis using w [rule_format, of "i - p"] that(1) by simp
  next
    case False
    then show ?thesis using b that(2) by simp
  qed
  show "bytes_at (data f) p (q - p) = replicate (q - p) (data f p)"
  proof (rule nth_equalityI)
    fix i assume "i < length (bytes_at (data f) p (q - p))"
    then have "i < q - p" by simp
    with same [of "p + i"] show "bytes_at (data f) p (q - p) ! i = replicate (q - p) (data f p) ! i" by simp
  qed simp
  have lim: "run_limit f p \<le> p + (if hexify f then 49 else 98)" "len f \<noteq> 0 \<Longrightarrow> run_limit f p \<le> len f"
    "p + w \<le> run_limit f p"
    using assms(1) by (auto simp: run_limit_def w_def frag_run_def Let_def)
  then have q: "q \<le> run_limit f p" using b by auto
  then show "q \<le> p + (if hexify f then 49 else 98)" using lim(1) by linarith
  show "q \<le> n"
  proof (cases "len f = 0")
    case True
    then have "data f n = 0" "data f p \<noteq> 0" using assms(2,3) by (auto simp: frag_size_def)
    then show ?thesis using same [of n] assms(2) by fastforce
  qed (use q lim(2) assms(3) in \<open>auto simp: frag_size_def\<close>)
qed

lemma frag_step_text:
  assumes "frag_step f p = (cs, q)" "p < n" "frag_ok f n"
  shows "p < q \<and> q \<le> n \<and> no_star cs \<and> cs \<noteq> []
    \<and> (\<forall>r. no_star r \<longrightarrow> rle_expand (cs @ r) = frag_text f p q @ rle_expand r)"
proof -
  have size: "frag_size f n" and b: "data f p < 256" "hexify f \<or> data f p \<noteq> 42"
    using assms(2,3) by (auto simp: frag_ok_def)
  show ?thesis
  proof (cases "frag_run f p")
    case True
    note run = frag_run_bounds [OF True assms(2) size]
    let ?c = "if hexify f then hexchars (data f p mod 16) else data f p"
    let ?rl = "if hexify f then (q - p) * 2 else q - p"
    have step: "q = run_end f p (p + (if hexify f then 2 else 4)) (run_limit f p - (p + (if hexify f then 2 else 4)))"
      "cs = [?c, 42, 29 + ?rl - 1]"
      using assms(1) True by (auto simp: frag_step_def Let_def)
    note q = run [folded step(1)]
    have "frag_text f p q = replicate ?rl ?c"
      using True q(4) by (auto simp: frag_text_def frag_run_def hex_text_replicate mult.commute)
    then show ?thesis using q(1,2) step(2) b by auto
  next
    case False
    then have "q = p + 1" "cs = (if hexify f then hex_text [data f p] else [data f p])"
      using assms(1) by (auto simp: frag_step_def split: if_splits)
    then show ?thesis using assms(2) b
      by (auto simp add: frag_text_def bytes_at_Suc rle_expand_plain less_mult_imp_div_less)
  qed
qed

lemma send_frag_text:
  assumes "frag_ok f n" "p \<le> n"
  shows "\<exists>cs. send_frag f p = Some cs \<and> no_star cs
    \<and> (\<forall>r. no_star r \<longrightarrow> rle_expand (cs @ r) = frag_text f p n @ rle_expand r)"
  using assms(2)
proof (induction "n - p" arbitrary: p rule: less_induct)
  case less
  have more: "frag_more f p \<longleftrightarrow> p < n" using frag_more_iff less.prems assms(1) by (auto simp: frag_ok_def)
  show ?case
  proof (cases "p < n")
    case True
    obtain cs q where step: "frag_step f p = (cs, q)" by (cases "frag_step f p")
    note s = frag_step_text [OF step True assms(1)]
    have "n - q < n - p" "q \<le> n" using s True by auto
    from less.hyps [OF this] obtain ds where ds: "send_frag f q = Some ds" "no_star ds"
      "\<forall>r. no_star r \<longrightarrow> rle_expand (ds @ r) = frag_text f q n @ rle_expand r" by blast
    have "send_frag f p = Some (cs @ ds)" using more True step ds(1) by (subst send_frag.simps) simp
    moreover have "frag_text f p n = frag_text f p q @ frag_text f q n"
      using frag_text_append [of p q n f] s by simp
    ultimately show ?thesis using s ds by (intro exI [of _ "cs @ ds"]) (simp add: no_star_append)
  next
    case False
    then show ?thesis using more less.prems
      by (subst send_frag.simps) (simp add: frag_text_def)
  qed
qed

text \<open>What the characters of a packet can be. A hexadecimal fragment has digits, \<open>*\<close> and even counts.\<close>

lemma hexchars_byte [simp]: "d < 16 \<Longrightarrow> hexchars d < 256"
  using hexchars_range [of d] by auto

lemma frag_step_chars:
  assumes "frag_step f p = (cs, q)" "p < n" "frag_ok f n"
  shows "(\<forall>c\<in>set cs. c < 256) \<and> (hexify f \<longrightarrow> 35 \<notin> set cs \<and> 125 \<notin> set cs)"
proof (cases "frag_run f p")
  case True
  have size: "frag_size f n" "data f p < 256" using assms(2,3) by (auto simp: frag_ok_def)
  let ?w = "if hexify f then 2 else 4"
  have step: "q = run_end f p (p + ?w) (run_limit f p - (p + ?w))"
    "cs = [if hexify f then hexchars (data f p mod 16) else data f p, 42, 28 + (if hexify f then (q - p) * 2 else q - p)]"
    using assms(1) True by (auto simp: frag_step_def Let_def)
  have "q \<le> p + (if hexify f then 49 else 98)"
    using frag_run_bounds(3) [OF True assms(2) size(1)] step(1) by simp
  then have "28 + (if hexify f then (q - p) * 2 else q - p) \<le> 126" by (simp split: if_splits)
  moreover have "28 + (q - p) * 2 \<noteq> 35" "28 + (q - p) * 2 \<noteq> 125" by presburger+
  ultimately show ?thesis using step(2) size(2) by auto
next
  case False
  then have "cs = (if hexify f then hex_text [data f p] else [data f p])" "data f p < 256"
    using assms by (auto simp: frag_step_def frag_ok_def split: if_splits)
  then show ?thesis by (auto simp: less_mult_imp_div_less dest: sym)
qed

lemma send_frag_chars:
  assumes "frag_ok f n" "p \<le> n" "send_frag f p = Some cs"
  shows "(\<forall>c\<in>set cs. c < 256) \<and> (hexify f \<longrightarrow> 35 \<notin> set cs \<and> 125 \<notin> set cs)"
  using assms(2,3)
proof (induction "n - p" arbitrary: p cs rule: less_induct)
  case less
  have more: "frag_more f p \<longleftrightarrow> p < n" using frag_more_iff less.prems assms(1) by (auto simp: frag_ok_def)
  show ?case
  proof (cases "p < n")
    case True
    obtain as q where step: "frag_step f p = (as, q)" by (cases "frag_step f p")
    obtain ds where ds: "send_frag f q = Some ds" "cs = as @ ds"
      using less.prems(2) True more step by (subst (asm) send_frag.simps) (auto simp: Option.bind_eq_Some_conv)
    have q: "n - q < n - p" "q \<le> n" using frag_step_text [OF step True assms(1)] True by auto
    from less.hyps [OF q ds(1)] frag_step_chars [OF step True assms(1)] ds(2) show ?thesis by auto
  next
    case False
    then show ?thesis using more less.prems(2) by (subst (asm) send_frag.simps) simp
  qed
qed

lemma send_frags_text:
  assumes "list_all2 frag_ok fs ns"
  shows "\<exists>cs. send_frags fs = Some cs \<and> no_star cs \<and> (\<forall>c\<in>set cs. c < 256)
    \<and> ((\<forall>f\<in>set fs. hexify f) \<longrightarrow> 35 \<notin> set cs \<and> 125 \<notin> set cs)
    \<and> (\<forall>r. no_star r \<longrightarrow> rle_expand (cs @ r) = concat (map2 (\<lambda>f n. frag_text f 0 n) fs ns) @ rle_expand r)"
  using assms
proof (induction fs ns rule: list_all2_induct)
  case (Cons f fs n ns)
  obtain as where as: "send_frag f 0 = Some as" "no_star as"
    "\<forall>r. no_star r \<longrightarrow> rle_expand (as @ r) = frag_text f 0 n @ rle_expand r"
    using send_frag_text [OF Cons(1), of 0] by blast
  obtain ds where ds: "send_frags fs = Some ds" "no_star ds" "\<forall>c\<in>set ds. c < 256"
    "(\<forall>f\<in>set fs. hexify f) \<longrightarrow> 35 \<notin> set ds \<and> 125 \<notin> set ds"
    "\<forall>r. no_star r \<longrightarrow> rle_expand (ds @ r) = concat (map2 (\<lambda>f n. frag_text f 0 n) fs ns) @ rle_expand r"
    using Cons.IH by blast
  note c = send_frag_chars [OF Cons(1) _ as(1)]
  show ?case by (intro exI [of _ "as @ ds"]) (use as ds c in \<open>auto simp: no_star_append\<close>)
qed simp

lemma checksum_byte [simp]: "checksum cs < 256"
  by (cases cs rule: rev_cases) (simp_all add: checksum_def)

lemma fold_gdb_send: "\<forall>c\<in>set cs. c < 256 \<Longrightarrow> fold gdb_send cs s = s\<lparr>tx := tx s @ cs\<rparr>"
  by (induction cs arbitrary: s) (simp_all add: gdb_send_def)

lemma packet_bytes: "\<forall>c\<in>set cs. c < 256 \<Longrightarrow> \<forall>c\<in>set (packet cs). c < 256"
  by (auto simp: packet_def less_mult_imp_div_less)

lemma putfrags_repeats:
  assumes "send_frags fs = Some cs" "\<forall>c\<in>set cs. c < 256" "\<forall>c\<in>set nacks. c mod 128 \<noteq> 43" "c mod 128 = 43"
    and "rx s = nacks @ c # r"
  shows "putfrags fs s = Some \<lparr>rx = r, tx = tx s @ concat (replicate (length nacks + 1) (packet cs))\<rparr>"
  using assms(3,5)
proof (induction nacks arbitrary: s)
  case Nil
  then show ?case using assms(1,4) fold_gdb_send [OF packet_bytes [OF assms(2)], of s]
    by (subst putfrags.simps) (simp add: gdb_recv_def)
next
  case (Cons n nacks)
  have "putfrags fs s = putfrags fs \<lparr>rx = nacks @ c # r, tx = tx s @ packet cs\<rparr>"
    using Cons.prems assms(1) fold_gdb_send [OF packet_bytes [OF assms(2)], of s]
    by (subst putfrags.simps) (cases s, simp add: gdb_recv_def)
  then show ?case using Cons by simp
qed

lemma putfrags_text:
  assumes "list_all2 frag_ok fs ns" "\<forall>c\<in>set nacks. c mod 128 \<noteq> 43" "c mod 128 = 43" "rx s = nacks @ c # r"
  shows "\<exists>cs. putfrags fs s = Some \<lparr>rx = r, tx = tx s @ concat (replicate (length nacks + 1) (packet cs))\<rparr>
    \<and> rle_expand cs = concat (map2 (\<lambda>f n. frag_text f 0 n) fs ns)
    \<and> ((\<forall>f\<in>set fs. hexify f) \<longrightarrow> body_ok 0 cs)"
proof -
  obtain cs where cs: "send_frags fs = Some cs" "\<forall>c\<in>set cs. c < 256"
    "(\<forall>f\<in>set fs. hexify f) \<longrightarrow> 35 \<notin> set cs \<and> 125 \<notin> set cs"
    "\<forall>r. no_star r \<longrightarrow> rle_expand (cs @ r) = concat (map2 (\<lambda>f n. frag_text f 0 n) fs ns) @ rle_expand r"
    using send_frags_text [OF assms(1)] by blast
  then show ?thesis using putfrags_repeats [OF cs(1,2) assms(2-4)] cs(4) [rule_format, of "[]"]
    by (intro exI [of _ cs]) (simp add: body_ok_plain)
qed

text \<open>a reply is sent again until it is acknowledged, and then the stub goes on; whatever the fragments
  are, reading the run-length encoded packet gives exactly their text (the two hexadecimal digits of each byte,
  or the plain characters). A packet of hexadecimal fragments never holds a \<open>#\<close> or a \<open>}\<close>, so it ends where the
  receiver sees its end.\<close>

theorem putfrags_sends_text:
  assumes "list_all2 frag_ok fs ns" "\<forall>c\<in>set nacks. c mod 128 \<noteq> 43" "c mod 128 = 43" "rx s = nacks @ c # r"
  shows "\<exists>cs. putfrags fs s = Some \<lparr>rx = r, tx = tx s @ concat (replicate (length nacks + 1) (packet cs))\<rparr>
    \<and> rle_expand cs = concat (map2 (\<lambda>f n. frag_text f 0 n) fs ns)
    \<and> ((\<forall>f\<in>set fs. hexify f) \<longrightarrow> body_ok 0 cs)"
  using assms by (rule putfrags_text)

definition sample_frag :: outfrag where
  "sample_frag = \<lparr>data = (\<lambda>i. [17, 17, 17, 35] ! i), len = 4, hexify = True\<rparr>"

lemma sample_frag_ok: "frag_ok sample_frag 4"
proof -
  have "data sample_frag i < 256" if "i < 4" for i
  proof -
    have "i = 0 \<or> i = 1 \<or> i = 2 \<or> i = 3" using that by linarith
    then show ?thesis by (elim disjE) (simp_all add: sample_frag_def)
  qed
  then show ?thesis by (simp add: frag_ok_def frag_size_def sample_frag_def)
qed

theorem putfrags_sends_text_witness:
  "\<exists>cs. putfrags [sample_frag] \<lparr>rx = [45, 43], tx = []\<rparr> = Some \<lparr>rx = [], tx = packet cs @ packet cs\<rparr>
    \<and> rle_expand cs = hex_text [17, 17, 17, 35] \<and> body_ok 0 cs"
proof -
  have "\<exists>cs. putfrags [sample_frag] \<lparr>rx = [45, 43], tx = []\<rparr>
      = Some \<lparr>rx = [], tx = [] @ concat (replicate (length [45 :: nat] + 1) (packet cs))\<rparr>
    \<and> rle_expand cs = concat (map2 (\<lambda>f n. frag_text f 0 n) [sample_frag] [4])
    \<and> ((\<forall>f\<in>set [sample_frag]. hexify f) \<longrightarrow> body_ok 0 cs)"
    using putfrags_sends_text [of "[sample_frag]" "[4]" "[45]" 43 "\<lparr>rx = [45, 43], tx = []\<rparr>" "[]"] sample_frag_ok by simp
  moreover have "frag_text sample_frag 0 4 = hex_text [17, 17, 17, 35]"
    by (simp add: frag_text_def sample_frag_def bytes_at_def upt_rec)
  moreover have "hexify sample_frag" by (simp add: sample_frag_def)
  ultimately show ?thesis by simp
qed

subsection \<open>Packets between two stubs\<close>

lemma intact_packet: "intact (junk, cs, hexchars (checksum cs div 16), hexchars (checksum cs mod 16))"
proof -
  have "checksum cs div 16 < 16" by (simp add: less_mult_imp_div_less)
  then have "hex (hexchars (checksum cs div 16)) * 16 + hex (hexchars (checksum cs mod 16)) = int (checksum cs)"
    by (simp add: zdiv_int zmod_int)
  then show ?thesis by (simp only: intact.simps) simp
qed



subsection \<open>Where the encoding and the framing go wrong\<close>

text \<open>the count character of a run of four equal bytes with equal digits is \<open>$\<close>, the start character of
  packets, in the middle of the text: such a fragment (a register that holds 0, say) makes a packet in which a
  second packet seems to start.\<close>

theorem zero_register_sends_start_character:
  assumes "hexify f" "len f = 4" "b < 256" "b div 16 = b mod 16" "\<forall>i<4. data f i = b" "c mod 128 = 43" "rx s = c # r"
  shows "putfrags [f] s = Some \<lparr>rx = r, tx = tx s @ packet [hexchars (b mod 16), 42, 36]\<rparr>"
proof -
  have d: "data f 0 = b" "data f (Suc 0) = b" "data f 2 = b" "data f 3 = b" using assms(5) by auto
  have "run_end f 0 (Suc (Suc 0)) 2 = 4" using d by (simp add: run_end.simps eval_nat_numeral)
  then have "frag_step f 0 = ([hexchars (b mod 16), 42, 36], 4)"
    using assms(1,2,4) d by (simp add: frag_step_def frag_run_def run_limit_def)
  then have "send_frags [f] = Some [hexchars (b mod 16), 42, 36]"
    using assms(2) by (simp add: send_frag.simps frag_more_def)
  then show ?thesis using putfrags_repeats [of "[f]" "[hexchars (b mod 16), 42, 36]" "[]" c s r] assms(6,7) by simp
qed

theorem zero_register_sends_start_character_witness:
  "putfrags [\<lparr>data = (\<lambda>_. 0), len = 4, hexify = True\<rparr>] \<lparr>rx = [43], tx = []\<rparr>
    = Some \<lparr>rx = [], tx = [36, 48, 42, 36, 35, 55, 101]\<rparr>"
proof -
  have "putfrags [\<lparr>data = (\<lambda>_. 0), len = 4, hexify = True\<rparr>] \<lparr>rx = [43], tx = []\<rparr>
    = Some \<lparr>rx = [], tx = tx \<lparr>rx = [43], tx = []\<rparr> @ packet [hexchars (0 mod 16), 42, 36]\<rparr>"
    by (rule zero_register_sends_start_character) simp_all
  then show ?thesis by (simp add: packet_def checksum_def hexchars_def)
qed

text \<open>the test for a sequence number looks at the third byte of the buffer even where the packet is shorter.
  A command of one character behind which an earlier content of the buffer (bytes of memory read for the
  debugger, say) has left a \<open>:\<close> in the third byte is answered by \<open>+\<close>, the command and a 0.\<close>

theorem stale_sequence_mark:
  assumes "framed (junk, [c], h1, h2)" "intact (junk, [c], h1, h2)" "m (inbuf + 2) = 58" "c \<noteq> 0" "c < 256"
    and "rx s = transmission (junk, [c], h1, h2) @ r"
  shows "getpacket inbuf m s = Some (store_bytes inbuf [c, 0] m, \<lparr>rx = r, tx = tx s @ [43, c, 0]\<rparr>)"
proof -
  let ?m = "store_bytes inbuf [c, 0] m"
  have m: "?m (inbuf + 2) = 58" "?m inbuf = c" "?m (inbuf + 1) = 0" "cstring ?m inbuf [c]"
    using assms(3,4) by (simp_all add: store_bytes_def)
  have "getpacket inbuf m s = accept_packet inbuf ?m (s\<lparr>rx := r\<rparr>)"
    using getpacket_unfold [of junk "[c]" s h1 h2 r ?m inbuf m "nat ((hex h1 * 16 + hex h2) mod 256)"] assms(1,2,6)
    by simp
  also have "\<dots> = Some (?m, \<lparr>rx = r, tx = tx s @ [43, c, 0]\<rparr>)"
    using m strlen_length [OF m(4)] assms(5) by (simp add: accept_packet_def gdb_send_def Let_def)
  finally show ?thesis .
qed

theorem stale_sequence_mark_witness:
  "getpacket 0 (\<lambda>_. 58) \<lparr>rx = [36, 103, 35, 54, 55], tx = []\<rparr>
    = Some (store_bytes 0 [103, 0] (\<lambda>_. 58), \<lparr>rx = [], tx = [43, 103, 0]\<rparr>)"
  using stale_sequence_mark [of "[]" 103 54 55 "\<lambda>_. 58" 0 "\<lparr>rx = [36, 103, 35, 54, 55], tx = []\<rparr>" "[]"]
  by (simp add: BUFMAX_def checksum_def hex_def)

end
