(* ===== verification/Gdb_Memory.thy ===== *)
theory Gdb_Memory
  imports Kmem
begin

unbundle bit_operations_syntax

text \<open>
  Access of the remote debugger stub to the memory of the debugged program (\<^verbatim>\<open>kernel/gdb_serial_support.c\<close>).

  Addresses and table entries (\<open>unsigned long\<close>) are 32-bit words. While the functions copy, paging is off, so
  memory is the physical memory. A block that would run over the end of the address space is \<open>None\<close>. The
  stub keeps the registers \<open>cr0\<close> and \<open>cr3\<close> of the program in \<open>client\<close>.
\<close>

record client =
  client_cr0 :: "32 word"
  client_cr3 :: "32 word"

definition copy_client_paging_registers :: "32 word \<Rightarrow> 32 word \<Rightarrow> 32 word \<Rightarrow> client \<Rightarrow> client" where
  "copy_client_paging_registers cr0 cr3 cr4 c = c\<lparr>client_cr0 := cr0, client_cr3 := cr3\<rparr>"

subsection \<open>The translation of an address\<close>

definition INTEL_OFFMASK :: "32 word" where "INTEL_OFFMASK = 0xfff"
definition INTEL_PTE_VALID :: "32 word" where "INTEL_PTE_VALID = 1"
definition INTEL_PDE_VALID :: "32 word" where "INTEL_PDE_VALID = 1"
definition INTEL_PDE_SUPERPAGE :: "32 word" where "INTEL_PDE_SUPERPAGE = 0x80"
definition INTEL_PTE_PFN :: "32 word" where "INTEL_PTE_PFN = 0xfffff000"
definition INTEL_PDE_PFN :: "32 word" where "INTEL_PDE_PFN = 0xfffff000"
definition SUPERPAGE_SIZE :: "32 word" where "SUPERPAGE_SIZE = push_bit 22 1"
definition SUPERPAGE_MASK :: "32 word" where "SUPERPAGE_MASK = SUPERPAGE_SIZE - 1"

definition lin2pdenum :: "32 word \<Rightarrow> 32 word" where
  "lin2pdenum a = drop_bit 22 a AND 0x3ff"

definition lin2ptenum :: "32 word \<Rightarrow> 32 word" where
  "lin2ptenum a = drop_bit 12 a AND 0x3ff"

definition pte_to_pa :: "32 word \<Rightarrow> 32 word" where
  "pte_to_pa p = p AND INTEL_PTE_PFN"

definition pde_to_pa :: "32 word \<Rightarrow> 32 word" where
  "pde_to_pa p = p AND INTEL_PDE_PFN"

definition trunc_superpage :: "32 word \<Rightarrow> 32 word" where
  "trunc_superpage x = x AND NOT SUPERPAGE_MASK"

text \<open>\<open>phys_addr_lookup\<close>: the physical address and the size of the rest of the page, \<open>None\<close> where \<open>*len\<close> is 0.\<close>

definition phys_addr_lookup :: "client \<Rightarrow> 32 word \<Rightarrow> memory \<Rightarrow> (32 word \<times> 32 word) option" where
  "phys_addr_lookup c vaddr m =
     (let pd = pde_to_pa (client_cr3 c);
          pde = word_at m (unat pd + 4 * unat (lin2pdenum vaddr))
      in if client_cr0 c AND 0x80000000 = 0 then Some (vaddr, 0xffffffff)
         else if pde AND INTEL_PDE_VALID = 0 then None
         else if pde AND INTEL_PDE_SUPERPAGE = 0 then
           (let pt = pde_to_pa pde;
                pte = word_at m (unat pt + 4 * unat (lin2ptenum vaddr));
                offs = vaddr AND INTEL_OFFMASK
            in if pte AND INTEL_PTE_VALID = 0 then None
               else Some (pte_to_pa pte + offs, INTEL_OFFMASK + 1 - offs))
         else
           (let offs = vaddr AND SUPERPAGE_MASK
            in Some (trunc_superpage pde + offs, SUPERPAGE_SIZE - offs)))"

subsection \<open>Copying\<close>

text \<open>The loops stop because a translated piece is never empty.\<close>

function gdb_copyin :: "client \<Rightarrow> 32 word \<Rightarrow> nat \<Rightarrow> nat \<Rightarrow> memory \<Rightarrow> (int \<times> memory) option" where
  "gdb_copyin c src_va dest_buf len m =
     (if len = 0 then Some (0, m)
      else case phys_addr_lookup c src_va m of
        None \<Rightarrow> Some (- 1, m)
      | Some (pa, sz) \<Rightarrow>
          if sz = 0 then Some (- 1, m)
          else
            (let sz = (if unat sz > len then len else unat sz)
             in if unat pa + sz > 2 ^ 32 then None
                else gdb_copyin c (src_va + of_nat sz) (dest_buf + sz) (len - sz) (snd (memcpy dest_buf (unat pa) sz m))))"
  by pat_completeness auto
termination
  by (relation "measure (\<lambda>(c, src_va, dest_buf, len, m). len)") (auto simp: unat_gt_0)

function gdb_copyout :: "client \<Rightarrow> nat \<Rightarrow> 32 word \<Rightarrow> nat \<Rightarrow> memory \<Rightarrow> (int \<times> memory) option" where
  "gdb_copyout c src_buf dest_va len m =
     (if len = 0 then Some (0, m)
      else case phys_addr_lookup c dest_va m of
        None \<Rightarrow> Some (- 1, m)
      | Some (pa, sz) \<Rightarrow>
          if sz = 0 then Some (- 1, m)
          else
            (let sz = (if unat sz > len then len else unat sz)
             in if unat pa + sz > 2 ^ 32 then None
                else gdb_copyout c (src_buf + sz) (dest_va + of_nat sz) (len - sz) (snd (memcpy (unat pa) src_buf sz m))))"
  by pat_completeness auto
termination
  by (relation "measure (\<lambda>(c, src_buf, dest_va, len, m). len)") (auto simp: unat_gt_0)

declare gdb_copyin.simps [simp del] gdb_copyout.simps [simp del]

subsection \<open>The translation of the processor\<close>

text \<open>The specification: the translation of one linear address by the i386 with 4 MB pages enabled, in
  arithmetic.\<close>

definition mmu :: "client \<Rightarrow> memory \<Rightarrow> 32 word \<Rightarrow> nat option" where
  "mmu c m va =
     (let a = unat va;
          pde = unat (word_at m (unat (client_cr3 c) div 4096 * 4096 + 4 * (a div 2 ^ 22)));
          pte = unat (word_at m (pde div 4096 * 4096 + 4 * (a div 4096 mod 1024)))
      in if unat (client_cr0 c) < 2 ^ 31 then Some a
         else if even pde then None
         else if even (pde div 128) then
           (if even pte then None else Some (pte div 4096 * 4096 + a mod 4096))
         else Some (pde div 2 ^ 22 * 2 ^ 22 + a mod 2 ^ 22))"

lemma unat_and_mask [simp]: "unat ((w :: 32 word) AND mask n) = unat w mod 2 ^ n"
  unfolding take_bit_eq_mask [symmetric] take_bit_eq_mod [symmetric] by (rule unsigned_take_bit_eq)

lemma unat_and_not_mask: "unat ((w :: 32 word) AND NOT (mask n)) = unat w div 2 ^ n * 2 ^ n"
proof -
  have "unat w div 2 ^ n * 2 ^ n \<le> unat w" by simp
  then have "unat w div 2 ^ n * 2 ^ n < 2 ^ 32" by (rule le_less_trans) (rule unat_bound)
  then have "take_bit 32 (push_bit n (unat w div 2 ^ n)) = unat w div 2 ^ n * 2 ^ n"
    unfolding push_bit_eq_mult by (rule take_bit_nat_eq_self)
  then have "unat (push_bit n (drop_bit n w)) = unat w div 2 ^ n * 2 ^ n"
    by (simp add: unsigned_push_bit_eq unat_drop_bit)
  moreover have "w AND NOT (mask n) = push_bit n (drop_bit n w)"
    by (rule bit_word_eqI) (auto simp: bit_simps)
  ultimately show ?thesis by simp
qed

lemma masks:
  "INTEL_OFFMASK = mask 12" "SUPERPAGE_MASK = mask 22" "INTEL_PTE_PFN = NOT (mask 12)" "INTEL_PDE_PFN = NOT (mask 12)"
  "(0x3ff :: 32 word) = mask 10" "SUPERPAGE_SIZE = 2 ^ 22"
  by (simp_all add: INTEL_OFFMASK_def SUPERPAGE_MASK_def SUPERPAGE_SIZE_def INTEL_PTE_PFN_def INTEL_PDE_PFN_def
      mask_eq_decr_exp push_bit_eq_mult)

lemma lin2pdenum_div: "unat (lin2pdenum a) = unat a div 2 ^ 22"
proof -
  have "unat a div 2 ^ 22 < 2 ^ 10" using unat_bound [of a] by (simp add: less_mult_imp_div_less)
  then show ?thesis by (simp add: lin2pdenum_def masks unat_drop_bit)
qed

lemma lin2ptenum_div: "unat (lin2ptenum a) = unat a div 4096 mod 1024"
  by (simp add: lin2ptenum_def masks unat_drop_bit)

lemma and_bit_zero: "n < 32 \<Longrightarrow> (w :: 32 word) AND 2 ^ n = 0 \<longleftrightarrow> even (unat w div 2 ^ n)"
  using bit_unsigned_iff [of w n, where ?'a = nat]
  by (simp add: and_exp_eq_0_iff_not_bit) (simp add: bit_iff_odd)

lemma bit_tests:
  "w AND INTEL_PTE_VALID = 0 \<longleftrightarrow> even (unat w)" "w AND INTEL_PDE_VALID = 0 \<longleftrightarrow> even (unat w)"
  "w AND INTEL_PDE_SUPERPAGE = 0 \<longleftrightarrow> even (unat w div 128)" "w AND 0x80000000 = 0 \<longleftrightarrow> unat w < 2 ^ 31"
proof -
  show "w AND INTEL_PTE_VALID = 0 \<longleftrightarrow> even (unat w)" "w AND INTEL_PDE_VALID = 0 \<longleftrightarrow> even (unat w)"
    "w AND INTEL_PDE_SUPERPAGE = 0 \<longleftrightarrow> even (unat w div 128)"
    using and_bit_zero [of 0 w] and_bit_zero [of 7 w]
    by (simp_all add: INTEL_PTE_VALID_def INTEL_PDE_VALID_def INTEL_PDE_SUPERPAGE_def)
  have "unat w div 2 ^ 31 < 2" using unat_bound [of w] by (simp add: less_mult_imp_div_less)
  then have "even (unat w div 2 ^ 31) \<longleftrightarrow> unat w div 2 ^ 31 = 0" by auto
  then show "w AND 0x80000000 = 0 \<longleftrightarrow> unat w < 2 ^ 31" using and_bit_zero [of 31 w] by (simp add: div_eq_0_iff)
qed

lemma within_block:
  assumes "i < k - a mod k"
  shows "(a + i) div k = a div k" "(a + i) mod k = a mod k + (i :: nat)"
proof -
  have k: "0 < k" "a mod k + i < k" using assms by auto
  have "a + i = (a mod k + i) + k * (a div k)" by simp
  then have "(a + i) div k = (a mod k + i) div k + a div k" "(a + i) mod k = (a mod k + i) mod k"
    using k(1) by (metis div_mult_self2 add.commute less_not_refl, metis mod_mult_self2)
  then show "(a + i) div k = a div k" "(a + i) mod k = a mod k + i" using k by simp_all
qed

lemma unat_add_small: "unat (a :: 32 word) + n < 2 ^ 32 \<Longrightarrow> unat (a + of_nat n) = unat a + n"
proof -
  assume b: "unat a + n < 2 ^ 32"
  then have "n < 2 ^ 32" by linarith
  then have "unat (of_nat n :: 32 word) = n" by (simp add: unat_of_nat)
  then show ?thesis using b unat_add_lem [of a "of_nat n"] by simp
qed

lemma unat_frame:
  assumes "n \<le> 32"
  shows "unat (((p :: 32 word) AND NOT (mask n)) + (a AND mask n)) = unat p div 2 ^ n * 2 ^ n + unat a mod 2 ^ n"
proof -
  have split: "2 ^ 32 = (2 :: nat) ^ (32 - n) * 2 ^ n" using assms by (simp flip: power_add)
  have "unat p div 2 ^ n < 2 ^ (32 - n)"
    using unat_bound [of p] by (intro less_mult_imp_div_less) (simp only: split)
  then have "unat p div 2 ^ n + 1 \<le> 2 ^ (32 - n)" by simp
  then have "(unat p div 2 ^ n + 1) * 2 ^ n \<le> 2 ^ 32" unfolding split by (rule mult_le_mono1)
  moreover have "unat a mod 2 ^ n < 2 ^ n" by simp
  ultimately have "unat p div 2 ^ n * 2 ^ n + unat a mod 2 ^ n < 2 ^ 32" unfolding add_mult_distrib by linarith
  then show ?thesis
    using unat_add_lem [of "p AND NOT (mask n)" "a AND mask n"] by (simp add: unat_and_not_mask)
qed

lemma unat_rest: "n < 32 \<Longrightarrow> unat ((2 :: 32 word) ^ n - (a AND mask n)) = 2 ^ n - unat a mod 2 ^ n"
proof -
  assume n: "n < 32"
  then have "(2 :: nat) ^ n < 2 ^ 32" by (rule power_strict_increasing) simp
  then have p: "unat ((2 :: 32 word) ^ n) = 2 ^ n" using unat_of_nat [of "2 ^ n", where ?'a = 32] by simp
  then have "a AND mask n \<le> 2 ^ n" by (simp add: word_le_nat_alt less_imp_le)
  then show ?thesis using p by (simp add: unat_sub)
qed

text \<open>The two entries that a translation reads.\<close>

definition pde_of :: "client \<Rightarrow> 32 word \<Rightarrow> memory \<Rightarrow> 32 word" where
  "pde_of c va m = word_at m (unat (client_cr3 c) div 4096 * 4096 + 4 * (unat va div 2 ^ 22))"

definition pte_of :: "client \<Rightarrow> 32 word \<Rightarrow> memory \<Rightarrow> 32 word" where
  "pte_of c va m = word_at m (unat (pde_of c va m) div 4096 * 4096 + 4 * (unat va div 4096 mod 1024))"

lemma mmu_entries:
  "mmu c m va =
     (if unat (client_cr0 c) < 2 ^ 31 then Some (unat va)
      else if even (unat (pde_of c va m)) then None
      else if even (unat (pde_of c va m) div 128) then
        (if even (unat (pte_of c va m)) then None
         else Some (unat (pte_of c va m) div 2 ^ 12 * 2 ^ 12 + unat va mod 2 ^ 12))
      else Some (unat (pde_of c va m) div 2 ^ 22 * 2 ^ 22 + unat va mod 2 ^ 22))"
  by (simp add: mmu_def pde_of_def pte_of_def Let_def)

lemma phys_addr_lookup_entries:
  "phys_addr_lookup c va m =
     (if unat (client_cr0 c) < 2 ^ 31 then Some (va, 0xffffffff)
      else if even (unat (pde_of c va m)) then None
      else if even (unat (pde_of c va m) div 128) then
        (if even (unat (pte_of c va m)) then None
         else Some ((pte_of c va m AND NOT (mask 12)) + (va AND mask 12), 2 ^ 12 - (va AND mask 12)))
      else Some ((pde_of c va m AND NOT (mask 22)) + (va AND mask 22), 2 ^ 22 - (va AND mask 22)))"
proof -
  have pd: "word_at m (unat (pde_to_pa (client_cr3 c)) + 4 * unat (lin2pdenum va)) = pde_of c va m"
    by (simp add: pde_of_def pde_to_pa_def masks unat_and_not_mask lin2pdenum_div)
  have pt: "word_at m (unat (pde_to_pa (pde_of c va m)) + 4 * unat (lin2ptenum va)) = pte_of c va m"
    by (simp add: pte_of_def pde_to_pa_def masks unat_and_not_mask lin2ptenum_div)
  have one: "mask 12 + 1 = (2 :: 32 word) ^ 12" by (simp add: mask_eq_decr_exp)
  show ?thesis
    unfolding phys_addr_lookup_def Let_def pd pt bit_tests pte_to_pa_def trunc_superpage_def masks one by simp
qed

lemma entries_same_page:
  assumes "unat va' div 2 ^ 12 = unat va div 2 ^ 12"
  shows "pde_of c va' m = pde_of c va m" "pte_of c va' m = pte_of c va m"
proof -
  have "unat va' div 2 ^ 12 div 2 ^ 10 = unat va div 2 ^ 12 div 2 ^ 10" using assms by simp
  then have "unat va' div 2 ^ 22 = unat va div 2 ^ 22" by (simp flip: div_mult2_eq)
  then show pde: "pde_of c va' m = pde_of c va m" by (simp add: pde_of_def)
  then show "pte_of c va' m = pte_of c va m" using assms by (simp add: pte_of_def)
qed

lemma lookup_None: "phys_addr_lookup c va m = None \<longleftrightarrow> mmu c m va = None"
  unfolding phys_addr_lookup_entries mmu_entries by simp

lemma lookup_Some:
  assumes "phys_addr_lookup c va m = Some (pa, len)"
  shows "0 < unat len" "i < unat len \<Longrightarrow> unat va + i < 2 ^ 32 \<Longrightarrow> mmu c m (va + of_nat i) = Some (unat pa + i)"
proof -
  consider (off) "unat (client_cr0 c) < 2 ^ 31"
    | (small) "\<not> unat (client_cr0 c) < 2 ^ 31" "odd (unat (pde_of c va m))" "even (unat (pde_of c va m) div 128)"
        "odd (unat (pte_of c va m))"
    | (big) "\<not> unat (client_cr0 c) < 2 ^ 31" "odd (unat (pde_of c va m))" "odd (unat (pde_of c va m) div 128)"
    using assms unfolding phys_addr_lookup_entries by (auto split: if_splits)
  then show "0 < unat len" "i < unat len \<Longrightarrow> unat va + i < 2 ^ 32 \<Longrightarrow> mmu c m (va + of_nat i) = Some (unat pa + i)"
  proof (atomize (full), cases)
    case off
    then show "0 < unat len \<and> (i < unat len \<longrightarrow> unat va + i < 2 ^ 32 \<longrightarrow> mmu c m (va + of_nat i) = Some (unat pa + i))"
      using assms by (auto simp: phys_addr_lookup_entries mmu_entries unat_add_small)
  next
    case small
    then have p: "pa = (pte_of c va m AND NOT (mask 12)) + (va AND mask 12)" "len = 2 ^ 12 - (va AND mask 12)"
      using assms by (simp_all add: phys_addr_lookup_entries)
    have len: "unat len = 2 ^ 12 - unat va mod 2 ^ 12" unfolding p(2) by (rule unat_rest) simp
    have "mmu c m (va + of_nat i) = Some (unat pa + i)" if i: "i < unat len" "unat va + i < 2 ^ 32"
    proof -
      note w = within_block [of i "2 ^ 12" "unat va", folded len, OF i(1)]
      have va: "unat (va + of_nat i) = unat va + i" by (rule unat_add_small) (rule i(2))
      have "unat (va + of_nat i) div 2 ^ 12 = unat va div 2 ^ 12" unfolding va by (rule w(1))
      note e = entries_same_page [OF this, of c m]
      have "unat pa = unat (pte_of c va m) div 2 ^ 12 * 2 ^ 12 + unat va mod 2 ^ 12"
        unfolding p(1) by (rule unat_frame) simp
      then show ?thesis unfolding mmu_entries e va w using small by simp
    qed
    moreover have "unat va mod 2 ^ 12 < 2 ^ 12" by simp
    ultimately show "0 < unat len \<and> (i < unat len \<longrightarrow> unat va + i < 2 ^ 32 \<longrightarrow> mmu c m (va + of_nat i) = Some (unat pa + i))"
      using len by simp
  next
    case big
    then have p: "pa = (pde_of c va m AND NOT (mask 22)) + (va AND mask 22)" "len = 2 ^ 22 - (va AND mask 22)"
      using assms by (simp_all add: phys_addr_lookup_entries)
    have len: "unat len = 2 ^ 22 - unat va mod 2 ^ 22" unfolding p(2) by (rule unat_rest) simp
    have "mmu c m (va + of_nat i) = Some (unat pa + i)" if i: "i < unat len" "unat va + i < 2 ^ 32"
    proof -
      note w = within_block [of i "2 ^ 22" "unat va", folded len, OF i(1)]
      have va: "unat (va + of_nat i) = unat va + i" by (rule unat_add_small) (rule i(2))
      have e: "pde_of c (va + of_nat i) m = pde_of c va m" unfolding pde_of_def va w(1) ..
      have "unat pa = unat (pde_of c va m) div 2 ^ 22 * 2 ^ 22 + unat va mod 2 ^ 22"
        unfolding p(1) by (rule unat_frame) simp
      then show ?thesis unfolding mmu_entries e va w using big by simp
    qed
    moreover have "unat va mod 2 ^ 22 < 2 ^ 22" by simp
    ultimately show "0 < unat len \<and> (i < unat len \<longrightarrow> unat va + i < 2 ^ 32 \<longrightarrow> mmu c m (va + of_nat i) = Some (unat pa + i))"
      using len by simp
  qed
qed

lemma mmu_bound: "mmu c m va = Some a \<Longrightarrow> a < 2 ^ 32"
proof -
  assume a: "mmu c m va = Some a"
  have "unat (p AND NOT (mask n) + 0) \<le> unat p" for p :: "32 word" and n
    by (simp add: unat_and_not_mask)
  have b: "unat p div 2 ^ n * 2 ^ n + unat va mod 2 ^ n < 2 ^ 32" if "n \<le> 32" for p :: "32 word" and n
    unfolding unat_frame [OF that, symmetric] by (rule unat_bound)
  show ?thesis
    using a b [of 12 "pte_of c va m"] b [of 22 "pde_of c va m"] unat_bound [of va]
    unfolding mmu_entries by (auto split: if_splits)
qed

subsection \<open>Copies are translated byte by byte\<close>

text \<open>\<open>stable c m D\<close>: the tables that the translation reads lie outside \<open>D\<close>.\<close>

definition stable :: "client \<Rightarrow> memory \<Rightarrow> nat set \<Rightarrow> bool" where
  "stable c m D \<longleftrightarrow> (\<forall>m'. (\<forall>a. a \<notin> D \<longrightarrow> m' a = m a) \<longrightarrow> mmu c m' = mmu c m)"

text \<open>\<open>mapped c m va n k f\<close>: of the \<open>n\<close> bytes from \<open>va\<close> on, the first \<open>k\<close> are mapped, byte \<open>i\<close> to \<open>f i\<close>, and the
  next one, if it belongs to the block, is not.\<close>

definition mapped :: "client \<Rightarrow> memory \<Rightarrow> 32 word \<Rightarrow> nat \<Rightarrow> nat \<Rightarrow> (nat \<Rightarrow> nat) \<Rightarrow> bool" where
  "mapped c m va n k f \<longleftrightarrow> k \<le> n \<and> unat va + n \<le> 2 ^ 32
     \<and> (\<forall>i<k. mmu c m (va + of_nat i) = Some (f i)) \<and> (k < n \<longrightarrow> mmu c m (va + of_nat k) = None)"

definition store_at :: "(nat \<times> nat) list \<Rightarrow> memory \<Rightarrow> memory" where
  "store_at ps m = fold (\<lambda>(a, b) m. m(a := b)) ps m"

lemma store_at_simps [simp]:
  "store_at [] m = m" "store_at ((a, b) # ps) m = store_at ps (m(a := b))"
  "store_at (ps @ qs) m = store_at qs (store_at ps m)"
  by (simp_all add: store_at_def)

lemma store_at_outside: "a \<notin> fst ` set ps \<Longrightarrow> store_at ps m a = m a"
  by (induction ps arbitrary: m) auto

lemma store_at_inside: "distinct (map fst ps) \<Longrightarrow> (a, b) \<in> set ps \<Longrightarrow> store_at ps m a = b"
proof (induction ps arbitrary: m)
  case (Cons p ps)
  show ?case
  proof (cases "p = (a, b)")
    case True
    then have "a \<notin> fst ` set ps" using Cons.prems(1) by auto
    then show ?thesis using True by (simp add: store_at_outside)
  qed (use Cons in \<open>cases p; auto\<close>)
qed simp

lemma store_bytes_store_at: "store_bytes s bs m = store_at (zip [s..<s + length bs] bs) m"
proof (induction bs arbitrary: s m)
  case (Cons b bs)
  then show ?case by (simp add: store_bytes_Cons upt_conv_Cons fun_upd_def del: upt_Suc)
qed simp

text \<open>One round of a copy: the piece that is translated at once.\<close>

lemma piece:
  assumes "mapped c m va n k f" "0 < k" "phys_addr_lookup c va m = Some (pa, len)"
  defines "z \<equiv> if unat len > n then n else unat len"
  shows "0 < z" "z \<le> k" "unat pa + z \<le> 2 ^ 32" "\<forall>i<z. f i = unat pa + i"
    "mapped c m (va + of_nat z) (n - z) (k - z) (\<lambda>i. f (z + i))"
proof -
  note m = assms(1) [unfolded mapped_def]
  show z: "0 < z" using lookup_Some(1) [OF assms(3)] assms(2) m by (simp add: z_def)
  have zn: "z \<le> n" by (simp add: z_def)
  have tr: "mmu c m (va + of_nat i) = Some (unat pa + i)" if "i < z" for i
    using lookup_Some(2) [OF assms(3), of i] that m z_def by (auto split: if_splits)
  show zk: "z \<le> k"
  proof (rule ccontr)
    assume "\<not> z \<le> k"
    then show False using tr [of k] m zn by auto
  qed
  show f: "\<forall>i<z. f i = unat pa + i" using tr m zk by auto
  have "unat pa + (z - 1) < 2 ^ 32" using tr [of "z - 1"] z by (intro mmu_bound) auto
  then show "unat pa + z \<le> 2 ^ 32" using z by linarith
  have "unat (va + of_nat z) + (n - z) \<le> 2 ^ 32"
  proof (cases "z = n")
    case True
    then show ?thesis using unat_bound [of "va + of_nat z"] by simp
  next
    case False
    then have "unat va + z < 2 ^ 32" using m zn by linarith
    then show ?thesis using unat_add_small [of va z] m zn by simp
  qed
  moreover have e: "va + of_nat z + of_nat i = va + of_nat (z + i)" for i by simp
  have "mmu c m (va + of_nat z + of_nat i) = Some (f (z + i))" if "i < k - z" for i
    unfolding e using m that by (simp del: of_nat_add)
  moreover have "mmu c m (va + of_nat z + of_nat (k - z)) = None" if "k - z < n - z"
    unfolding e using m that zk by simp
  ultimately show "mapped c m (va + of_nat z) (n - z) (k - z) (\<lambda>i. f (z + i))"
    using m by (simp add: mapped_def diff_le_mono)
qed

lemma lookup_mapped:
  assumes "mapped c m va n k f"
  shows "0 < k \<Longrightarrow> \<exists>pa len. phys_addr_lookup c va m = Some (pa, len)"
    and "k = 0 \<Longrightarrow> 0 < n \<Longrightarrow> phys_addr_lookup c va m = None"
proof -
  assume "0 < k"
  then have "mmu c m (va + of_nat 0) = Some (f 0)" using assms unfolding mapped_def by blast
  then have "phys_addr_lookup c va m \<noteq> None" by (simp add: lookup_None)
  then show "\<exists>pa len. phys_addr_lookup c va m = Some (pa, len)" by force
qed (use assms in \<open>simp add: lookup_None mapped_def\<close>)

lemma mapped_stable:
  assumes "stable c m0 D" "\<forall>a. a \<notin> D \<longrightarrow> m a = m0 a"
  shows "mapped c m va n k f \<longleftrightarrow> mapped c m0 va n k f"
proof -
  have "mmu c m = mmu c m0" using assms unfolding stable_def by blast
  then show ?thesis by (simp add: mapped_def)
qed

text \<open>The loops, for memories that differ from the original one in \<open>D\<close> only.\<close>

lemma gdb_copyin_loop:
  assumes "stable c m0 D" "\<forall>a. a \<notin> D \<longrightarrow> m a = m0 a" "mapped c m0 va n k f" "\<forall>i<k. f i \<notin> D" "{dest..<dest + n} \<subseteq> D"
  shows "gdb_copyin c va dest n m = Some (if k = n then 0 else - 1, store_bytes dest (map (\<lambda>i. m0 (f i)) [0..<k]) m)"
  using assms(2-5)
proof (induction n arbitrary: va dest k f m rule: less_induct)
  case (less n)
  have mp: "mapped c m va n k f" using mapped_stable [OF assms(1) less.prems(1)] less.prems(2) by simp
  show ?case
  proof (cases "k = 0")
    case True
    then show ?thesis using True lookup_mapped(2) [OF mp] by (cases "n = 0") (simp_all add: gdb_copyin.simps)
  next
    case False
    then obtain pa len where look: "phys_addr_lookup c va m = Some (pa, len)" using lookup_mapped(1) [OF mp] by blast
    define z where "z = (if unat len > n then n else unat len)"
    note p = piece [OF mp _ look, folded z_def]
    have z: "0 < z" "z \<le> k" "unat pa + z \<le> 2 ^ 32" "\<forall>i<z. f i = unat pa + i" "k \<le> n"
      using p False mp by (auto simp: mapped_def)
    have same: "k - z = n - z \<longleftrightarrow> k = n" using z by linarith
    let ?bs = "map (\<lambda>i. m0 (f i)) [0..<z]"
    have apart: "dest \<le> unat pa \<or> unat pa + z \<le> dest"
    proof (rule ccontr)
      assume "\<not> ?thesis"
      then have "dest - unat pa < z" "f (dest - unat pa) = dest" using z(4) by auto
      then have "dest \<notin> D" using less.prems(3) z(2) by (metis less_le_trans)
      moreover have "dest \<in> D" using less.prems(4) z(1,2,5) by (auto simp: subset_iff)
      ultimately show False by simp
    qed
    have "bytes_at m (unat pa) z = ?bs"
    proof (rule nth_equalityI)
      fix i assume "i < length (bytes_at m (unat pa) z)"
      then have "i < z" by simp
      have "f i \<notin> D" using \<open>i < z\<close> z(2) less.prems(3) by simp
      moreover have "f i = unat pa + i" using \<open>i < z\<close> z(4) by simp
      ultimately have "f i = unat pa + i" "unat pa + i \<notin> D" by simp_all
      then show "bytes_at m (unat pa) z ! i = ?bs ! i" using \<open>i < z\<close> less.prems(1) by simp
    qed simp
    then have copy: "snd (memcpy dest (unat pa) z m) = store_bytes dest ?bs m"
      using memcpy_copies [OF apart, of m] by simp
    have "gdb_copyin c va dest n m = gdb_copyin c (va + of_nat z) (dest + z) (n - z) (store_bytes dest ?bs m)"
      using look lookup_Some(1) [OF look] z False copy
      by (subst gdb_copyin.simps) (auto simp: Let_def z_def [symmetric])
    also have "\<dots> = Some (if k - z = n - z then 0 else - 1,
        store_bytes (dest + z) (map (\<lambda>i. m0 (f (z + i))) [0..<k - z]) (store_bytes dest ?bs m))"
    proof (rule less.IH)
      show "n - z < n" using z by simp
      show "\<forall>a. a \<notin> D \<longrightarrow> store_bytes dest ?bs m a = m0 a"
      proof (intro allI impI)
        fix a assume a: "a \<notin> D"
        have "a < dest \<or> dest + length ?bs \<le> a"
        proof (rule ccontr)
          assume "\<not> ?thesis"
          then have "a \<in> {dest..<dest + n}" using z(2,5) by simp
          then show False using a less.prems(4) by blast
        qed
        then show "store_bytes dest ?bs m a = m0 a" using a less.prems(1) by simp
      qed
      show "mapped c m0 (va + of_nat z) (n - z) (k - z) (\<lambda>i. f (z + i))"
        using mapped_stable [OF assms(1) less.prems(1)] p(5) z by simp
      show "\<forall>i<k - z. f (z + i) \<notin> D" using less.prems(3) z by simp
      show "{dest + z..<dest + z + (n - z)} \<subseteq> D" using less.prems(4) z by auto
    qed
    also have "store_bytes (dest + z) (map (\<lambda>i. m0 (f (z + i))) [0..<k - z]) (store_bytes dest ?bs m)
        = store_bytes dest (map (\<lambda>i. m0 (f i)) [0..<k]) m"
    proof -
      have "[0..<k] = [0..<z] @ map (\<lambda>i. z + i) [0..<k - z]"
        using z by (intro nth_equalityI) (auto simp: nth_append)
      then show ?thesis by (simp add: store_bytes_append comp_def)
    qed
    finally show ?thesis using same by simp
  qed
qed

lemma gdb_copyout_loop:
  assumes "stable c m0 D" "\<forall>a. a \<notin> D \<longrightarrow> m a = m0 a" "mapped c m0 va n k f" "\<forall>i<k. f i \<in> D" "{src..<src + n} \<inter> D = {}"
  shows "gdb_copyout c src va n m
    = Some (if k = n then 0 else - 1, store_at (map (\<lambda>i. (f i, m0 (src + i))) [0..<k]) m)"
  using assms(2-5)
proof (induction n arbitrary: va src k f m rule: less_induct)
  case (less n)
  have mp: "mapped c m va n k f" using mapped_stable [OF assms(1) less.prems(1)] less.prems(2) by simp
  show ?case
  proof (cases "k = 0")
    case True
    then show ?thesis using True lookup_mapped(2) [OF mp] by (cases "n = 0") (simp_all add: gdb_copyout.simps)
  next
    case False
    then obtain pa len where look: "phys_addr_lookup c va m = Some (pa, len)" using lookup_mapped(1) [OF mp] by blast
    define z where "z = (if unat len > n then n else unat len)"
    note p = piece [OF mp _ look, folded z_def]
    have z: "0 < z" "z \<le> k" "unat pa + z \<le> 2 ^ 32" "\<forall>i<z. f i = unat pa + i" "k \<le> n"
      using p False mp by (auto simp: mapped_def)
    have same: "k - z = n - z \<longleftrightarrow> k = n" using z by linarith
    let ?ps = "map (\<lambda>i. (f i, m0 (src + i))) [0..<z]"
    have free: "src + i \<notin> D" if "i < n" for i using less.prems(4) that by (auto simp: disjoint_iff)
    have apart: "unat pa \<le> src \<or> src + z \<le> unat pa"
    proof (rule ccontr)
      assume "\<not> ?thesis"
      then have "unat pa - src < z" "src + (unat pa - src) = unat pa" by auto
      then have "unat pa \<notin> D" using free [of "unat pa - src"] z by simp
      moreover have "unat pa \<in> D" using less.prems(3) z by (metis add_0_right less_le_trans)
      ultimately show False by simp
    qed
    have "bytes_at m src z = map (\<lambda>i. m0 (src + i)) [0..<z]"
      using less.prems(1) free z by (intro nth_equalityI) simp_all
    moreover have "zip [unat pa..<unat pa + z] (map (\<lambda>i. m0 (src + i)) [0..<z]) = ?ps"
      using z(4) by (intro nth_equalityI) simp_all
    ultimately have copy: "snd (memcpy (unat pa) src z m) = store_at ?ps m"
      using memcpy_copies [OF apart, of m] by (simp add: store_bytes_store_at)
    have "gdb_copyout c src va n m = gdb_copyout c (src + z) (va + of_nat z) (n - z) (store_at ?ps m)"
      using look lookup_Some(1) [OF look] z False copy
      by (subst gdb_copyout.simps) (auto simp: Let_def z_def [symmetric])
    also have "\<dots> = Some (if k - z = n - z then 0 else - 1,
        store_at (map (\<lambda>i. (f (z + i), m0 (src + z + i))) [0..<k - z]) (store_at ?ps m))"
    proof (rule less.IH)
      show "n - z < n" using z by simp
      have "fst ` set ?ps \<subseteq> D" using less.prems(3) z(2) by auto
      then show "\<forall>a. a \<notin> D \<longrightarrow> store_at ?ps m a = m0 a"
      proof (intro allI impI)
        fix a assume a: "a \<notin> D"
        then have "a \<notin> fst ` set ?ps" using \<open>fst ` set ?ps \<subseteq> D\<close> by (rule contra_subsetD [rotated])
        then have "store_at ?ps m a = m a" by (rule store_at_outside)
        then show "store_at ?ps m a = m0 a" using a less.prems(1) by simp
      qed
      show "mapped c m0 (va + of_nat z) (n - z) (k - z) (\<lambda>i. f (z + i))"
        using mapped_stable [OF assms(1) less.prems(1)] p(5) z by simp
      show "\<forall>i<k - z. f (z + i) \<in> D" using less.prems(3) z by simp
      show "{src + z..<src + z + (n - z)} \<inter> D = {}" using less.prems(4) z by (auto simp: disjoint_iff)
    qed
    also have "store_at (map (\<lambda>i. (f (z + i), m0 (src + z + i))) [0..<k - z]) (store_at ?ps m)
        = store_at (map (\<lambda>i. (f i, m0 (src + i))) [0..<k]) m"
    proof -
      have "[0..<k] = [0..<z] @ map (\<lambda>i. z + i) [0..<k - z]"
        using z by (intro nth_equalityI) (auto simp: nth_append)
      then show ?thesis by (simp add: comp_def add.assoc)
    qed
    finally show ?thesis using same by simp
  qed
qed

lemma gdb_copyin_mapped:
  assumes "mapped c m va n k f" "stable c m {dest..<dest + n}" "\<forall>i<k. f i < dest \<or> dest + n \<le> f i"
  shows "gdb_copyin c va dest n m
    = Some (if k = n then 0 else - 1, store_bytes dest (map (\<lambda>i. m (f i)) [0..<k]) m)"
  by (rule gdb_copyin_loop [OF assms(2) _ assms(1)]) (use assms(3) in \<open>auto simp: not_less\<close>)

lemma gdb_copyout_mapped:
  assumes "mapped c m va n k f" "stable c m (f ` {..<k})" "\<forall>i<k. f i < src \<or> src + n \<le> f i"
  shows "gdb_copyout c src va n m
    = Some (if k = n then 0 else - 1, store_at (map (\<lambda>i. (f i, m (src + i))) [0..<k]) m)"
proof (rule gdb_copyout_loop [OF assms(2) _ assms(1)])
  show "{src..<src + n} \<inter> f ` {..<k} = {}" using assms(3) by fastforce
qed auto

subsection \<open>Properties\<close>

text \<open>C25: \<open>gdb_copyin\<close>, which translates page by page, reads what the processor's translation of each single
  address gives: of a block of which the first \<open>k\<close> bytes are mapped it copies exactly these, and it returns 0 when
  they are all and -1 otherwise. The buffer must not hold the page tables or the bytes read.\<close>

theorem gdb_copyin_translates:
  assumes "mapped c m va n k f" "stable c m {dest..<dest + n}" "\<forall>i<k. f i < dest \<or> dest + n \<le> f i"
  shows "gdb_copyin c va dest n m
    = Some (if k = n then 0 else - 1, store_bytes dest (map (\<lambda>i. m (f i)) [0..<k]) m)"
  using assms by (rule gdb_copyin_mapped)

text \<open>When the tables are outside \<open>D\<close>: the directory page, and the page of every table that the directory names.\<close>

lemma page_index: "j < 1024 \<Longrightarrow> i < 4 \<Longrightarrow> 4 * j + i < (4096 :: nat)"
  by linarith

lemma page_entry: "{p..<p + 4096} \<inter> D = {} \<Longrightarrow> j < 1024 \<Longrightarrow> i < 4 \<Longrightarrow> p + 4 * j + i \<notin> (D :: nat set)"
  by (metis (no_types, lifting) IntI add.assoc add_less_cancel_left atLeastLessThan_iff empty_iff le_add1 page_index)

lemma stableI:
  assumes "{unat (client_cr3 c) div 4096 * 4096..<unat (client_cr3 c) div 4096 * 4096 + 4096} \<inter> D = {}"
    and "\<forall>va. odd (unat (pde_of c va m)) \<longrightarrow>
      {unat (pde_of c va m) div 4096 * 4096..<unat (pde_of c va m) div 4096 * 4096 + 4096} \<inter> D = {}"
  shows "stable c m D"
proof -
  have "mmu c m' va = mmu c m va" if m': "\<forall>a. a \<notin> D \<longrightarrow> m' a = m a" for m' va
  proof -
    have "unat va div 2 ^ 22 < 1024" using unat_bound [of va] by (intro less_mult_imp_div_less) simp
    note e = page_entry [OF assms(1) this]
    have pde: "pde_of c va m' = pde_of c va m"
      using m' e unfolding pde_of_def by (intro word_at_cong) simp
    have "unat va div 4096 mod 1024 < 1024" by simp
    note t = page_entry [OF assms(2) [rule_format] this]
    have "odd (unat (pde_of c va m)) \<Longrightarrow> pte_of c va m' = pte_of c va m"
      using m' t unfolding pte_of_def pde by (intro word_at_cong) simp
    then show ?thesis using pde by (auto simp: mmu_entries)
  qed
  then show ?thesis unfolding stable_def by (intro allI impI ext)
qed

text \<open>Page tables for the instances: the directory at \<open>0x1000\<close> with one table at \<open>0x2000\<close>, which maps page 5 to
  \<open>0x7000\<close> and page 6 to \<open>0x3000\<close>; no other page is mapped.\<close>

definition sample_client :: client where
  "sample_client = \<lparr>client_cr0 = 0x80000001, client_cr3 = 0x1000\<rparr>"

definition sample_tables :: memory where
  "sample_tables a =
     (if 0x1000 \<le> a \<and> a < 0x3000
      then (if a = 0x1000 \<or> a = 0x2014 \<or> a = 0x2018 then 1
            else if a = 0x1001 then 0x20 else if a = 0x2015 then 0x70 else if a = 0x2019 then 0x30 else 0)
      else a mod 256)"

definition sample_frames :: "nat \<Rightarrow> nat" where
  "sample_frames i = (if i < 2 then 0x7ffe + i else 0x3000 + (i - 2))"

lemma sample_client_simps [simp]: "client_cr0 sample_client = 0x80000001" "client_cr3 sample_client = 0x1000"
  by (simp_all add: sample_client_def)

lemma sample_pde: "pde_of sample_client va sample_tables = (if unat va div 2 ^ 22 = 0 then 0x2001 else 0)"
proof -
  have "unat va div 2 ^ 22 < 1024" using unat_bound [of va] by (intro less_mult_imp_div_less) simp
  then show ?thesis by (auto simp: pde_of_def word_at_def sample_tables_def)
qed

lemma sample_stable: "{0x1000..<0x3000} \<inter> D = {} \<Longrightarrow> stable sample_client sample_tables D"
  by (rule stableI) (auto simp: sample_pde disjoint_iff)

lemma sample_mmu: "unat va div 4096 = 5 \<Longrightarrow> mmu sample_client sample_tables va = Some (0x7000 + unat va mod 4096)"
  "unat va div 4096 = 6 \<Longrightarrow> mmu sample_client sample_tables va = Some (0x3000 + unat va mod 4096)"
proof -
  have d: "unat va div 4194304 = unat va div 4096 div 1024" by (simp flip: div_mult2_eq)
  show "unat va div 4096 = 5 \<Longrightarrow> mmu sample_client sample_tables va = Some (0x7000 + unat va mod 4096)"
    "unat va div 4096 = 6 \<Longrightarrow> mmu sample_client sample_tables va = Some (0x3000 + unat va mod 4096)"
    using d by (simp_all add: mmu_entries sample_pde pte_of_def word_at_def sample_tables_def)
qed

lemma sample_mapped: "mapped sample_client sample_tables 0x5ffe 4 4 sample_frames"
proof -
  have "mmu sample_client sample_tables (0x5ffe + of_nat i) = Some (sample_frames i)" if "i < 4" for i
  proof -
    have "i = 0 \<or> i = 1 \<or> i = 2 \<or> i = 3" using that by linarith
    then show ?thesis by (elim disjE) (simp_all add: sample_mmu sample_frames_def)
  qed
  then show ?thesis by (simp add: mapped_def)
qed

theorem gdb_copyin_translates_witness:
  "gdb_copyin sample_client 0x5ffe 0x9000 4 sample_tables
    = Some (0, store_bytes 0x9000 [0xfe, 0xff, 0, 1] sample_tables)"
proof -
  have "map (\<lambda>i. sample_tables (sample_frames i)) [0..<4] = [0xfe, 0xff, 0, 1]"
    by (simp add: upt_rec sample_frames_def sample_tables_def)
  moreover have "\<forall>i<4. sample_frames i < 0x9000" by (simp add: sample_frames_def)
  ultimately show ?thesis
    using gdb_copyin_translates [OF sample_mapped, where dest = "0x9000"] sample_stable [of "{0x9000..<0x9000 + 4}"] by simp
qed

lemma stable_step:
  assumes "stable c m (D \<union> E)" "\<forall>a. a \<notin> D \<longrightarrow> m1 a = m a"
  shows "stable c m1 E"
  unfolding stable_def
proof (intro allI impI)
  fix m' assume "\<forall>a. a \<notin> E \<longrightarrow> m' a = m1 a"
  then have "\<forall>a. a \<notin> D \<union> E \<longrightarrow> m' a = m a" using assms(2) by auto
  then have "mmu c m' = mmu c m" "mmu c m1 = mmu c m" using assms unfolding stable_def by blast+
  then show "mmu c m' = mmu c m1" by simp
qed

text \<open>what \<open>gdb_copyout\<close> wrote through the page tables of the program, \<open>gdb_copyin\<close> reads back, also across
  page boundaries and where neighbouring pages lie in unrelated frames.\<close>

theorem gdb_memory_round_trip:
  assumes "mapped c m va n n f" "inj_on f {..<n}" "stable c m (f ` {..<n} \<union> {dest..<dest + n})"
    and "\<forall>i<n. (f i < src \<or> src + n \<le> f i) \<and> (f i < dest \<or> dest + n \<le> f i)"
  shows "\<exists>m1 m2. gdb_copyout c src va n m = Some (0, m1) \<and> gdb_copyin c va dest n m1 = Some (0, m2)
    \<and> bytes_at m2 dest n = bytes_at m src n \<and> (\<forall>a. a \<notin> f ` {..<n} \<longrightarrow> m1 a = m a)"
proof -
  let ?D = "f ` {..<n} \<union> {dest..<dest + n}"
  let ?ps = "map (\<lambda>i. (f i, m (src + i))) [0..<n]"
  let ?m1 = "store_at ?ps m"
  have out: "\<forall>a. a \<notin> f ` {..<n} \<longrightarrow> ?m1 a = m a"
    by (intro allI impI store_at_outside) (simp add: image_image lessThan_atLeast0)
  have "stable c m (f ` {..<n})" using assms(3) unfolding stable_def by blast
  then have copyout: "gdb_copyout c src va n m = Some (0, ?m1)"
    using gdb_copyout_mapped [OF assms(1)] assms(4) by simp
  have "mapped c ?m1 va n n f" using mapped_stable [OF assms(3), of ?m1] out assms(1) by blast
  moreover have "stable c ?m1 {dest..<dest + n}" by (rule stable_step [OF assms(3) out])
  ultimately have copyin: "gdb_copyin c va dest n ?m1 = Some (0, store_bytes dest (map (\<lambda>i. ?m1 (f i)) [0..<n]) ?m1)"
    using gdb_copyin_mapped [of c ?m1 va n n f dest] assms(4) by simp
  have "distinct (map fst ?ps)" 
    using assms(2) by (simp add: comp_def distinct_map lessThan_atLeast0)
  then have "?m1 (f i) = m (src + i)" if "i < n" for i using that by (intro store_at_inside) auto
  then have "bytes_at (store_bytes dest (map (\<lambda>i. ?m1 (f i)) [0..<n]) ?m1) dest n = bytes_at m src n"
    by (intro nth_equalityI) simp_all
  then show ?thesis using copyout copyin out by blast
qed

theorem gdb_memory_round_trip_witness:
  "\<exists>m1 m2. gdb_copyout sample_client 0x8000 0x5ffe 4 sample_tables = Some (0, m1)
    \<and> gdb_copyin sample_client 0x5ffe 0x9000 4 m1 = Some (0, m2) \<and> bytes_at m2 0x9000 4 = [0, 1, 2, 3]"
proof -
  have "inj_on sample_frames {..<4}" by (auto simp: inj_on_def sample_frames_def split: if_splits)
  moreover have "sample_frames ` {..<4} \<subseteq> {0x3000..<0x3002} \<union> {0x7ffe..<0x8000}" by (auto simp: sample_frames_def)
  then have "stable sample_client sample_tables (sample_frames ` {..<4} \<union> {0x9000..<0x9000 + 4})"
    by (intro sample_stable) fastforce
  moreover have "bytes_at sample_tables 0x8000 4 = [0, 1, 2, 3]"
    by (simp add: bytes_at_def upt_rec sample_tables_def)
  moreover have "\<forall>i<4. (sample_frames i < 0x8000 \<or> 0x8000 + 4 \<le> sample_frames i)
      \<and> (sample_frames i < 0x9000 \<or> 0x9000 + 4 \<le> sample_frames i)"
    by (simp add: sample_frames_def)
  ultimately show ?thesis
    using gdb_memory_round_trip [OF sample_mapped, where src = "0x8000" and dest = "0x9000"] by auto
qed

end
