(* ===== verification/Gdb_Stub.thy ===== *)
theory Gdb_Stub
  imports Gdb_Packet Gdb_Memory Numconv
begin

text \<open>
  The commands of the remote debugger stub (\<^verbatim>\<open>kernel/gdb_serial.c\<close>, \<open>gdb_serial_converse\<close> to the end, and the
  structures of \<^verbatim>\<open>kernel/gdb_serial_support.h\<close>).

  \<open>stub\<close> is the state: the serial line, the memory, the paging registers of the debugged program, the static
  variables (\<open>line_set\<close>: the two function pointers are not null) and the parameter block; \<open>inbuf\<close> and \<open>outbuf\<close> are the addresses of the local arrays. A command gives
  the next action and the reply, and \<open>send_reply\<close> sends it. The thread callbacks are parameters. \<open>None\<close> is
  waiting for a byte that never comes, or a write outside an array.
\<close>

subsection \<open>Data\<close>

record gdb_state =
  r_eax :: "32 word"
  r_ecx :: "32 word"
  r_edx :: "32 word"
  r_ebx :: "32 word"
  r_esp :: "32 word"
  r_ebp :: "32 word"
  r_esi :: "32 word"
  r_edi :: "32 word"
  r_eip :: "32 word"
  r_eflags :: "32 word"
  r_cs :: "32 word"
  r_ss :: "32 word"
  r_ds :: "32 word"
  r_es :: "32 word"
  r_fs :: "32 word"
  r_gs :: "32 word"

text \<open>The structure as an array of words and as bytes in memory.\<close>

definition state_words :: "gdb_state \<Rightarrow> 32 word list" where
  "state_words r = [r_eax r, r_ecx r, r_edx r, r_ebx r, r_esp r, r_ebp r, r_esi r, r_edi r, r_eip r, r_eflags r,
     r_cs r, r_ss r, r_ds r, r_es r, r_fs r, r_gs r]"

definition words_state :: "32 word list \<Rightarrow> gdb_state" where
  "words_state w = \<lparr>r_eax = w ! 0, r_ecx = w ! 1, r_edx = w ! 2, r_ebx = w ! 3, r_esp = w ! 4, r_ebp = w ! 5,
     r_esi = w ! 6, r_edi = w ! 7, r_eip = w ! 8, r_eflags = w ! 9, r_cs = w ! 10, r_ss = w ! 11, r_ds = w ! 12,
     r_es = w ! 13, r_fs = w ! 14, r_gs = w ! 15\<rparr>"

fun bytes_words :: "nat list \<Rightarrow> 32 word list" where
  "bytes_words (a # b # c # d # bs) = of_nat (a + 256 * b + 65536 * c + 16777216 * d) # bytes_words bs"
| "bytes_words bs = []"

definition state_bytes :: "gdb_state \<Rightarrow> nat list" where
  "state_bytes r = concat (map word_bytes (state_words r))"

text \<open>The structure after bytes were stored into it from an offset on.\<close>

definition patch_state :: "nat \<Rightarrow> nat list \<Rightarrow> gdb_state \<Rightarrow> gdb_state" where
  "patch_state k bs r =
     words_state (bytes_words (take k (state_bytes r) @ bs @ drop (k + length bs) (state_bytes r)))"

record gdb_params =
  thread_id :: "32 word"
  signo :: nat
  regs :: gdb_state
  regs_changed :: bool

datatype gdb_action = GDB_MORE | GDB_CONT | GDB_RUN | GDB_KILL | GDB_DETACH

record gdb_callbacks =
  thread_alive :: "(gdb_params \<Rightarrow> 32 word \<Rightarrow> int \<times> gdb_params) option"
  thread_switch :: "(gdb_params \<Rightarrow> 32 word \<Rightarrow> int \<times> gdb_params) option"

definition NSIG :: int where
  "NSIG = 32"

record stub =
  line :: gdb_io
  mem :: memory
  paging :: client
  line_set :: bool
  connected :: bool
  gdb_serial_debug :: bool
  params :: gdb_params
  inbuf :: nat
  outbuf :: nat

definition set_regs :: "gdb_state \<Rightarrow> stub \<Rightarrow> stub" where
  "set_regs r s = s\<lparr>params := (params s)\<lparr>regs := r\<rparr>\<rparr>"

definition mark_changed :: "stub \<Rightarrow> stub" where
  "mark_changed s = s\<lparr>params := (params s)\<lparr>regs_changed := True\<rparr>\<rparr>"

subsection \<open>Replies\<close>

datatype reply = Reply_ok | Reply_error nat | Reply_unknown | Reply_report | Reply_data "outfrag list" | No_reply

definition text_frag :: "nat list \<Rightarrow> outfrag" where
  "text_frag s = \<lparr>data = (\<lambda>i. if i < length s then s ! i else 0), len = 0, hexify = False\<rparr>"

definition byte_frag :: "nat \<Rightarrow> outfrag" where
  "byte_frag b = \<lparr>data = (\<lambda>_. b), len = 1, hexify = True\<rparr>"

definition memory_frag :: "nat \<Rightarrow> nat \<Rightarrow> stub \<Rightarrow> outfrag" where
  "memory_frag a n s = \<lparr>data = (\<lambda>i. mem s (a + i)), len = n, hexify = True\<rparr>"

text \<open>The digits of a thread identifier, the lowest first, as the array \<open>tid\<close> gets them.\<close>

fun tid_digits :: "nat \<Rightarrow> nat list" where
  "tid_digits x = hexchars (x mod 16) # (if x div 16 = 0 then [] else tid_digits (x div 16))"

declare tid_digits.simps [simp del]

definition report :: "gdb_callbacks option \<Rightarrow> stub \<Rightarrow> outfrag list \<times> stub" where
  "report cb s =
     (let p = params s
      in if (\<exists>c. cb = Some c \<and> thread_switch c \<noteq> None) \<and> thread_id p \<noteq> 0 \<and> thread_id p \<noteq> - 1 then
           (let txt = [116, 104, 114, 101, 97, 100, 58] @ rev (tid_digits (unat (thread_id p))) @ [59];
                s = s\<lparr>mem := store_bytes (inbuf s) (txt @ [0]) (mem s)\<rparr>
            in ([text_frag [84], byte_frag (signo p), (memory_frag (inbuf s) 0 s)\<lparr>hexify := False\<rparr>], s))
         else ([text_frag [83], byte_frag (signo p)], s))"

definition put :: "outfrag list \<Rightarrow> stub \<Rightarrow> stub option" where
  "put fs s = do { l \<leftarrow> putfrags fs (line s); Some (s\<lparr>line := l\<rparr>) }"

definition send_reply :: "gdb_callbacks option \<Rightarrow> reply \<Rightarrow> stub \<Rightarrow> stub option" where
  "send_reply cb r s =
     (case r of
        Reply_ok \<Rightarrow> put [text_frag [79, 75]] s
      | Reply_error e \<Rightarrow> put [text_frag [69], byte_frag e] s
      | Reply_unknown \<Rightarrow> put [text_frag []] s
      | Reply_report \<Rightarrow> (let (fs, s) = report cb s in put fs s)
      | Reply_data fs \<Rightarrow> put fs s
      | No_reply \<Rightarrow> Some s)"

subsection \<open>Commands\<close>

type_synonym command = "stub \<Rightarrow> (gdb_action \<times> reply \<times> stub) option"

definition more :: "reply \<Rightarrow> command" where
  "more r s = Some (GDB_MORE, r, s)"

definition cmd_thread :: "gdb_callbacks option \<Rightarrow> command" where
  "cmd_thread cb s = do {
     (th, endth) \<leftarrow> strtol (inbuf s + 2) 16 (mem s);
     if endth = inbuf s + 2 then more (Reply_error 4) s
     else case Option.bind cb thread_switch of
       None \<Rightarrow> more Reply_unknown s
     | Some switch \<Rightarrow>
         if th \<noteq> - 1 \<and> th \<noteq> 0 \<and> th \<noteq> thread_id (params s) then
           (let (r, p) = switch (params s) th; errchar = nat (r mod 256); s = s\<lparr>params := p\<rparr>
            in if errchar \<noteq> 0 then more (Reply_error errchar) s
               else more Reply_ok (s\<lparr>params := p\<lparr>thread_id := th, regs_changed := False\<rparr>\<rparr>))
         else more Reply_ok s
   }"

definition cmd_alive :: "gdb_callbacks option \<Rightarrow> command" where
  "cmd_alive cb s = do {
     (th, endth) \<leftarrow> strtol (inbuf s + 1) 16 (mem s);
     if endth = inbuf s + 1 then more (Reply_error 1) s
     else case Option.bind cb thread_alive of
       None \<Rightarrow> more Reply_unknown s
     | Some alive \<Rightarrow>
         (let (r, p) = alive (params s) th; errchar = nat (r mod 256); s = s\<lparr>params := p\<rparr>
          in if errchar \<noteq> 0 then more (Reply_error errchar) s else more Reply_ok s)
   }"

definition cmd_get_regs :: command where
  "cmd_get_regs s =
     more (Reply_data [\<lparr>data = (\<lambda>i. state_bytes (regs (params s)) ! i), len = 64, hexify = True\<rparr>]) s"

definition cmd_set_regs :: command where
  "cmd_set_regs s =
     (let (r, out) = hex2bin (inbuf s + 1) 64 (mem s);
          s = set_regs (patch_state 0 out (regs (params s))) s
      in if r \<noteq> 0 then more (Reply_error 4) s else more Reply_ok (mark_changed s))"

text \<open>\<open>P\<close>: an index outside the structure that the test lets through is \<open>None\<close> once a byte is stored there.\<close>

definition cmd_set_reg :: command where
  "cmd_set_reg s = do {
     (reg, eqp) \<leftarrow> strtoul (inbuf s + 1) 16 (mem s);
     if eqp = inbuf s + 1 \<or> mem s eqp \<noteq> 61 then more (Reply_error 4) s
     else if reg = 0x29 then more Reply_ok s
     else if (reg + 1) * 4 > 64 then more (Reply_error 4) s
     else
       (let (r, out) = hex2bin (eqp + 1) 4 (mem s)
        in do {
          kassert (out = [] \<or> unat reg < 16);
          let s = (if out = [] then s else set_regs (patch_state (4 * unat reg) out (regs (params s))) s);
          if r \<noteq> 0 then more (Reply_error 4) s else more Reply_ok (mark_changed s)
        })
   }"

text \<open>The address, the comma and the length that \<open>m\<close>, \<open>M\<close> and \<open>X\<close> begin with.\<close>

definition parse_block :: "stub \<Rightarrow> (32 word \<times> 32 word \<times> nat) option option" where
  "parse_block s = do {
     (addr, ptr) \<leftarrow> strtoul (inbuf s + 1) 16 (mem s);
     if ptr = inbuf s + 1 \<or> mem s ptr \<noteq> 44 then Some None
     else do {
       (n, ptr2) \<leftarrow> strtoul (ptr + 1) 16 (mem s);
       if ptr2 = ptr + 1 then Some None else Some (Some (addr, n, ptr2))
     }
   }"

text \<open>\<open>m\<close>: a length beyond the buffer that the test lets through is \<open>None\<close>.\<close>

definition cmd_read :: command where
  "cmd_read s = do {
     b \<leftarrow> parse_block s;
     case b of
       None \<Rightarrow> more (Reply_error 2) s
     | Some (addr, n, ptr2) \<Rightarrow>
         if n * 2 > of_nat BUFMAX then more (Reply_error 2) s
         else do {
           kassert (unat n \<le> BUFMAX + 1);
           (r, m) \<leftarrow> gdb_copyin (paging s) addr (inbuf s) (unat n) (mem s);
           let s = s\<lparr>mem := m\<rparr>;
           if r \<noteq> 0 then more (Reply_error 3) s
           else more (Reply_data [memory_frag (inbuf s) (unat n) s]) s
         }
   }"

text \<open>\<open>M\<close>: pointers wrap at 32 bits in the test; an \<open>outbuf\<close> longer than the packet is \<open>None\<close>.\<close>

definition cmd_write :: command where
  "cmd_write s = do {
     b \<leftarrow> parse_block s;
     case b of
       None \<Rightarrow> more (Reply_error 2) s
     | Some (addr, n, ptr2) \<Rightarrow>
         if mem s ptr2 \<noteq> 58 then more (Reply_error 2) s
         else if (ptr2 + 1 + 2 * unat n) mod 2 ^ 32 > inbuf s + BUFMAX then more (Reply_error 2) s
         else do {
           kassert (unat n \<le> BUFMAX);
           let (r, out) = hex2bin (ptr2 + 1) (unat n) (mem s);
           let s = s\<lparr>mem := store_bytes (outbuf s) out (mem s)\<rparr>;
           if r \<noteq> 0 then more (Reply_error 2) s
           else do {
             (r, m) \<leftarrow> gdb_copyout (paging s) (outbuf s) addr (unat n) (mem s);
             more (if r \<noteq> 0 then Reply_error 3 else Reply_ok) (s\<lparr>mem := m\<rparr>)
           }
         }
   }"

text \<open>The loop of \<open>X\<close>, on the number \<open>end - in\<close> of bytes left: \<open>Inl\<close> is the error of a quote at the end,
  \<open>Inr\<close> holds the end of the output.\<close>

fun dequote :: "nat \<Rightarrow> nat \<Rightarrow> nat \<Rightarrow> memory \<Rightarrow> memory + nat \<times> memory" where
  "dequote in_p 0 out m = Inr (out, m)"
| "dequote in_p (Suc 0) out m =
     (if m in_p = 125 then Inl m else Inr (out + 1, m(out := m in_p)))"
| "dequote in_p (Suc (Suc k)) out m =
     (if m in_p = 125 then dequote (in_p + 2) k (out + 1) (m(out := xor (m (in_p + 1)) 32))
      else dequote (in_p + 1) (Suc k) (out + 1) (m(out := m in_p)))"

definition cmd_write_binary :: command where
  "cmd_write_binary s = do {
     b \<leftarrow> parse_block s;
     case b of
       None \<Rightarrow> more (Reply_error 2) s
     | Some (addr, n, ptr2) \<Rightarrow>
         if mem s ptr2 \<noteq> 58 then more (Reply_error 2) s
         else if (ptr2 + 1 + unat n) mod 2 ^ 32 > inbuf s + BUFMAX then more (Reply_error 2) s
         else case dequote (ptr2 + 1) ((ptr2 + 1 + unat n) mod 2 ^ 32 - (ptr2 + 1)) (inbuf s) (mem s) of
           Inl m \<Rightarrow> more (Reply_error 2) (s\<lparr>mem := m\<rparr>)
         | Inr (out, m) \<Rightarrow> do {
             (r, m) \<leftarrow> gdb_copyout (paging s) (inbuf s) addr (out - inbuf s) m;
             more (if r \<noteq> 0 then Reply_error 3 else Reply_ok) (s\<lparr>mem := m\<rparr>)
           }
   }"

definition gdb_set_trace_flag :: "bool \<Rightarrow> gdb_state \<Rightarrow> gdb_state" where
  "gdb_set_trace_flag trace_enable r =
     (if trace_enable then r\<lparr>r_eflags := r_eflags r OR 0x100\<rparr> else r\<lparr>r_eflags := r_eflags r AND NOT 0x100\<rparr>)"

text \<open>The optional address of \<open>c\<close>, \<open>s\<close>, \<open>C\<close> and \<open>S\<close>, the trace flag and the signal.\<close>

definition resume :: "nat \<Rightarrow> bool \<Rightarrow> nat \<Rightarrow> command" where
  "resume p step sig s = do {
     (new_eip, ptr) \<leftarrow> strtoul p 16 (mem s);
     let s = (if ptr > p \<and> new_eip \<noteq> r_eip (regs (params s))
              then mark_changed (set_regs ((regs (params s))\<lparr>r_eip := new_eip\<rparr>) s) else s);
     let s = set_regs (gdb_set_trace_flag step (regs (params s))) s;
     Some (GDB_CONT, No_reply, s\<lparr>params := (params s)\<lparr>signo := sig\<rparr>\<rparr>)
   }"

definition cmd_continue :: command where
  "cmd_continue s = resume (inbuf s + 1) (mem s (inbuf s) = 115) 0 s"

definition cmd_continue_signal :: command where
  "cmd_continue_signal s =
     (let nsig = hex_pair (mem s (inbuf s + 1)) (mem s (inbuf s + 2))
      in if nsig \<le> 0 \<or> nsig \<ge> NSIG then more (Reply_error 5) s
         else resume (inbuf s + 3) (mem s (inbuf s) = 83) (nat nsig) s)"

definition cmd_leave :: "gdb_action \<Rightarrow> reply \<Rightarrow> command" where
  "cmd_leave act r s = Some (act, r, s\<lparr>connected := False\<rparr>)"

definition command :: "gdb_callbacks option \<Rightarrow> command" where
  "command cb s =
     (let c = mem s (inbuf s)
      in if c = 72 then cmd_thread cb s
         else if c = 84 then cmd_alive cb s
         else if c = 103 then cmd_get_regs s
         else if c = 71 then cmd_set_regs s
         else if c = 80 then cmd_set_reg s
         else if c = 109 then cmd_read s
         else if c = 77 then cmd_write s
         else if c = 88 then cmd_write_binary s
         else if c = 99 \<or> c = 115 then cmd_continue s
         else if c = 67 \<or> c = 83 then cmd_continue_signal s
         else if c = 63 then more Reply_report s
         else if c = 68 then cmd_leave GDB_DETACH Reply_ok s
         else if c = 82 then cmd_leave GDB_RUN No_reply s
         else if c = 107 then cmd_leave GDB_KILL No_reply s
         else if c = 100 then more Reply_ok (s\<lparr>gdb_serial_debug := \<not> gdb_serial_debug s\<rparr>)
         else if c = 33 then more Reply_ok s
         else more Reply_unknown s)"

text \<open>One round of the loop, and the loop.\<close>

definition converse_round :: "gdb_callbacks option \<Rightarrow> stub \<Rightarrow> (gdb_action \<times> stub) option" where
  "converse_round cb s = do {
     (m, l) \<leftarrow> getpacket (inbuf s) (mem s) (line s);
     (act, r, s) \<leftarrow> command cb (s\<lparr>mem := m, line := l, connected := True\<rparr>);
     s \<leftarrow> send_reply cb r s;
     Some (act, s)
   }"

partial_function (option) converse_loop :: "gdb_callbacks option \<Rightarrow> stub \<Rightarrow> (gdb_action \<times> stub) option" where
  "converse_loop cb s = do {
     (act, s) \<leftarrow> converse_round cb s;
     if act = GDB_MORE then converse_loop cb s else Some (act, s)
   }"

definition gdb_serial_converse :: "gdb_callbacks option \<Rightarrow> stub \<Rightarrow> (gdb_action \<times> stub) option" where
  "gdb_serial_converse cb s = do {
     s \<leftarrow> send_reply cb Reply_report (s\<lparr>params := (params s)\<lparr>regs_changed := False\<rparr>\<rparr>);
     converse_loop cb s
   }"

subsection \<open>Messages outside a conversation\<close>

definition gdb_serial_exit :: "int \<Rightarrow> stub \<Rightarrow> stub option" where
  "gdb_serial_exit exit_code s =
     (if \<not> line_set s \<or> \<not> connected s then Some s
      else do {
        s \<leftarrow> put [text_frag [87], byte_frag (nat (exit_code mod 256))] s;
        Some (s\<lparr>connected := False\<rparr>)
      })"

definition gdb_serial_killed :: "int \<Rightarrow> stub \<Rightarrow> stub option" where
  "gdb_serial_killed signal s =
     (if \<not> line_set s \<or> \<not> connected s then Some s
      else do {
        s \<leftarrow> put [text_frag [88], byte_frag (nat (signal mod 256))] s;
        Some (s\<lparr>connected := False\<rparr>)
      })"

definition gdb_serial_putchar :: "int \<Rightarrow> stub \<Rightarrow> stub option" where
  "gdb_serial_putchar ch s =
     (if \<not> line_set s then Some s
      else if \<not> connected s then Some (s\<lparr>line := gdb_send (nat (ch mod 256)) (line s)\<rparr>)
      else put [text_frag [79], byte_frag (nat (ch mod 256))] s)"

partial_function (option) puts_loop :: "nat \<Rightarrow> memory \<Rightarrow> gdb_io \<Rightarrow> gdb_io option" where
  "puts_loop p m l = (if m p \<noteq> 0 then puts_loop (p + 1) m (gdb_send (m p) l) else Some l)"

definition gdb_serial_puts :: "nat \<Rightarrow> stub \<Rightarrow> stub option" where
  "gdb_serial_puts p s =
     (if \<not> line_set s then Some s
      else if \<not> connected s then do {
        l \<leftarrow> puts_loop p (mem s) (line s);
        Some (s\<lparr>line := gdb_send 10 l\<rparr>)
      }
      else put [text_frag [79], memory_frag p 0 s, byte_frag 10] s)"

subsection \<open>Numbers and bytes of a command\<close>

text \<open>\<open>hex_numeral u ds\<close>: the digits \<open>ds\<close> (small letters) write the number \<open>u\<close>.\<close>

definition hex_numeral :: "nat \<Rightarrow> nat list \<Rightarrow> bool" where
  "hex_numeral u ds \<longleftrightarrow> ds \<noteq> [] \<and> number_value 16 ds = u \<and> (\<forall>c\<in>set ds. 48 \<le> c \<and> c \<le> 57 \<or> 97 \<le> c \<and> c \<le> 102)"

text \<open>A character that ends a number.\<close>

definition ends_number :: "nat \<Rightarrow> bool" where
  "ends_number c \<longleftrightarrow> strto_digit c 16 = None \<and> c \<noteq> 120 \<and> c \<noteq> 88"

lemma ends_number_simps [simp]: "ends_number 0" "ends_number 44" "ends_number 58" "ends_number 61"
  by (simp_all add: ends_number_def strto_digit_def)

lemma strtoul_hex:
  assumes "hex_numeral u ds" "bytes_at m p (length ds) = ds" "ends_number (m (p + length ds))"
  shows "strtoul p 16 m = Some (of_nat u, p + length ds)"
proof -
  have ds: "ds \<noteq> []" "number_value 16 ds = u" "\<forall>c\<in>set ds. 48 \<le> c \<and> c \<le> 57 \<or> 97 \<le> c \<and> c \<le> 102"
    using assms(1) by (auto simp: hex_numeral_def)
  then have dig: "\<forall>c\<in>set ds. (48 \<le> c \<and> c \<le> 57 \<or> 97 \<le> c \<and> c \<le> 102) \<and> digit_value c < 16"
    by (auto simp: digit_value_def)
  obtain c ds' where c: "ds = c # ds'" using ds(1) by (cases ds) auto
  have p: "m p = c" using assms(2) c by (simp add: bytes_at_Suc)
  have "m (p + 1) \<in> set ds \<or> ends_number (m (p + 1))"
  proof (cases ds')
    case (Cons d ds'')
    then have "m (p + 1) = d" using assms(2) c by (simp add: bytes_at_Suc)
    then show ?thesis using c Cons by simp
  qed (use assms(3) c in simp)
  then have x: "m (p + 1) \<noteq> 120 \<and> m (p + 1) \<noteq> 88" using ds(3) by (auto simp: ends_number_def)
  have "\<not> isspace (m p)" using p c ds(3) by (auto simp: isspace_def)
  moreover have "strto_base p 16 m = (p, 16)" using x by (simp add: strto_base_def)
  moreover have "strto_loop p 0 16 m = Some (of_nat u, p + length ds)"
    using strto_loop_numeral [OF dig assms(2), of 0] assms(3) ds(2) by (simp add: ends_number_def number_value_def)
  ultimately show ?thesis by (simp add: strtoul_def skip_spaces_none)
qed

lemma bytes_words_Cons [simp]: "bytes_words (word_bytes w @ bs) = w # bytes_words bs"
  using word_of_bytes [of w] unfolding word_bytes_def by (simp del: of_nat_add of_nat_mult)

lemma bytes_words_state [simp]: "bytes_words (concat (map word_bytes ws)) = ws"
  by (induction ws) simp_all

lemma length_state_words [simp]: "length (state_words r) = 16"
  by (simp add: state_words_def)

lemma words_state_words [simp]: "words_state (state_words r) = r"
  by (cases r) (simp add: words_state_def state_words_def)

lemma state_words_state: "length ws = 16 \<Longrightarrow> state_words (words_state ws) = ws"
  by (rule nth_equalityI) (auto simp: words_state_def state_words_def less_Suc_eq eval_nat_numeral)

lemma length_state_bytes [simp]: "length (state_bytes r) = 64"
  by (simp add: state_bytes_def length_concat comp_def sum_list_triv)

lemma state_bytes_byte: "b \<in> set (state_bytes r) \<Longrightarrow> b < 256"
  by (auto simp: state_bytes_def word_bytes_byte)

lemma patch_state_all: "patch_state 0 (state_bytes r') r = r'"
  by (simp add: patch_state_def) (simp add: state_bytes_def)

lemma concat_word_bytes_update:
  "i < length ws \<Longrightarrow> take (4 * i) (concat (map word_bytes ws)) @ word_bytes w @ drop (4 * i + 4) (concat (map word_bytes ws))
    = concat (map word_bytes (ws[i := w]))"
proof (induction ws arbitrary: i)
  case (Cons v ws)
  then show ?case by (cases i) (simp_all add: add.commute)
qed simp

lemma patch_state_word: "i < 16 \<Longrightarrow> patch_state (4 * i) (word_bytes w) r = words_state ((state_words r)[i := w])"
  using concat_word_bytes_update [of i "state_words r" w] by (simp add: patch_state_def state_bytes_def)

lemma store_at_cong: "m1 x = m2 x \<Longrightarrow> store_at ps m1 x = store_at ps m2 x"
proof (induction ps arbitrary: m1 m2)
  case (Cons p ps)
  obtain a b where "p = (a, b)" by (cases p)
  then show ?case using Cons.IH [of "m1(a := b)" "m2(a := b)"] Cons.prems by (simp add: fun_upd_def)
qed simp

subsection \<open>From a packet on the line to the reply\<close>

lemma put_frags:
  assumes "list_all2 frag_ok fs ns" "rx (line s) = 43 # r"
  shows "\<exists>ks. put fs s = Some (s\<lparr>line := \<lparr>rx = r, tx = tx (line s) @ packet ks\<rparr>\<rparr>)
    \<and> rle_expand ks = concat (map2 (\<lambda>f n. frag_text f 0 n) fs ns)"
  using putfrags_text [OF assms(1), of "[]" 43 "line s" r] assms(2) by (auto simp: put_def)

lemma put_exact:
  assumes "send_frags fs = Some ks" "\<forall>c\<in>set ks. c < 256" "rx (line s) = 43 # r"
  shows "put fs s = Some (s\<lparr>line := \<lparr>rx = r, tx = tx (line s) @ packet ks\<rparr>\<rparr>)"
  using putfrags_repeats [OF assms(1,2), of "[]" 43 "line s" r] assms(3) by (simp add: put_def)

lemma byte_frag_sent: "b < 256 \<Longrightarrow> send_frag (byte_frag b) 0 = Some [hexchars (b div 16), hexchars (b mod 16)]"
  by (simp add: send_frag.simps byte_frag_def frag_more_def frag_step_def frag_run_def)

lemma text_frag_sent:
  "send_frag (text_frag []) 0 = Some []" "a \<noteq> 0 \<Longrightarrow> send_frag (text_frag [a]) 0 = Some [a]"
  "a \<noteq> 0 \<Longrightarrow> b \<noteq> 0 \<Longrightarrow> a \<noteq> b \<Longrightarrow> send_frag (text_frag [a, b]) 0 = Some [a, b]"
  by (simp_all add: send_frag.simps text_frag_def frag_more_def frag_step_def frag_run_def)

lemma send_reply_short:
  assumes "rx (line s) = 43 # r"
  defines "sent ks \<equiv> Some (s\<lparr>line := \<lparr>rx = r, tx = tx (line s) @ packet ks\<rparr>\<rparr>)"
  shows "send_reply cb Reply_ok s = sent [79, 75]" "send_reply cb Reply_unknown s = sent []"
    "e < 256 \<Longrightarrow> send_reply cb (Reply_error e) s = sent [69, hexchars (e div 16), hexchars (e mod 16)]"
proof -
  show "send_reply cb Reply_ok s = sent [79, 75]" "send_reply cb Reply_unknown s = sent []"
    using put_exact [of "[text_frag [79, 75]]" "[79, 75]" s r] put_exact [of "[text_frag []]" "[]" s r] assms(1)
    by (simp_all add: send_reply_def sent_def text_frag_sent)
  assume "e < 256"
  then show "send_reply cb (Reply_error e) s = sent [69, hexchars (e div 16), hexchars (e mod 16)]"
    using put_exact [of "[text_frag [69], byte_frag e]" "[69, hexchars (e div 16), hexchars (e mod 16)]" s r] assms(1)
    by (simp add: send_reply_def sent_def text_frag_sent byte_frag_sent less_mult_imp_div_less)
qed

text \<open>The state in which a command finds the stub: the text of its packet lies in the buffer and the packet is
  acknowledged.\<close>

definition received :: "nat list \<Rightarrow> nat list \<Rightarrow> stub \<Rightarrow> stub" where
  "received cs r s = s\<lparr>mem := store_bytes (inbuf s) (cs @ [0]) (mem s),
     line := \<lparr>rx = r, tx = tx (line s) @ [43]\<rparr>, connected := True\<rparr>"

lemma received_simps [simp]:
  "inbuf (received cs r s) = inbuf s" "outbuf (received cs r s) = outbuf s" "params (received cs r s) = params s"
  "paging (received cs r s) = paging s" "line (received cs r s) = \<lparr>rx = r, tx = tx (line s) @ [43]\<rparr>"
  "mem (received cs r s) = store_bytes (inbuf s) (cs @ [0]) (mem s)" "connected (received cs r s)"
  "gdb_serial_debug (received cs r s) = gdb_serial_debug s" "line_set (received cs r s) = line_set s"
  by (simp_all add: received_def)

lemma converse_round_received:
  assumes "rx (line s) = packet cs @ r" "body_ok 0 cs" "length cs < BUFMAX"
    and "store_bytes (inbuf s) (cs @ [0]) (mem s) (inbuf s + 2) \<noteq> 58"
  shows "converse_round cb s = do {
     (act, rep, s) \<leftarrow> command cb (received cs r s);
     s \<leftarrow> send_reply cb rep s;
     Some (act, s)
   }"
proof -
  have "getpacket (inbuf s) (mem s) (line s)
      = Some (store_bytes (inbuf s) (cs @ [0]) (mem s), \<lparr>rx = r, tx = tx (line s) @ [43]\<rparr>)"
    by (rule getpacket_once [OF _ intact_packet [of "[]"]]) (use assms in \<open>simp_all add: packet_def\<close>)
  then show ?thesis by (simp add: converse_round_def received_def)
qed

lemma third_byte:
  "3 \<le> length cs \<Longrightarrow> cs ! 2 \<noteq> 58 \<Longrightarrow> store_bytes p (cs @ [0]) m (p + 2) \<noteq> 58"
  using store_bytes_inside [of 2 "cs @ [0]" p m] by (simp add: nth_append)

text \<open>Reading the packet text where it was stored.\<close>

lemma stored_part:
  "cs @ [0] = as @ bs @ ds \<Longrightarrow> bytes_at (store_bytes p (cs @ [0]) m) (p + length as) (length bs) = bs"
proof -
  assume s: "cs @ [0] = as @ bs @ ds"
  show ?thesis
  proof (rule nth_equalityI)
    fix i assume "i < length (bytes_at (store_bytes p (cs @ [0]) m) (p + length as) (length bs))"
    then show "bytes_at (store_bytes p (cs @ [0]) m) (p + length as) (length bs) ! i = bs ! i"
      using store_bytes_inside [of "length as + i" "cs @ [0]" p m] s by (simp add: nth_append add.assoc)
  qed simp
qed

lemma stored_char: "cs @ [0] = as @ c # ds \<Longrightarrow> store_bytes p (cs @ [0]) m (p + length as) = c"
  using stored_part [of cs as "[c]" ds p m] by (simp add: bytes_at_Suc)

lemma hex_numeral_set: "hex_numeral u ds \<Longrightarrow> set ds \<subseteq> {48..57} \<union> {97..102}"
  by (auto simp: hex_numeral_def)

lemma hex_numeral_not [simp]: "hex_numeral u ds \<Longrightarrow> c \<notin> {48..57} \<union> {97..102} \<Longrightarrow> c \<notin> set ds"
  using hex_numeral_set by blast

lemma received_number:
  assumes "cs @ [0] = as @ ds @ t # bs" "hex_numeral u ds" "ends_number t"
  shows "strtoul (inbuf s + length as) 16 (mem (received cs r s)) = Some (of_nat u, inbuf s + length as + length ds)"
  using strtoul_hex [OF assms(2), of "mem (received cs r s)" "inbuf s + length as"]
    stored_part [OF assms(1)] stored_char [of cs "as @ ds" t bs] assms(1,3) by (simp add: add.assoc)

lemma hex_numeral_nonempty [simp]: "hex_numeral u ds \<Longrightarrow> 0 < length ds"
  by (simp add: hex_numeral_def)

lemma parse_block_received:
  assumes "cs @ [0] = x # as @ 44 # ds @ t # bs" "hex_numeral a as" "hex_numeral n ds" "ends_number t"
  shows "parse_block (received cs r s)
    = Some (Some (of_nat a, of_nat n, inbuf s + (2 + length as + length ds)))"
    "mem (received cs r s) (inbuf s + (2 + length as + length ds)) = t"
proof -
  have addr: "strtoul (inbuf s + 1) 16 (mem (received cs r s)) = Some (of_nat a, inbuf s + 1 + length as)"
    using received_number [of cs "[x]" as 44 "ds @ t # bs" a s r] assms by simp
  have comma: "mem (received cs r s) (inbuf s + 1 + length as) = 44"
    using stored_char [of cs "x # as" 44 "ds @ t # bs" "inbuf s" "mem s"] assms(1) by simp
  have len: "strtoul (inbuf s + (2 + length as)) 16 (mem (received cs r s))
      = Some (of_nat n, inbuf s + (2 + length as) + length ds)"
    using received_number [of cs "x # as @ [44]" ds t bs n s r] assms by simp
  show "parse_block (received cs r s)
      = Some (Some (of_nat a, of_nat n, inbuf s + (2 + length as + length ds)))"
    using addr comma len hex_numeral_nonempty [OF assms(2)] hex_numeral_nonempty [OF assms(3)]
    by (simp add: parse_block_def add.assoc)
  show "mem (received cs r s) (inbuf s + (2 + length as + length ds)) = t"
    using stored_char [of cs "x # as @ 44 # ds" t bs "inbuf s" "mem s"] assms(1) by (simp add: add.assoc)
qed

lemma third_of_number: "hex_numeral u ds \<Longrightarrow> t \<noteq> 58 \<Longrightarrow> (x # ds @ t # bs) ! 2 \<noteq> 58"
  using hex_numeral_set [of u ds] hex_numeral_nonempty [of u ds] by (cases ds; cases "tl ds") auto

subsection \<open>Registers\<close>

lemma set_regs_received:
  assumes "cs = 71 # hex_text (state_bytes r')"
  shows "command cb (received cs l s) = more Reply_ok (mark_changed (set_regs r' (received cs l s)))"
proof -
  have "bytes_at (mem (received cs l s)) (inbuf s + 1) (2 * length (state_bytes r')) = hex_text (state_bytes r')"
    using stored_part [of cs "[71]" "hex_text (state_bytes r')" "[0]" "inbuf s" "mem s"] assms by simp
  then have "hex2bin (inbuf s + 1) 64 (mem (received cs l s)) = (0, state_bytes r')"
    using hex2bin_text [of "mem (received cs l s)" "inbuf s + 1" "state_bytes r'"] state_bytes_byte by simp
  moreover have "mem (received cs l s) (inbuf s) = 71"
    using stored_char [of cs "[]" 71 "hex_text (state_bytes r') @ [0]" "inbuf s" "mem s"] assms by simp
  ultimately show ?thesis by (simp add: command_def cmd_set_regs_def patch_state_all del: received_simps(6))
qed

lemma state_frag_ok:
  "frag_ok \<lparr>data = (\<lambda>i. state_bytes r ! i), len = 64, hexify = True\<rparr> 64"
  "frag_text \<lparr>data = (\<lambda>i. state_bytes r ! i), len = 64, hexify = True\<rparr> 0 64 = hex_text (state_bytes r)"
proof -
  show "frag_ok \<lparr>data = (\<lambda>i. state_bytes r ! i), len = 64, hexify = True\<rparr> 64"
    using state_bytes_byte [OF nth_mem, of _ r] by (simp add: frag_ok_def frag_size_def)
  have "bytes_at (\<lambda>i. state_bytes r ! i) 0 64 = state_bytes r" by (rule nth_equalityI) simp_all
  then show "frag_text \<lparr>data = (\<lambda>i. state_bytes r ! i), len = 64, hexify = True\<rparr> 0 64 = hex_text (state_bytes r)"
    by (simp add: frag_text_def)
qed

lemma body_ok_hex: "\<forall>b\<in>set bs. b < 256 \<Longrightarrow> c \<notin> {35, 125} \<Longrightarrow> body_ok 0 (c # hex_text bs)"
  using set_hex_text [of bs] by (intro body_ok_plain) auto

lemma hex_text_not: "\<forall>b\<in>set bs. b < 256 \<Longrightarrow> i < length (hex_text bs) \<Longrightarrow> hex_text bs ! i \<noteq> 58"
  using set_hex_text [of bs] nth_mem [of i "hex_text bs"] by fastforce

text \<open>what the debugger writes into the registers it reads back: the command \<open>G\<close> with the sixteen registers
  of \<open>r'\<close> as hexadecimal text sets exactly these registers and answers \<open>OK\<close>, and the packet that answers the next
  command \<open>g\<close> is, run-length encoded, the same text.\<close>

theorem registers_round_trip:
  assumes "line s = \<lparr>rx = packet (71 # hex_text (state_bytes r')) @ 43 # packet [103] @ 43 # rest, tx = t\<rparr>"
  shows "\<exists>ks s1 s2. converse_round cb s = Some (GDB_MORE, s1) \<and> converse_round cb s1 = Some (GDB_MORE, s2)
    \<and> regs (params s2) = r' \<and> regs_changed (params s2)
    \<and> line s2 = \<lparr>rx = rest, tx = t @ 43 # packet [79, 75] @ 43 # packet ks\<rparr>
    \<and> rle_expand ks = hex_text (state_bytes r')"
proof -
  let ?cs = "71 # hex_text (state_bytes r')" and ?l = "43 # packet [103] @ 43 # rest"
  have b: "\<forall>b\<in>set (state_bytes r'). b < 256" using state_bytes_byte by blast
  define s1 where "s1 = (mark_changed (set_regs r' (received ?cs ?l s)))
    \<lparr>line := \<lparr>rx = packet [103] @ 43 # rest, tx = t @ 43 # packet [79, 75]\<rparr>\<rparr>"
  have third: "store_bytes (inbuf s) (?cs @ [0]) (mem s) (inbuf s + 2) \<noteq> 58"
    using hex_text_not [OF b, of 1] by (intro third_byte) simp_all
  have "converse_round cb s = Some (GDB_MORE, s1)"
    using converse_round_received [of s ?cs ?l cb] assms third body_ok_hex [OF b, of 71]
      send_reply_short(1) [of "mark_changed (set_regs r' (received ?cs ?l s))" "packet [103] @ 43 # rest" cb]
    by (simp add: set_regs_received BUFMAX_def more_def s1_def mark_changed_def set_regs_def)
  moreover
  have s1: "line s1 = \<lparr>rx = packet [103] @ 43 # rest, tx = t @ 43 # packet [79, 75]\<rparr>" "regs (params s1) = r'"
    "regs_changed (params s1)" "mem s1 = store_bytes (inbuf s) (?cs @ [0]) (mem s)" "inbuf s1 = inbuf s"
    by (simp_all add: s1_def mark_changed_def set_regs_def)
  let ?s = "received [103] (43 # rest) s1" and ?f = "\<lparr>data = (\<lambda>i. state_bytes r' ! i), len = 64, hexify = True\<rparr>"
  have "command cb ?s = more (Reply_data [?f]) ?s"
    using s1(2) stored_char [of "[103]" "[]" 103 "[0]" "inbuf s1" "mem s1"]
    by (simp add: command_def cmd_get_regs_def)
  moreover have "store_bytes (inbuf s1) ([103] @ [0]) (mem s1) (inbuf s1 + 2) \<noteq> 58"
    using third s1(4,5) by simp
  moreover obtain ks where "put [?f] ?s = Some (?s\<lparr>line := \<lparr>rx = rest, tx = tx (line ?s) @ packet ks\<rparr>\<rparr>)"
    "rle_expand ks = hex_text (state_bytes r')"
    using put_frags [of "[?f]" "[64]" ?s rest] state_frag_ok [of r'] by auto
  ultimately show ?thesis
    using converse_round_received [of s1 "[103]" "43 # rest" cb] s1
    by (auto simp: more_def send_reply_def BUFMAX_def)
qed

definition sample_state :: gdb_state where
  "sample_state = words_state (map of_nat [0..<16])"

definition sample_stub :: "gdb_io \<Rightarrow> stub" where
  "sample_stub l = \<lparr>line = l, mem = sample_tables, paging = sample_client, line_set = True, connected = False,
     gdb_serial_debug = False, params = \<lparr>thread_id = - 1, signo = 5, regs = sample_state, regs_changed = False\<rparr>,
     inbuf = 0x9000, outbuf = 0xa000\<rparr>"

lemma sample_stub_simps [simp]:
  "line (sample_stub l) = l" "mem (sample_stub l) = sample_tables" "paging (sample_stub l) = sample_client"
  "inbuf (sample_stub l) = 0x9000" "outbuf (sample_stub l) = 0xa000" "thread_id (params (sample_stub l)) = - 1"
  "signo (params (sample_stub l)) = 5" "regs (params (sample_stub l)) = sample_state"
  by (simp_all add: sample_stub_def)

theorem registers_round_trip_witness:
  "\<exists>ks s1 s2. converse_round None (sample_stub \<lparr>rx = packet (71 # hex_text (state_bytes sample_state)) @ 43 # packet [103] @ 43 # [], tx = []\<rparr>)
      = Some (GDB_MORE, s1) \<and> converse_round None s1 = Some (GDB_MORE, s2)
    \<and> regs (params s2) = sample_state \<and> rle_expand ks = hex_text (state_bytes sample_state)"
  using registers_round_trip [of "sample_stub \<lparr>rx = packet (71 # hex_text (state_bytes sample_state)) @ 43 # packet [103] @ 43 # [], tx = []\<rparr>"
      sample_state "[]" "[]" None]
  by simp blast

text \<open>the command \<open>P\<close> with the number \<open>i\<close> of a register and its value, lowest byte first, sets this register and
  no other.\<close>

theorem set_register:
  assumes "hex_numeral i ds" "i < 16" "length ds \<le> 8"
    and "rx (line s) = packet (80 # ds @ 61 # hex_text (word_bytes w)) @ 43 # rest"
  shows "\<exists>s'. converse_round cb s = Some (GDB_MORE, s') \<and> state_words (regs (params s')) = (state_words (regs (params s)))[i := w]
    \<and> regs_changed (params s') \<and> line s' = \<lparr>rx = rest, tx = tx (line s) @ 43 # packet [79, 75]\<rparr>"
proof -
  let ?cs = "80 # ds @ 61 # hex_text (word_bytes w)" and ?r = "words_state ((state_words (regs (params s)))[i := w])"
  let ?s = "received ?cs (43 # rest) s"
  note hex = hex_numeral_set [OF assms(1)]
  have b: "\<forall>b\<in>set (word_bytes w). b < 256" using word_bytes_byte by blast
  have num: "strtoul (inbuf s + 1) 16 (mem ?s) = Some (of_nat i, inbuf s + 1 + length ds)"
    using received_number [of ?cs "[80]" ds 61 "hex_text (word_bytes w) @ [0]" i s "43 # rest"] assms(1) by simp
  have eq: "mem ?s (inbuf s + 1 + length ds) = 61"
    using stored_char [of ?cs "80 # ds" 61 "hex_text (word_bytes w) @ [0]" "inbuf s" "mem s"] by simp
  have "bytes_at (mem ?s) (inbuf s + 1 + length ds + 1) (2 * length (word_bytes w)) = hex_text (word_bytes w)"
    using stored_part [of ?cs "80 # ds @ [61]" "hex_text (word_bytes w)" "[0]" "inbuf s" "mem s"] by (simp add: add.assoc)
  then have bin: "hex2bin (inbuf s + 1 + length ds + 1) 4 (mem ?s) = (0, word_bytes w)"
    using hex2bin_text [of "mem ?s" "inbuf s + 1 + length ds + 1" "word_bytes w"] b by simp
  have i: "unat (of_nat i :: 32 word) = i" using assms(2) by (simp add: unat_of_nat)
  have "(of_nat i + 1) * 4 = (of_nat (4 * i + 4) :: 32 word)" by simp
  then have small: "\<not> (of_nat i + 1) * 4 > (64 :: 32 word)"
    using assms(2) by (simp add: word_less_nat_alt unat_of_nat del: of_nat_add of_nat_mult)
  have reg: "of_nat i \<noteq> (0x29 :: 32 word)"
  proof
    assume "of_nat i = (0x29 :: 32 word)"
    then have "unat (of_nat i :: 32 word) = 41" by simp
    then show False using i assms(2) by simp
  qed
  have P: "mem ?s (inbuf ?s) = 80"
    using stored_char [of ?cs "[]" 80 "ds @ 61 # hex_text (word_bytes w) @ [0]" "inbuf s" "mem s"] by simp
  have "cmd_set_reg ?s = more Reply_ok (mark_changed (set_regs ?r ?s))"
  proof -
    have "cmd_set_reg ?s = (if inbuf s + 1 + length ds = inbuf s + 1 \<or> (61 :: nat) \<noteq> 61 then more (Reply_error 4) ?s
        else if of_nat i = (0x29 :: 32 word) then more Reply_ok ?s
        else if (of_nat i + 1) * 4 > (64 :: 32 word) then more (Reply_error 4) ?s
        else do {
          kassert (word_bytes w = [] \<or> i < 16);
          let s' = (if word_bytes w = [] then ?s
                    else set_regs (patch_state (4 * i) (word_bytes w) (regs (params s))) ?s);
          if (0 :: int) \<noteq> 0 then more (Reply_error 4) s' else more Reply_ok (mark_changed s')
        })"
      unfolding cmd_set_reg_def received_simps(1,3) num Option.bind.bind_lunit prod.case eq Let_def bin i ..
    also have "\<dots> = more Reply_ok (mark_changed (set_regs ?r ?s))"
      using small reg hex_numeral_nonempty [OF assms(1)] assms(2) patch_state_word [OF assms(2)]
      by (simp only: if_not_P if_False) simp
    finally show ?thesis .
  qed
  then have cmd: "command cb ?s = more Reply_ok (mark_changed (set_regs ?r ?s))"
    by (simp only: command_def Let_def P) simp
  have body: "body_ok 0 ?cs" using hex set_hex_text [OF b] by (intro body_ok_plain) auto
  have "?cs ! 2 \<noteq> 58" using third_of_number [OF assms(1), of 61] by simp
  then have third: "store_bytes (inbuf s) (?cs @ [0]) (mem s) (inbuf s + 2) \<noteq> 58" by (intro third_byte) simp_all
  show ?thesis
    using converse_round_received [OF assms(4) body _ third, of cb] cmd assms(3)
      send_reply_short(1) [of "mark_changed (set_regs ?r ?s)" rest cb]
    by (simp add: BUFMAX_def more_def mark_changed_def set_regs_def state_words_state)
qed

theorem set_register_witness:
  "\<exists>s'. converse_round None (sample_stub \<lparr>rx = packet (80 # [56] @ 61 # hex_text (word_bytes 0x1234)) @ 43 # [], tx = []\<rparr>) = Some (GDB_MORE, s')
    \<and> state_words (regs (params s')) = (map of_nat [0..<16])[8 := 0x1234]"
proof -
  have "hex_numeral 8 [56]" by (simp add: hex_numeral_def number_value_def digit_value_def)
  moreover have "state_words sample_state = map of_nat [0..<16]"
    by (simp add: sample_state_def state_words_state)
  ultimately show ?thesis
    using set_register [of 8 "[56]" "sample_stub \<lparr>rx = packet (80 # [56] @ 61 # hex_text (word_bytes 0x1234)) @ 43 # [], tx = []\<rparr>"
        "0x1234" "[]" None] by fastforce
qed

subsection \<open>Memory\<close>

text \<open>The buffers of the stub do not hold the page tables, and none of the frames \<open>f\<close> lies in them.\<close>

definition stub_area :: "stub \<Rightarrow> nat set" where
  "stub_area s = {inbuf s..<inbuf s + BUFMAX + 1} \<union> {outbuf s..<outbuf s + BUFMAX}"

definition outside_stub :: "stub \<Rightarrow> nat \<Rightarrow> (nat \<Rightarrow> nat) \<Rightarrow> bool" where
  "outside_stub s k f \<longleftrightarrow> (\<forall>i<k. f i \<notin> stub_area s \<and> mem s (f i) < 256)"

lemma received_mem:
  "length cs < BUFMAX \<Longrightarrow> a \<notin> stub_area s \<Longrightarrow> mem (received cs r s) a = mem s a"
  by (auto simp: stub_area_def intro!: store_bytes_outside)

lemma received_mapped:
  assumes "stable (paging s) (mem s) (stub_area s)" "mapped (paging s) (mem s) va n k f" "length cs < BUFMAX"
  shows "mapped (paging s) (mem (received cs r s)) va n k f"
  using mapped_stable [OF assms(1)] received_mem [OF assms(3)] assms(2) by blast

lemma received_stable:
  assumes "stable (paging s) (mem s) (stub_area s \<union> E)" "length cs < BUFMAX"
  shows "stable (paging s) (mem (received cs r s)) (stub_area s \<union> E)"
  unfolding stable_def
proof (intro allI impI)
  fix m' assume m': "\<forall>a. a \<notin> stub_area s \<union> E \<longrightarrow> m' a = mem (received cs r s) a"
  have "\<forall>a. a \<notin> stub_area s \<union> E \<longrightarrow> mem (received cs r s) a = mem s a"
    using received_mem [OF assms(2)] by blast
  moreover from this m' have "\<forall>a. a \<notin> stub_area s \<union> E \<longrightarrow> m' a = mem s a"
    by (simp del: received_simps(6))
  ultimately have "mmu (paging s) (mem (received cs r s)) = mmu (paging s) (mem s)" "mmu (paging s) m' = mmu (paging s) (mem s)"
    using assms(1) unfolding stable_def by blast+
  then show "mmu (paging s) m' = mmu (paging s) (mem (received cs r s))" by simp
qed

lemma stable_subset: "stable c m D \<Longrightarrow> E \<subseteq> D \<Longrightarrow> stable c m E"
  unfolding stable_def by blast

text \<open>C26: the command \<open>m\<close> with an address and a length of at most half the buffer answers with the bytes that the
  program would see there through its page tables, as hexadecimal text; where a byte of the block is not mapped
  the answer is the error 3. The registers stay as they are.\<close>

theorem read_memory:
  assumes "hex_numeral a as" "hex_numeral n ds" "length as + length ds + 2 < BUFMAX" "0 < n" "2 * n \<le> BUFMAX"
    and "mapped (paging s) (mem s) (of_nat a) n k f" "stable (paging s) (mem s) (stub_area s)" "outside_stub s k f"
    and "rx (line s) = packet (109 # as @ 44 # ds) @ 43 # rest"
  shows "\<exists>ks s'. converse_round cb s = Some (GDB_MORE, s') \<and> params s' = params s
    \<and> line s' = \<lparr>rx = rest, tx = tx (line s) @ 43 # packet ks\<rparr>
    \<and> rle_expand ks = (if k = n then hex_text (map (\<lambda>i. mem s (f i)) [0..<n]) else [69, 48, 51])"
proof -
  let ?cs = "109 # as @ 44 # ds"
  let ?s = "received ?cs (43 # rest) s"
  have len: "length ?cs < BUFMAX" using assms(3) by simp
  have nn: "unat (of_nat n :: 32 word) = n" "of_nat n * 2 = (of_nat (2 * n) :: 32 word)"
    using assms(5) by (simp_all add: unat_of_nat BUFMAX_def)
  have small: "\<not> of_nat n * 2 > (of_nat BUFMAX :: 32 word)"
    unfolding nn(2) word_less_nat_alt using assms(5) by (simp add: unat_of_nat BUFMAX_def del: of_nat_mult)
  have parse: "parse_block ?s = Some (Some (of_nat a, of_nat n, inbuf s + (2 + length as + length ds)))"
    using parse_block_received(1) [of ?cs 109 as ds 0 "[]" a n "43 # rest" s] assms(1,2) by simp
  have m: "mem ?s (inbuf ?s) = 109"
    using stored_char [of ?cs "[]" 109 "as @ 44 # ds @ [0]" "inbuf s" "mem s"] by simp
  have sub: "{inbuf s..<inbuf s + n} \<subseteq> stub_area s" using assms(5) by (auto simp: stub_area_def)
  have stable: "stable (paging s) (mem ?s) {inbuf s..<inbuf s + n}"
    using received_stable [of s "{}" ?cs "43 # rest"] assms(7) len sub by (auto intro: stable_subset simp del: received_simps(6))
  have out: "f i \<notin> stub_area s" "mem s (f i) < 256" if "i < k" for i
    using assms(8) that unfolding outside_stub_def by blast+
  have f: "\<forall>i<k. f i < inbuf s \<or> inbuf s + n \<le> f i" "\<forall>i<k. mem ?s (f i) = mem s (f i)"
  proof -
    show "\<forall>i<k. f i < inbuf s \<or> inbuf s + n \<le> f i"
      using out(1) sub by (metis atLeastLessThan_iff not_less subsetD)
    show "\<forall>i<k. mem ?s (f i) = mem s (f i)" using received_mem [OF len out(1)] by blast
  qed
  let ?m = "store_bytes (inbuf s) (map (\<lambda>i. mem s (f i)) [0..<k]) (mem ?s)"
  have map: "map (\<lambda>i. mem ?s (f i)) [0..<k] = map (\<lambda>i. mem s (f i)) [0..<k]" using f(2) by simp
  have copy: "gdb_copyin (paging s) (of_nat a) (inbuf s) n (mem ?s) = Some (if k = n then 0 else - 1, ?m)"
    using gdb_copyin_mapped [OF received_mapped [OF assms(7,6) len] stable f(1)] unfolding map .
  let ?s' = "?s\<lparr>mem := ?m\<rparr>"
  have "cmd_read ?s = (if k = n then more (Reply_data [memory_frag (inbuf s) n ?s']) ?s' else more (Reply_error 3) ?s')"
    using small copy assms(5) unfolding cmd_read_def parse Option.bind.bind_lunit option.case prod.case nn(1) received_simps(1,4)
    by (simp add: BUFMAX_def Let_def del: received_simps(6))
  then have cmd: "command cb ?s = (if k = n then more (Reply_data [memory_frag (inbuf s) n ?s']) ?s' else more (Reply_error 3) ?s')"
    by (simp only: command_def Let_def m) simp
  have body: "body_ok 0 ?cs"
    using hex_numeral_set [OF assms(1)] hex_numeral_set [OF assms(2)] by (intro body_ok_plain) auto
  have "?cs ! 2 \<noteq> 58" using third_of_number [OF assms(1), of 44] by simp
  then have third: "store_bytes (inbuf s) (?cs @ [0]) (mem s) (inbuf s + 2) \<noteq> 58"
    using hex_numeral_nonempty [OF assms(1)] by (intro third_byte) (simp_all add: Suc_le_eq)
  note round = converse_round_received [OF assms(9) body len third, of cb, unfolded cmd]
  show ?thesis
  proof (cases "k = n")
    case False
    then show ?thesis using round send_reply_short(3) [of ?s' rest 3 cb]
      by (intro exI [of _ "[69, 48, 51]"]) (simp add: more_def hexchars_def)
  next
    case True
    let ?f = "memory_frag (inbuf s) n ?s'"
    have bs: "bytes_at (data ?f) 0 n = map (\<lambda>i. mem s (f i)) [0..<n]"
      using True by (intro nth_equalityI) (simp_all add: memory_frag_def)
    have "data ?f i < 256" if "i < n" for i
      using that out(2) [of i] True by (simp add: memory_frag_def)
    then have "list_all2 frag_ok [?f] [n]" using assms(4) by (simp add: frag_ok_def frag_size_def) (simp add: memory_frag_def)
    moreover have "frag_text ?f 0 n = hex_text (map (\<lambda>i. mem s (f i)) [0..<n])"
      using bs by (simp add: frag_text_def) (simp add: memory_frag_def)
    ultimately obtain ks where "put [?f] ?s' = Some (?s'\<lparr>line := \<lparr>rx = rest, tx = tx (line ?s') @ packet ks\<rparr>\<rparr>)"
      "rle_expand ks = hex_text (map (\<lambda>i. mem s (f i)) [0..<n])"
      using put_frags [of "[?f]" "[n]" ?s' rest] by auto
    then show ?thesis using round True by (auto simp: more_def send_reply_def)
  qed
qed

lemma sample_area: "stub_area (sample_stub l) = {0x9000..<0x9191} \<union> {0xa000..<0xa190}"
  by (simp add: stub_area_def BUFMAX_def)

lemma sample_outside: "outside_stub (sample_stub l) 4 sample_frames"
proof -
  have "sample_frames i \<in> {0x3000, 0x3001, 0x7ffe, 0x7fff}" if "i < 4" for i
    using that by (auto simp: sample_frames_def)
  then show ?thesis unfolding outside_stub_def sample_area by (fastforce simp: sample_tables_def)
qed

theorem read_memory_witness:
  "\<exists>ks s'. converse_round None (sample_stub \<lparr>rx = packet (109 # [53, 102, 102, 101] @ 44 # [52]) @ 43 # [], tx = []\<rparr>) = Some (GDB_MORE, s')
    \<and> line s' = \<lparr>rx = [], tx = 43 # packet ks\<rparr> \<and> rle_expand ks = hex_text [0xfe, 0xff, 0, 1]"
proof -
  let ?s = "sample_stub \<lparr>rx = packet (109 # [53, 102, 102, 101] @ 44 # [52]) @ 43 # [], tx = []\<rparr>"
  have "map (\<lambda>i. mem ?s (sample_frames i)) [0..<4] = [0xfe, 0xff, 0, 1]"
    by (simp add: upt_rec sample_frames_def sample_tables_def)
  moreover have "hex_numeral 0x5ffe [53, 102, 102, 101]" "hex_numeral 4 [52]"
    by (simp_all add: hex_numeral_def number_value_def digit_value_def)
  moreover have "mapped (paging ?s) (mem ?s) (of_nat 0x5ffe) 4 4 sample_frames" using sample_mapped by simp
  moreover have "stable (paging ?s) (mem ?s) (stub_area ?s)"
    unfolding sample_area using sample_stable [of "{0x9000..<0x9191} \<union> {0xa000..<0xa190}"] by fastforce
  ultimately show ?thesis
    using read_memory [of "0x5ffe" "[53, 102, 102, 101]" 4 "[52]" ?s 4 sample_frames "[]" None] sample_outside
    by (fastforce simp: BUFMAX_def)
qed

text \<open>The common end of the commands that write: copying the decoded bytes from a buffer, and the reply.\<close>

lemma copyout_from_buffer:
  assumes "\<forall>x. x \<notin> stub_area s \<longrightarrow> m x = mem s x" "{src..<src + length bs} \<subseteq> stub_area s" "bytes_at m src (length bs) = bs"
    and "mapped (paging s) (mem s) va (length bs) k f" "stable (paging s) (mem s) (stub_area s \<union> f ` {..<k})"
    and "\<forall>i<k. f i \<notin> stub_area s"
  shows "gdb_copyout (paging s) src va (length bs) m
    = Some (if k = length bs then 0 else - 1, store_at (map (\<lambda>i. (f i, bs ! i)) [0..<k]) m)"
proof -
  have "\<forall>x. x \<notin> stub_area s \<union> f ` {..<k} \<longrightarrow> m x = mem s x" using assms(1) by blast
  then have tr: "mapped (paging s) m va (length bs) k f" using mapped_stable [OF assms(5)] assms(4) by blast
  have "\<forall>i<k. f i < src \<or> src + length bs \<le> f i"
    using assms(2,6) by (metis atLeastLessThan_iff not_less subsetD)
  then have "gdb_copyout (paging s) src va (length bs) m
      = Some (if k = length bs then 0 else - 1, store_at (map (\<lambda>i. (f i, m (src + i))) [0..<k]) m)"
    by (rule gdb_copyout_mapped [OF tr stable_step [OF assms(5,1)]])
  moreover have "m (src + i) = bs ! i" if "i < k" for i
    using nth_bytes_at [of i "length bs" m src] assms(3,4) that by (simp add: mapped_def)
  then have "map (\<lambda>i. (f i, m (src + i))) [0..<k] = map (\<lambda>i. (f i, bs ! i)) [0..<k]" by simp
  ultimately show ?thesis by simp
qed

lemma agree_outside:
  assumes "\<forall>x. x \<notin> stub_area s \<longrightarrow> m x = mem s x" "{p..<p + length bs} \<subseteq> stub_area s"
  shows "\<forall>x. x \<notin> stub_area s \<longrightarrow> store_bytes p bs m x = mem s x"
proof (intro allI impI)
  fix x assume x: "x \<notin> stub_area s"
  then have "x \<notin> {p..<p + length bs}" using assms(2) by blast
  then show "store_bytes p bs m x = mem s x" using assms(1) x by (subst store_bytes_outside) auto
qed

lemma round_of_write:
  assumes "rx (line s) = packet cs @ 43 # rest" "body_ok 0 cs" "length cs < BUFMAX"
    and "cs = x # as @ 44 # bs" "hex_numeral a as"
    and "command cb (received cs (43 # rest) s) = more (if ok then Reply_ok else Reply_error 3) ((received cs (43 # rest) s)\<lparr>mem := m\<rparr>)"
  shows "converse_round cb s = Some (GDB_MORE, (received cs (43 # rest) s)
    \<lparr>mem := m, line := \<lparr>rx = rest, tx = tx (line s) @ 43 # packet (if ok then [79, 75] else [69, 48, 51])\<rparr>\<rparr>)"
proof -
  have "cs ! 2 \<noteq> 58" unfolding assms(4) using third_of_number [OF assms(5), of 44] by simp
  then have third: "store_bytes (inbuf s) (cs @ [0]) (mem s) (inbuf s + 2) \<noteq> 58"
    using hex_numeral_nonempty [OF assms(5)] unfolding assms(4) by (intro third_byte) (simp_all add: Suc_le_eq)
  let ?s = "(received cs (43 # rest) s)\<lparr>mem := m\<rparr>"
  show ?thesis
    using converse_round_received [OF assms(1-3) third, of cb, unfolded assms(6)]
      send_reply_short(1) [of ?s rest cb] send_reply_short(3) [of ?s rest 3 cb]
    by (cases ok) (simp_all add: more_def hexchars_def)
qed

text \<open>C27: the command \<open>M\<close> with an address, the length \<open>n\<close> and \<open>n\<close> bytes as hexadecimal text stores these bytes where
  the page tables of the program map them and answers \<open>OK\<close>; where only the first \<open>k\<close> bytes are mapped it stores
  these and answers the error 3. Outside the buffers of the stub nothing else changes.\<close>

theorem write_memory:
  assumes "hex_numeral a as" "hex_numeral n ds" "length bs = n" "\<forall>b\<in>set bs. b < 256"
    and "length as + length ds + 2 * n + 3 < BUFMAX" "inbuf s + BUFMAX < 2 ^ 32"
    and "mapped (paging s) (mem s) (of_nat a) n k f" "stable (paging s) (mem s) (stub_area s \<union> f ` {..<k})"
    and "\<forall>i<k. f i \<notin> stub_area s"
    and "rx (line s) = packet (77 # as @ 44 # ds @ 58 # hex_text bs) @ 43 # rest"
  shows "\<exists>s'. converse_round cb s = Some (GDB_MORE, s') \<and> params s' = params s
    \<and> line s' = \<lparr>rx = rest, tx = tx (line s) @ 43 # packet (if k = n then [79, 75] else [69, 48, 51])\<rparr>
    \<and> (\<forall>x. x \<notin> stub_area s \<longrightarrow> mem s' x = store_at (map (\<lambda>i. (f i, bs ! i)) [0..<k]) (mem s) x)"
proof -
  let ?cs = "77 # as @ 44 # ds @ 58 # hex_text bs"
  let ?s = "received ?cs (43 # rest) s"
  let ?p = "inbuf s + (2 + length as + length ds)"
  have len: "length ?cs < BUFMAX" using assms(3,5) by simp
  have nn: "unat (of_nat n :: 32 word) = n" using assms(5) by (simp add: unat_of_nat BUFMAX_def)
  have parse: "parse_block ?s = Some (Some (of_nat a, of_nat n, ?p))" "mem ?s ?p = 58"
    using parse_block_received [of ?cs 77 as ds 58 "hex_text bs @ [0]" a n "43 # rest" s] assms(1,2) by simp_all
  have m: "mem ?s (inbuf ?s) = 77"
    using stored_char [of ?cs "[]" 77 "as @ 44 # ds @ 58 # hex_text bs @ [0]" "inbuf s" "mem s"] by simp
  have "bytes_at (mem ?s) (?p + 1) (2 * length bs) = hex_text bs"
    using stored_part [of ?cs "77 # as @ 44 # ds @ [58]" "hex_text bs" "[0]" "inbuf s" "mem s"] by (simp add: add.assoc)
  then have bin: "hex2bin (?p + 1) n (mem ?s) = (0, bs)"
    using hex2bin_text [of "mem ?s" "?p + 1" bs] assms(3,4) by simp
  let ?m = "store_bytes (outbuf s) bs (mem ?s)" and ?ps = "map (\<lambda>i. (f i, bs ! i)) [0..<k]"
  have fits: "\<not> (?p + 1 + 2 * n) mod 2 ^ 32 > inbuf s + BUFMAX" "n < BUFMAX" using assms(5,6) by simp_all
  then have sub: "{outbuf s..<outbuf s + length bs} \<subseteq> stub_area s" using assms(3) by (auto simp: stub_area_def)
  have agree: "\<forall>x. x \<notin> stub_area s \<longrightarrow> ?m x = mem s x"
    using agree_outside [OF _ sub] received_mem [OF len] by blast
  have copy: "gdb_copyout (paging s) (outbuf s) (of_nat a) n ?m = Some (if k = n then 0 else - 1, store_at ?ps ?m)"
    using copyout_from_buffer [OF agree sub _ _ assms(8,9)] assms(3,7) by simp
  have "cmd_write ?s = more (if k = n then Reply_ok else Reply_error 3) (?s\<lparr>mem := store_at ?ps ?m\<rparr>)"
    using fits copy parse(2)
    unfolding cmd_write_def parse(1) Option.bind.bind_lunit option.case prod.case nn received_simps(1,2) bin Let_def
    by (simp del: received_simps(6))
  then have cmd: "command cb ?s = more (if k = n then Reply_ok else Reply_error 3) (?s\<lparr>mem := store_at ?ps ?m\<rparr>)"
    by (simp only: command_def Let_def m) simp
  have body: "body_ok 0 ?cs"
    using hex_numeral_set [OF assms(1)] hex_numeral_set [OF assms(2)] set_hex_text [OF assms(4)]
    by (intro body_ok_plain) auto
  show ?thesis
    using round_of_write [OF assms(10) body len refl assms(1) cmd] agree store_at_cong [of ?m _ "mem s" ?ps] by simp
qed

theorem write_memory_witness:
  "\<exists>s'. converse_round None (sample_stub \<lparr>rx = packet (77 # [53, 102, 102, 101] @ 44 # [52] @ 58 # hex_text [9, 8, 7, 6]) @ 43 # [], tx = []\<rparr>)
      = Some (GDB_MORE, s')
    \<and> tx (line s') = 43 # packet [79, 75] \<and> mem s' 0x7ffe = 9 \<and> mem s' 0x3001 = 6"
proof -
  let ?s = "sample_stub \<lparr>rx = packet (77 # [53, 102, 102, 101] @ 44 # [52] @ 58 # hex_text [9, 8, 7, 6]) @ 43 # [], tx = []\<rparr>"
  let ?ps = "map (\<lambda>i. (sample_frames i, [9, 8, 7, 6] ! i)) [0..<4]"
  have ps: "?ps = [(0x7ffe, 9), (0x7fff, 8), (0x3000, 7), (0x3001, 6)]"
    by (simp add: upt_rec sample_frames_def)
  have "hex_numeral 0x5ffe [53, 102, 102, 101]" "hex_numeral 4 [52]"
    by (simp_all add: hex_numeral_def number_value_def digit_value_def)
  moreover have "mapped (paging ?s) (mem ?s) (of_nat 0x5ffe) 4 4 sample_frames" using sample_mapped by simp
  moreover have f: "sample_frames i \<in> {0x3000..<0x3002} \<union> {0x7ffe..<0x8000}" if "i < 4" for i
    using that by (auto simp: sample_frames_def)
  have "{0x1000..<0x3000} \<inter> (stub_area ?s \<union> sample_frames ` {..<4}) = {}"
    unfolding sample_area using f by fastforce
  then have "stable (paging ?s) (mem ?s) (stub_area ?s \<union> sample_frames ` {..<4})"
    using sample_stable by simp
  moreover have "\<forall>i<4. sample_frames i \<notin> stub_area ?s" unfolding sample_area using f by fastforce
  ultimately obtain s' where s': "converse_round None ?s = Some (GDB_MORE, s')" "tx (line s') = 43 # packet [79, 75]"
    "\<forall>x. x \<notin> stub_area ?s \<longrightarrow> mem s' x = store_at ?ps (mem ?s) x"
    using write_memory [of "0x5ffe" "[53, 102, 102, 101]" 4 "[52]" "[9, 8, 7, 6]" ?s 4 sample_frames "[]" None]
    by (fastforce simp: BUFMAX_def)
  then have "mem s' 0x7ffe = 9" "mem s' 0x3001 = 6" unfolding ps sample_area by simp_all
  then show ?thesis using s' by blast
qed

text \<open>The reading of the quoted text of \<open>X\<close>; \<open>None\<close> is a quote at the end.\<close>

fun unquote :: "nat list \<Rightarrow> nat list option" where
  "unquote [] = Some []"
| "unquote [c] = (if c = 125 then None else Some [c])"
| "unquote (c # d # q) =
     (if c = 125 then map_option (\<lambda>bs. xor d 32 # bs) (unquote q) else map_option (\<lambda>bs. c # bs) (unquote (d # q)))"

lemma bytes_at_upd: "out < p \<Longrightarrow> bytes_at (m(out := v)) p k = bytes_at m p k"
  by (rule bytes_at_cong) simp

text \<open>Decoding in place: the output never overtakes the input.\<close>

lemma dequote_unquote:
  assumes "bytes_at m p n = q" "out \<le> p"
  shows "case unquote q of
      Some bs \<Rightarrow> dequote p n out m = Inr (out + length bs, store_bytes out bs m)
    | None \<Rightarrow> \<exists>m'. dequote p n out m = Inl m'"
  using assms
proof (induction q arbitrary: p n out m rule: unquote.induct)
  case 1
  then have "n = 0" by (metis length_bytes_at list.size(3))
  then show ?case by simp
next
  case (2 c)
  then have "n = Suc 0" by (metis length_bytes_at length_Cons list.size(3))
  then show ?case using 2 by (simp add: bytes_at_Suc store_bytes_Cons)
next
  case (3 c d q)
  then have "n = Suc (Suc (length q))" by (metis length_bytes_at length_Cons)
  then obtain k where n: "n = Suc (Suc k)" "k = length q" by simp
  have m: "m p = c" "m (p + 1) = d" "bytes_at m (p + 1) (Suc k) = d # q" "bytes_at m (p + 2) k = q"
    using 3(3) n by (simp_all add: bytes_at_Suc)
  show ?case
  proof (cases "c = 125")
    case True
    have "bytes_at (m(out := xor d 32)) (p + 2) k = q" using m(4) 3(4) bytes_at_upd [of out "p + 2" m _ k] by simp
    from 3(1) [OF True this, of "out + 1"] 3(4) True n m show ?thesis
      by (simp add: store_bytes_Cons fun_upd_def split: option.splits)
  next
    case False
    have "bytes_at (m(out := c)) (p + 1) (Suc k) = d # q" using m(3) 3(4) bytes_at_upd [of out "p + 1" m _ "Suc k"] by simp
    from 3(2) [OF False this, of "out + 1"] 3(4) False n m show ?thesis
      by (simp add: store_bytes_Cons fun_upd_def split: option.splits)
  qed
qed

lemma length_unquote: "unquote q = Some bs \<Longrightarrow> length bs \<le> length q"
  by (induction q arbitrary: bs rule: unquote.induct) (fastforce split: if_splits)+

text \<open>the command \<open>X\<close> takes as many characters of its quoted text as its length says, undoes the quoting, and
  stores the bytes where the page tables map them. The length thus counts the quotes: with a quote among its
  characters the command stores fewer bytes than \<open>n\<close> and still answers \<open>OK\<close>.\<close>

theorem write_binary_memory:
  assumes "hex_numeral a as" "hex_numeral n ds" "n \<le> length q" "unquote (take n q) = Some bs"
    and "length as + length ds + length q + 3 < BUFMAX" "body_ok 0 (88 # as @ 44 # ds @ 58 # q)" "inbuf s + BUFMAX < 2 ^ 32"
    and "mapped (paging s) (mem s) (of_nat a) (length bs) k f" "stable (paging s) (mem s) (stub_area s \<union> f ` {..<k})"
    and "\<forall>i<k. f i \<notin> stub_area s"
    and "rx (line s) = packet (88 # as @ 44 # ds @ 58 # q) @ 43 # rest"
  shows "\<exists>s'. converse_round cb s = Some (GDB_MORE, s') \<and> params s' = params s
    \<and> line s' = \<lparr>rx = rest, tx = tx (line s) @ 43 # packet (if k = length bs then [79, 75] else [69, 48, 51])\<rparr>
    \<and> (\<forall>x. x \<notin> stub_area s \<longrightarrow> mem s' x = store_at (map (\<lambda>i. (f i, bs ! i)) [0..<k]) (mem s) x)"
proof -
  let ?cs = "88 # as @ 44 # ds @ 58 # q"
  let ?s = "received ?cs (43 # rest) s"
  let ?p = "inbuf s + (2 + length as + length ds)"
  have len: "length ?cs < BUFMAX" using assms(5) by simp
  have nn: "unat (of_nat n :: 32 word) = n" using assms(3,5) by (simp add: unat_of_nat BUFMAX_def)
  have parse: "parse_block ?s = Some (Some (of_nat a, of_nat n, ?p))" "mem ?s ?p = 58"
    using parse_block_received [of ?cs 88 as ds 58 "q @ [0]" a n "43 # rest" s] assms(1,2) by simp_all
  have m: "mem ?s (inbuf ?s) = 88"
    using stored_char [of ?cs "[]" 88 "as @ 44 # ds @ 58 # q @ [0]" "inbuf s" "mem s"] by simp
  have "length (take n q) = n" using assms(3) by simp
  moreover have "bytes_at (mem ?s) (?p + 1) (length (take n q)) = take n q"
    using stored_part [of ?cs "88 # as @ 44 # ds @ [58]" "take n q" "drop n q @ [0]" "inbuf s" "mem s"] by (simp add: add.assoc)
  ultimately have "bytes_at (mem ?s) (?p + 1) n = take n q" by simp
  then have dq: "dequote (?p + 1) n (inbuf s) (mem ?s) = Inr (inbuf s + length bs, store_bytes (inbuf s) bs (mem ?s))"
    using dequote_unquote [of "mem ?s" "?p + 1" n "take n q" "inbuf s"] assms(4) by simp
  let ?m = "store_bytes (inbuf s) bs (mem ?s)" and ?ps = "map (\<lambda>i. (f i, bs ! i)) [0..<k]"
  have fits: "(?p + 1 + n) mod 2 ^ 32 = ?p + 1 + n" "\<not> ?p + 1 + n > inbuf s + BUFMAX"
    using assms(3,5,7) by simp_all
  have "length bs < BUFMAX" using length_unquote [OF assms(4)] assms(3,5) by simp
  then have sub: "{inbuf s..<inbuf s + length bs} \<subseteq> stub_area s" by (auto simp: stub_area_def)
  have agree: "\<forall>x. x \<notin> stub_area s \<longrightarrow> ?m x = mem s x"
    using agree_outside [OF _ sub] received_mem [OF len] by blast
  have copy: "gdb_copyout (paging s) (inbuf s) (of_nat a) (length bs) ?m
      = Some (if k = length bs then 0 else - 1, store_at ?ps ?m)"
    using copyout_from_buffer [OF agree sub _ assms(8-10)] by simp
  have "cmd_write_binary ?s = more (if k = length bs then Reply_ok else Reply_error 3) (?s\<lparr>mem := store_at ?ps ?m\<rparr>)"
    using fits copy parse(2)
    unfolding cmd_write_binary_def parse(1) Option.bind.bind_lunit option.case prod.case nn received_simps(1,2) fits(1)
      diff_add_inverse dq sum.case
    by (simp del: received_simps(6))
  then have cmd: "command cb ?s = more (if k = length bs then Reply_ok else Reply_error 3) (?s\<lparr>mem := store_at ?ps ?m\<rparr>)"
    by (simp only: command_def Let_def m) simp
  show ?thesis
    using round_of_write [OF assms(11,6) len refl assms(1) cmd] agree store_at_cong [of ?m _ "mem s" ?ps] by simp
qed

theorem write_binary_memory_witness:
  "\<exists>s'. converse_round None (sample_stub \<lparr>rx = packet (88 # [53, 102, 102, 101] @ 44 # [52] @ 58 # [125, 3, 65, 66, 67]) @ 43 # [], tx = []\<rparr>)
      = Some (GDB_MORE, s')
    \<and> tx (line s') = 43 # packet [79, 75] \<and> mem s' 0x7ffe = 35 \<and> mem s' 0x3000 = 66 \<and> mem s' 0x3001 = sample_tables 0x3001"
proof -
  let ?s = "sample_stub \<lparr>rx = packet (88 # [53, 102, 102, 101] @ 44 # [52] @ 58 # [125, 3, 65, 66, 67]) @ 43 # [], tx = []\<rparr>"
  let ?bs = "[35, 65, 66] :: nat list"
  let ?ps = "map (\<lambda>i. (sample_frames i, ?bs ! i)) [0..<3]"
  have ps: "?ps = [(0x7ffe, 35), (0x7fff, 65), (0x3000, 66)]" by (simp add: upt_rec sample_frames_def)
  have "hex_numeral 0x5ffe [53, 102, 102, 101]" "hex_numeral 4 [52]"
    by (simp_all add: hex_numeral_def number_value_def digit_value_def)
  moreover have "unquote (take 4 [125, 3, 65, 66, 67]) = Some ?bs" by simp
  moreover have "mapped (paging ?s) (mem ?s) (of_nat 0x5ffe) (length ?bs) 3 sample_frames"
    using sample_mapped by (simp add: mapped_def)
  moreover have f: "sample_frames i \<in> {0x3000..<0x3002} \<union> {0x7ffe..<0x8000}" if "i < 3" for i
    using that by (auto simp: sample_frames_def)
  have "{0x1000..<0x3000} \<inter> (stub_area ?s \<union> sample_frames ` {..<3}) = {}"
    unfolding sample_area using f by fastforce
  then have "stable (paging ?s) (mem ?s) (stub_area ?s \<union> sample_frames ` {..<3})"
    using sample_stable by simp
  moreover have "\<forall>i<3. sample_frames i \<notin> stub_area ?s" unfolding sample_area using f by fastforce
  ultimately obtain s' where s': "converse_round None ?s = Some (GDB_MORE, s')" "tx (line s') = 43 # packet [79, 75]"
    "\<forall>x. x \<notin> stub_area ?s \<longrightarrow> mem s' x = store_at ?ps (mem ?s) x"
    using write_binary_memory [of "0x5ffe" "[53, 102, 102, 101]" 4 "[52]" "[125, 3, 65, 66, 67]" ?bs ?s 3 sample_frames "[]" None]
    by (fastforce simp: BUFMAX_def)
  then have "mem s' 0x7ffe = 35" "mem s' 0x3000 = 66" "mem s' 0x3001 = sample_tables 0x3001" unfolding ps sample_area by simp_all
  then show ?thesis using s' by blast
qed

text \<open>the test of the length of \<open>m\<close> against the buffer doubles it in 32 bits: a length of \<open>2 ^ 31\<close> or a little
  more passes, and the command copies that many bytes into the buffer of 401 bytes.\<close>

theorem read_length_wraps:
  assumes "hex_numeral a as" "hex_numeral n ds" "2 ^ 31 \<le> n" "n \<le> 2 ^ 31 + 200"
  shows "command cb (received (109 # as @ 44 # ds) r s) = None"
proof -
  let ?s = "received (109 # as @ 44 # ds) r s"
  have parse: "parse_block ?s = Some (Some (of_nat a, of_nat n, inbuf s + (2 + length as + length ds)))"
    using parse_block_received(1) [of "109 # as @ 44 # ds" 109 as ds 0 "[]" a n r s] assms(1,2) by simp
  have m: "mem ?s (inbuf ?s) = 109"
    using stored_char [of "109 # as @ 44 # ds" "[]" 109 "as @ 44 # ds @ [0]" "inbuf s" "mem s"] by simp
  have "n * 2 mod 2 ^ 32 = n * 2 - 2 ^ 32" using assms(3,4) by (simp add: le_mod_geq)
  then have "unat (of_nat (n * 2) :: 32 word) \<le> 400" using assms(4) by (simp add: unat_of_nat del: of_nat_mult)
  then have "\<not> of_nat n * 2 > (of_nat BUFMAX :: 32 word)" by (simp add: word_less_nat_alt BUFMAX_def)
  moreover have "unat (of_nat n :: 32 word) = n" using assms(4) by (simp add: unat_of_nat)
  ultimately have "cmd_read ?s = None"
    unfolding cmd_read_def parse using assms(3) by (simp add: BUFMAX_def)
  then show ?thesis by (simp only: command_def Let_def m) simp
qed

theorem read_length_wraps_witness:
  "command None (received (109 # [48] @ 44 # [56, 48, 48, 48, 48, 48, 48, 48]) [] (sample_stub \<lparr>rx = [], tx = []\<rparr>)) = None"
  by (rule read_length_wraps [of 0 _ "2 ^ 31"]) (simp_all add: hex_numeral_def number_value_def digit_value_def)

text \<open>the test of the register number of \<open>P\<close> adds 1 before it multiplies: the number \<open>ffffffff\<close> passes, and the
  value is stored in front of the register structure.\<close>

theorem register_number_wraps:
  assumes "hex_numeral (2 ^ 32 - 1) ds"
  shows "command cb (received (80 # ds @ 61 # hex_text (word_bytes w)) r s) = None"
proof -
  let ?cs = "80 # ds @ 61 # hex_text (word_bytes w)"
  let ?s = "received ?cs r s"
  have b: "\<forall>b\<in>set (word_bytes w). b < 256" using word_bytes_byte by blast
  have num: "strtoul (inbuf s + 1) 16 (mem ?s) = Some (- 1, inbuf s + 1 + length ds)"
    using received_number [of ?cs "[80]" ds 61 "hex_text (word_bytes w) @ [0]" "2 ^ 32 - 1" s r] assms by simp
  have eq: "mem ?s (inbuf s + 1 + length ds) = 61"
    using stored_char [of ?cs "80 # ds" 61 "hex_text (word_bytes w) @ [0]" "inbuf s" "mem s"] by simp
  have "bytes_at (mem ?s) (inbuf s + 1 + length ds + 1) (2 * length (word_bytes w)) = hex_text (word_bytes w)"
    using stored_part [of ?cs "80 # ds @ [61]" "hex_text (word_bytes w)" "[0]" "inbuf s" "mem s"] by (simp add: add.assoc)
  then have bin: "hex2bin (inbuf s + 1 + length ds + 1) 4 (mem ?s) = (0, word_bytes w)"
    using hex2bin_text [of "mem ?s" "inbuf s + 1 + length ds + 1" "word_bytes w"] b by simp
  have P: "mem ?s (inbuf ?s) = 80"
    using stored_char [of ?cs "[]" 80 "ds @ 61 # hex_text (word_bytes w) @ [0]" "inbuf s" "mem s"] by simp
  have "cmd_set_reg ?s = None"
    unfolding cmd_set_reg_def received_simps(1,3) num Option.bind.bind_lunit prod.case eq Let_def bin
    using hex_numeral_nonempty [OF assms] by (simp add: unsigned_minus_1_eq_mask mask_eq_exp_minus_1)
  then show ?thesis by (simp only: command_def Let_def P) simp
qed

theorem register_number_wraps_witness:
  "command None (received (80 # [102, 102, 102, 102, 102, 102, 102, 102] @ 61 # hex_text (word_bytes 0)) [] (sample_stub \<lparr>rx = [], tx = []\<rparr>)) = None"
  by (rule register_number_wraps) (simp add: hex_numeral_def number_value_def digit_value_def)

lemma received_frag:
  assumes "\<forall>c\<in>set cs. 0 < c \<and> c < 256"
  shows "frag_ok (memory_frag (inbuf s) 0 (received cs r s)) (length cs)"
    "frag_text (memory_frag (inbuf s) 0 (received cs r s)) 0 (length cs) = hex_text cs"
proof -
  let ?f = "memory_frag (inbuf s) 0 (received cs r s)"
  have stored: "data ?f i = (cs @ [0]) ! i" if "i < length (cs @ [0])" for i
    using store_bytes_inside [OF that, of "inbuf s" "mem s"] by (simp add: memory_frag_def)
  have char: "data ?f i < 256 \<and> data ?f i \<noteq> 0" if "i < length cs" for i
    using stored [of i] that assms nth_mem [OF that] by (simp add: nth_append)
  moreover have "data ?f (length cs) = 0" using stored [of "length cs"] by simp
  moreover have f: "len ?f = 0" "hexify ?f" by (simp_all add: memory_frag_def)
  ultimately show "frag_ok ?f (length cs)" by (simp add: frag_ok_def frag_size_def)
  have "bytes_at (data ?f) 0 (length cs) = cs"
    using stored by (intro nth_equalityI) (simp_all add: nth_append)
  then show "frag_text ?f 0 (length cs) = hex_text cs" using f by (simp add: frag_text_def)
qed

text \<open>a fragment of length 0 is taken as a string, so the command \<open>m\<close> with the length 0 does not answer with an
  empty text: it sends the text of the command itself back, as hexadecimal digits.\<close>

theorem read_nothing_echoes_command:
  assumes "hex_numeral a as" "hex_numeral 0 ds" "length as + length ds + 2 < BUFMAX"
    and "rx (line s) = packet (109 # as @ 44 # ds) @ 43 # rest"
  shows "\<exists>ks s'. converse_round cb s = Some (GDB_MORE, s')
    \<and> line s' = \<lparr>rx = rest, tx = tx (line s) @ 43 # packet ks\<rparr> \<and> rle_expand ks = hex_text (109 # as @ 44 # ds)"
proof -
  let ?cs = "109 # as @ 44 # ds"
  let ?s = "received ?cs (43 # rest) s" and ?f = "memory_frag (inbuf s) 0 (received ?cs (43 # rest) s)"
  have len: "length ?cs < BUFMAX" using assms(3) by simp
  have set: "set ?cs \<subseteq> {44, 109} \<union> {48..57} \<union> {97..102}"
    using hex_numeral_set [OF assms(1)] hex_numeral_set [OF assms(2)] by auto
  have parse: "parse_block ?s = Some (Some (of_nat a, 0, inbuf s + (2 + length as + length ds)))"
    using parse_block_received(1) [of ?cs 109 as ds 0 "[]" a 0 "43 # rest" s] assms(1,2) by simp
  have m: "mem ?s (inbuf ?s) = 109"
    using stored_char [of ?cs "[]" 109 "as @ 44 # ds @ [0]" "inbuf s" "mem s"] by simp
  have "cmd_read ?s = more (Reply_data [?f]) ?s"
    unfolding cmd_read_def parse by (simp add: gdb_copyin.simps BUFMAX_def Let_def del: received_simps(6))
  then have cmd: "command cb ?s = more (Reply_data [?f]) ?s"
    by (simp only: command_def Let_def m) simp
  have frag: "frag_ok ?f (length ?cs)" "frag_text ?f 0 (length ?cs) = hex_text ?cs"
    using set by (intro received_frag; fastforce)+
  obtain ks where ks: "put [?f] ?s = Some (?s\<lparr>line := \<lparr>rx = rest, tx = tx (line ?s) @ packet ks\<rparr>\<rparr>)"
    "rle_expand ks = hex_text ?cs"
    using put_frags [of "[?f]" "[length ?cs]" ?s rest] frag by auto
  have body: "body_ok 0 ?cs" using set by (intro body_ok_plain) auto
  have "?cs ! 2 \<noteq> 58" using third_of_number [OF assms(1), of 44] by simp
  then have third: "store_bytes (inbuf s) (?cs @ [0]) (mem s) (inbuf s + 2) \<noteq> 58"
    using hex_numeral_nonempty [OF assms(1)] by (intro third_byte) (simp_all add: Suc_le_eq)
  show ?thesis
    using converse_round_received [OF assms(4) body len third, of cb, unfolded cmd] ks
    by (auto simp: more_def send_reply_def)
qed

theorem read_nothing_echoes_command_witness:
  "\<exists>ks s'. converse_round None (sample_stub \<lparr>rx = packet (109 # [48] @ 44 # [48]) @ 43 # [], tx = []\<rparr>) = Some (GDB_MORE, s')
    \<and> line s' = \<lparr>rx = [], tx = 43 # packet ks\<rparr> \<and> rle_expand ks = hex_text [109, 48, 44, 48]"
  using read_nothing_echoes_command [of 0 "[48]" "[48]" "sample_stub \<lparr>rx = packet (109 # [48] @ 44 # [48]) @ 43 # [], tx = []\<rparr>" "[]" None]
  by (simp add: hex_numeral_def number_value_def digit_value_def BUFMAX_def)

subsection \<open>Errors and resuming\<close>

lemma hex2bin_breaks:
  "bytes_at m p (2 * length bs) = hex_text bs \<Longrightarrow> \<forall>b\<in>set bs. b < 256 \<Longrightarrow> hex (m (p + 2 * length bs)) < 0 \<Longrightarrow> length bs < n
    \<Longrightarrow> hex2bin p n m = (- 1, bs)"
proof (induction bs arbitrary: p n)
  case Nil
  then obtain k where "n = Suc k" by (cases n) auto
  then show ?case using Nil by (simp add: hex_pair_def)
next
  case (Cons b bs)
  obtain k where n: "n = Suc k" using Cons.prems(4) by (cases n) auto
  from Cons.prems have "m p = hexchars (b div 16)" "m (Suc p) = hexchars (b mod 16)"
    "bytes_at m (p + 2) (2 * length bs) = hex_text bs"
    by (simp_all add: bytes_at_Suc)
  with Cons n show ?case by (simp add: Let_def add.assoc)
qed

text \<open>a command \<open>G\<close> whose text breaks off is answered by the error 4, but the bytes before the break are already
  in the register structure, and \<open>regs_changed\<close> does not tell.\<close>

theorem broken_registers_half_written:
  assumes "\<forall>b\<in>set bs. b < 256" "length bs < 64"
  shows "command cb (received (71 # hex_text bs) r s)
    = Some (GDB_MORE, Reply_error 4, set_regs (patch_state 0 bs (regs (params s))) (received (71 # hex_text bs) r s))"
proof -
  let ?cs = "71 # hex_text bs"
  let ?s = "received ?cs r s"
  have "bytes_at (mem ?s) (inbuf s + 1) (2 * length bs) = hex_text bs"
    using stored_part [of ?cs "[71]" "hex_text bs" "[0]" "inbuf s" "mem s"] by simp
  moreover have "mem ?s (inbuf s + 1 + 2 * length bs) = 0"
    using stored_char [of ?cs "71 # hex_text bs" 0 "[]" "inbuf s" "mem s"] by simp
  ultimately have "hex2bin (inbuf s + 1) 64 (mem ?s) = (- 1, bs)"
    using hex2bin_breaks [of "mem ?s" "inbuf s + 1" bs 64] assms(1,2) by (simp add: hex_def)
  moreover have "mem ?s (inbuf s) = 71"
    using stored_char [of ?cs "[]" 71 "hex_text bs @ [0]" "inbuf s" "mem s"] by simp
  ultimately show ?thesis by (simp add: command_def cmd_set_regs_def more_def del: received_simps(6))
qed

theorem broken_registers_half_written_witness:
  "\<exists>s'. command None (received (71 # hex_text [1, 2, 3, 4]) [] (sample_stub \<lparr>rx = [], tx = []\<rparr>)) = Some (GDB_MORE, Reply_error 4, s')
    \<and> r_eax (regs (params s')) = 0x04030201 \<and> r_ecx (regs (params s')) = 1"
proof -
  have "state_words sample_state = map of_nat [0..<16]" by (simp add: sample_state_def state_words_state)
  then have "state_bytes sample_state = concat (map word_bytes (map of_nat [0..<16]))" by (simp add: state_bytes_def)
  moreover have "[1, 2, 3, 4] = word_bytes 0x04030201" by (simp add: word_bytes_def)
  then have p: "patch_state 0 [1, 2, 3, 4] sample_state = words_state ((state_words sample_state)[0 := 0x04030201])"
    using patch_state_word [of 0 "0x04030201" sample_state] by simp
  have "r_eax (patch_state 0 [1, 2, 3, 4] sample_state) = 0x04030201" "r_ecx (patch_state 0 [1, 2, 3, 4] sample_state) = 1"
    unfolding p by (simp_all add: words_state_def sample_state_def state_words_def upt_rec)
  then show ?thesis
    using broken_registers_half_written [of "[1, 2, 3, 4]" None "[]" "sample_stub \<lparr>rx = [], tx = []\<rparr>"]
    by (auto simp: set_regs_def)
qed

lemma continue_ends:
  assumes "x \<in> {99, 115}" "ds = [] \<or> hex_numeral a ds" "length ds < BUFMAX - 1"
    and "store_bytes (inbuf s) (x # ds @ [0]) (mem s) (inbuf s + 2) \<noteq> 58" "rx (line s) = packet (x # ds) @ rest"
  defines "r \<equiv> if ds = [] then regs (params s) else (regs (params s))\<lparr>r_eip := of_nat a\<rparr>"
  shows "\<exists>s'. converse_loop cb s = Some (GDB_CONT, s') \<and> signo (params s') = 0
    \<and> regs (params s') = r\<lparr>r_eflags := (if x = 115 then r_eflags r OR 0x100 else r_eflags r AND NOT 0x100)\<rparr>
    \<and> (regs_changed (params s') \<longleftrightarrow> regs_changed (params s) \<or> r \<noteq> regs (params s))
    \<and> line s' = \<lparr>rx = rest, tx = tx (line s) @ [43]\<rparr>"
proof -
  let ?s = "received (x # ds) rest s"
  have num: "strtoul (inbuf s + 1) 16 (mem ?s) = Some (if ds = [] then 0 else of_nat a, inbuf s + 1 + length ds)"
  proof (cases "ds = []")
    case True
    have "mem ?s (inbuf s + 1) = 0"
      using stored_char [of "[x]" "[x]" 0 "[]" "inbuf s" "mem s"] True by simp
    then show ?thesis
      using True by (simp add: strtoul_def skip_spaces_none isspace_def strto_base_def strto_loop.simps [of "inbuf s + 1"]
          strto_digit_def del: received_simps(6)) (simp add: strto_loop.simps strto_digit_def)
  next
    case False
    then show ?thesis using received_number [of "x # ds" "[x]" ds 0 "[]" a s rest] assms(2) by simp
  qed
  have m: "mem ?s (inbuf s) = x"
    using stored_char [of "x # ds" "[]" x "ds @ [0]" "inbuf s" "mem s"] by simp
  have body: "body_ok 0 (x # ds)"
    using assms(1,2) hex_numeral_set [of a ds] by (intro body_ok_plain) auto
  have eip: "r \<noteq> regs (params s) \<longleftrightarrow> ds \<noteq> [] \<and> of_nat a \<noteq> r_eip (regs (params s))"
    unfolding r_def by (cases "regs (params s)") auto
  have "command cb ?s = cmd_continue ?s" using assms(1) m by (auto simp: command_def simp del: received_simps(6))
  also have "\<dots> = (let s1 = (if r \<noteq> regs (params s) then mark_changed (set_regs r ?s) else ?s);
      s2 = set_regs (gdb_set_trace_flag (x = 115) (regs (params s1))) s1
    in Some (GDB_CONT, No_reply, s2\<lparr>params := (params s2)\<lparr>signo := 0\<rparr>\<rparr>))"
    unfolding cmd_continue_def resume_def received_simps(1) num m Option.bind.bind_lunit prod.case
    using eip by (cases "ds = []") (simp_all add: Let_def r_def)
  finally have "\<exists>s'. command cb ?s = Some (GDB_CONT, No_reply, s') \<and> signo (params s') = 0
    \<and> regs (params s') = gdb_set_trace_flag (x = 115) r
    \<and> (regs_changed (params s') \<longleftrightarrow> regs_changed (params s) \<or> r \<noteq> regs (params s)) \<and> line s' = line ?s"
    using eip by (cases "r = regs (params s)") (simp_all add: set_regs_def mark_changed_def Let_def)
  then obtain s' where cmd: "command cb ?s = Some (GDB_CONT, No_reply, s')" "signo (params s') = 0"
    "regs (params s') = gdb_set_trace_flag (x = 115) r"
    "regs_changed (params s') \<longleftrightarrow> regs_changed (params s) \<or> r \<noteq> regs (params s)" "line s' = line ?s"
    by blast
  then have "converse_round cb s = Some (GDB_CONT, s')"
    using converse_round_received [of s "x # ds" rest cb] body assms(3,4,5) by (simp add: send_reply_def)
  then have "converse_loop cb s = Some (GDB_CONT, s')" by (subst converse_loop.simps) simp
  then show ?thesis using cmd by (simp add: gdb_set_trace_flag_def)
qed

text \<open>the commands \<open>c\<close> and \<open>s\<close>, with or without an address, end the conversation: the program continues at the
  given address, or where it was, with the trace flag set exactly for \<open>s\<close> and without a signal; every other
  register keeps its value. \<open>regs_changed\<close> records a new address but not the new trace flag.\<close>

theorem continue_resumes:
  assumes "x \<in> {99, 115}" "ds = [] \<or> hex_numeral a ds" "length ds < BUFMAX - 1"
    and "store_bytes (inbuf s) (x # ds @ [0]) (mem s) (inbuf s + 2) \<noteq> 58" "rx (line s) = packet (x # ds) @ rest"
    and "r = (if ds = [] then regs (params s) else (regs (params s))\<lparr>r_eip := of_nat a\<rparr>)"
  shows "\<exists>s'. converse_loop cb s = Some (GDB_CONT, s') \<and> signo (params s') = 0
    \<and> regs (params s') = r\<lparr>r_eflags := (if x = 115 then r_eflags r OR 0x100 else r_eflags r AND NOT 0x100)\<rparr>
    \<and> (regs_changed (params s') \<longleftrightarrow> regs_changed (params s) \<or> r \<noteq> regs (params s))
    \<and> line s' = \<lparr>rx = rest, tx = tx (line s) @ [43]\<rparr>"
  unfolding assms(6) using assms(1-5) by (rule continue_ends)

theorem continue_resumes_witness:
  "\<exists>s'. converse_loop None (sample_stub \<lparr>rx = packet [115, 56, 48] @ [], tx = []\<rparr>) = Some (GDB_CONT, s')
    \<and> r_eip (regs (params s')) = 128 \<and> r_eflags (regs (params s')) = 0x109 \<and> signo (params s') = 0"
proof -
  have "store_bytes 0x9000 [115, 56, 48, 0] sample_tables 0x9002 \<noteq> 58"
    by (simp add: store_bytes_def)
  moreover have "hex_numeral 128 [56, 48]" by (simp add: hex_numeral_def number_value_def digit_value_def)
  ultimately show ?thesis
    using continue_resumes [of 115 "[56, 48]" 128 "sample_stub \<lparr>rx = packet [115, 56, 48] @ [], tx = []\<rparr>" "[]"
        "sample_state\<lparr>r_eip := 128\<rparr>" None]
    by (fastforce simp: BUFMAX_def sample_state_def words_state_def)
qed

subsection \<open>What a command can change\<close>

lemma rep_movsb_outside: "a < q \<or> q + n \<le> a \<Longrightarrow> rep_movsb n p q m a = m a"
  by (induction n arbitrary: p q m) auto

lemma rep_movsl_outside: "a < q \<or> q + 4 * n \<le> a \<Longrightarrow> rep_movsl n p q m a = m a"
  by (induction n arbitrary: p q m) (auto simp: store_bytes_outside)

lemma memcpy_outside:
  assumes "a < dest \<or> dest + n \<le> a"
  shows "snd (memcpy dest src n m) a = m a"
proof -
  have n: "n = 4 * drop_bit 2 n + (n AND 3)"
    by (simp add: drop_bit_eq_div and_3)
  then have "rep_movsl (drop_bit 2 n) src dest m a = m a" using assms by (intro rep_movsl_outside) linarith
  moreover have "rep_movsb (n AND 3) p (dest + 4 * drop_bit 2 n) m' a = m' a" for p m'
    using assms n by (intro rep_movsb_outside) linarith
  ultimately show ?thesis by (simp add: memcpy_def Let_def)
qed

lemma gdb_copyin_outside:
  "gdb_copyin c va dest n m = Some (r, m') \<Longrightarrow> a < dest \<or> dest + n \<le> a \<Longrightarrow> m' a = m a"
proof (induction c va dest n m rule: gdb_copyin.induct)
  case (1 c va dest n m)
  consider "m' = m" | pa sz z where "n \<noteq> 0" "phys_addr_lookup c va m = Some (pa, sz)" "sz \<noteq> 0"
    "z = (if unat sz > n then n else unat sz)" "\<not> unat pa + z > 2 ^ 32"
    "gdb_copyin c (va + of_nat z) (dest + z) (n - z) (snd (memcpy dest (unat pa) z m)) = Some (r, m')"
    using 1(2) by (subst (asm) gdb_copyin.simps) (auto simp: Let_def split: if_splits option.splits)
  then show ?case
  proof cases
    case 2
    have z: "z \<le> n" using 2(4) by simp
    have "m' a = snd (memcpy dest (unat pa) z m) a"
      by (rule 1(1) [OF 2(1,2) refl 2(3,4) _ 2(6)]) (use 2(5) 1(3) z in auto)
    also have "\<dots> = m a" using 1(3) z by (intro memcpy_outside) auto
    finally show ?thesis .
  qed simp
qed

lemma commands_keep_memory:
  "cmd_thread cb s = Some (act, r, s') \<Longrightarrow> mem s' = mem s \<and> inbuf s' = inbuf s"
  "cmd_alive cb s = Some (act, r, s') \<Longrightarrow> mem s' = mem s \<and> inbuf s' = inbuf s"
  "cmd_get_regs s = Some (act, r, s') \<Longrightarrow> mem s' = mem s \<and> inbuf s' = inbuf s"
  "cmd_set_regs s = Some (act, r, s') \<Longrightarrow> mem s' = mem s \<and> inbuf s' = inbuf s"
  "cmd_set_reg s = Some (act, r, s') \<Longrightarrow> mem s' = mem s \<and> inbuf s' = inbuf s"
  "resume p step sig s = Some (act, r, s') \<Longrightarrow> mem s' = mem s \<and> inbuf s' = inbuf s"
  "cmd_continue s = Some (act, r, s') \<Longrightarrow> mem s' = mem s \<and> inbuf s' = inbuf s"
  "cmd_continue_signal s = Some (act, r, s') \<Longrightarrow> mem s' = mem s \<and> inbuf s' = inbuf s"
  "cmd_leave a rep s = Some (act, r, s') \<Longrightarrow> mem s' = mem s \<and> inbuf s' = inbuf s"
  "more rep s = Some (act, r, s') \<Longrightarrow> mem s' = mem s \<and> inbuf s' = inbuf s"
proof -
  show res: "resume p step sig s = Some (act, r, s') \<Longrightarrow> mem s' = mem s \<and> inbuf s' = inbuf s" for p step sig
    by (auto simp: resume_def set_regs_def mark_changed_def Let_def Option.bind_eq_Some_conv)
  then show "cmd_continue s = Some (act, r, s') \<Longrightarrow> mem s' = mem s \<and> inbuf s' = inbuf s"
    by (simp add: cmd_continue_def)
  show "cmd_continue_signal s = Some (act, r, s') \<Longrightarrow> mem s' = mem s \<and> inbuf s' = inbuf s"
    using res by (auto simp: cmd_continue_signal_def more_def Let_def split: if_splits)
qed (auto simp: cmd_thread_def cmd_alive_def cmd_get_regs_def cmd_set_regs_def cmd_set_reg_def cmd_leave_def more_def
    set_regs_def mark_changed_def Let_def Option.bind_eq_Some_conv split: if_splits option.splits prod.splits)

lemma cmd_read_memory:
  assumes "cmd_read s = Some (act, r, s')" "a < inbuf s \<or> inbuf s + BUFMAX < a"
  shows "mem s' a = mem s a \<and> inbuf s' = inbuf s"
proof -
  obtain b where b: "parse_block s = Some b" using assms(1) by (cases "parse_block s") (simp_all add: cmd_read_def)
  show ?thesis
  proof (cases b)
    case None
    then show ?thesis using assms(1) b by (simp add: cmd_read_def more_def)
  next
    case (Some t)
    obtain c n p where t: "t = (c, n, p)" by (cases t)
    show ?thesis
    proof (cases "n * 2 > of_nat BUFMAX")
      case True
      then show ?thesis using assms(1) b Some t by (simp add: cmd_read_def more_def)
    next
      case False
      obtain x m where copy: "unat n \<le> BUFMAX + 1" "gdb_copyin (paging s) c (inbuf s) (unat n) (mem s) = Some (x, m)"
        using assms(1) b Some t False by (auto simp: cmd_read_def Option.bind_eq_Some_conv split: if_splits)
      then have "s' = s\<lparr>mem := m\<rparr>"
        using assms(1) b Some t False by (simp add: cmd_read_def more_def Let_def split: if_splits)
      moreover have "m a = mem s a" using copy(1) assms(2) by (intro gdb_copyin_outside [OF copy(2)]) auto
      ultimately show ?thesis by simp
    qed
  qed
qed

lemma length_tid_digits: "x < 16 ^ k \<Longrightarrow> 0 < k \<Longrightarrow> length (tid_digits x) \<le> k"
proof (induction k arbitrary: x)
  case (Suc k)
  show ?case
  proof (cases "x div 16 = 0")
    case True
    then show ?thesis by (simp add: tid_digits.simps)
  next
    case False
    have "x div 16 < 16 ^ k" using Suc.prems(1) by (simp add: less_mult_imp_div_less mult.commute)
    moreover from this have "0 < k" using False by (cases k) auto
    ultimately have "length (tid_digits (x div 16)) \<le> k" by (rule Suc.IH)
    then show ?thesis using False by (subst tid_digits.simps) simp
  qed
qed simp

lemma send_reply_memory:
  assumes "send_reply cb r s = Some s'" "a < inbuf s \<or> inbuf s + BUFMAX < a"
  shows "mem s' a = mem s a"
proof -
  have tid: "length (tid_digits (unat (thread_id (params s)))) \<le> 8"
    using unat_bound [of "thread_id (params s)"] by (intro length_tid_digits) simp_all
  have put: "put fs t = Some t' \<Longrightarrow> mem t' = mem t" for fs t t'
    by (auto simp: put_def Option.bind_eq_Some_conv)
  have "mem (snd (report cb s)) a = mem s a"
    using assms(2) tid by (auto simp: report_def Let_def BUFMAX_def intro!: store_bytes_outside)
  then show ?thesis using assms(1) by (auto simp: send_reply_def put split: reply.splits prod.splits)
qed



end
