(* ===== verification/Serial_Port.thy ===== *)
theory Serial_Port
  imports Gdb_Packet
begin

text \<open>
  The driver of the serial port (\<^verbatim>\<open>kernel/serial.c\<close>), and that it implements the serial line on which the
  debugger stub is built.

  \<open>uart\<close> holds what the processor will read from the status register (port \<open>0x3fd\<close>) and the data register (port
  \<open>0x3f8\<close>), the bytes it has written to ports so far, and the static variable \<open>done\<close>. \<open>None\<close> is polling without end.
\<close>

record uart =
  status_reads :: "nat list"
  data_reads :: "nat list"
  written :: "(nat \<times> nat) list"
  init_done :: bool

definition outb :: "int \<Rightarrow> nat \<Rightarrow> uart \<Rightarrow> uart" where
  "outb v port u = u\<lparr>written := written u @ [(port, nat (v mod 256))]\<rparr>"

definition init_serial :: "uart \<Rightarrow> uart" where
  "init_serial u =
     (if init_done u then u
      else
        (let u = outb 0x0f (0x3f8 + 4) u;
             u = outb 0 (0x3f8 + 1) u;
             u = outb 0x83 (0x3f8 + 3) u;
             u = outb 1 0x3f8 u;
             u = outb 0 (0x3f8 + 1) u;
             u = outb 0x03 (0x3f8 + 3) u
         in u\<lparr>init_done := True\<rparr>))"

text \<open>The loops on the status register return the values that are left.\<close>

fun wait_sent :: "nat list \<Rightarrow> nat list option" where
  "wait_sent [] = None"
| "wait_sent (c # cs) = (if c div 32 mod 2 = 0 then wait_sent cs else Some cs)"

fun wait_received :: "nat list \<Rightarrow> nat list option" where
  "wait_received [] = None"
| "wait_received (c # cs) = (if c div 2 mod 16 \<noteq> 0 \<or> c mod 2 = 0 then wait_received cs else Some cs)"

definition write_com1 :: "int \<Rightarrow> uart \<Rightarrow> uart option" where
  "write_com1 c u =
     (let u = init_serial u
      in do {
        st \<leftarrow> wait_sent (status_reads u);
        Some (outb c 0x3f8 (u\<lparr>status_reads := st\<rparr>))
      })"

definition read_com1 :: "uart \<Rightarrow> (nat \<times> uart) option" where
  "read_com1 u =
     (let u = init_serial u
      in do {
        st \<leftarrow> wait_received (status_reads u);
        case data_reads u of
          [] \<Rightarrow> None
        | c # cs \<Rightarrow> Some (c, u\<lparr>status_reads := st, data_reads := cs\<rparr>)
      })"

subsection \<open>The port as a serial line\<close>

text \<open>What the port sends, given the bytes written: bit 7 of the line control register (port \<open>0x3fb\<close>) redirects port
  \<open>0x3f8\<close> to the divisor. The first argument is this bit.\<close>

fun sent_bytes :: "bool \<Rightarrow> (nat \<times> nat) list \<Rightarrow> nat list" where
  "sent_bytes dlab [] = []"
| "sent_bytes dlab ((port, v) # ws) =
     (if port = 0x3fb then sent_bytes (v div 128 mod 2 = 1) ws
      else if port = 0x3f8 \<and> \<not> dlab then v # sent_bytes dlab ws
      else sent_bytes dlab ws)"

fun dlab_after :: "bool \<Rightarrow> (nat \<times> nat) list \<Rightarrow> bool" where
  "dlab_after dlab [] = dlab"
| "dlab_after dlab ((port, v) # ws) = dlab_after (if port = 0x3fb then v div 128 mod 2 = 1 else dlab) ws"

definition uart_line :: "uart \<Rightarrow> gdb_io" where
  "uart_line u = \<lparr>rx = data_reads u, tx = sent_bytes False (written u)\<rparr>"

text \<open>The invariant of the port: data is sent, not the divisor, once it is initialised.\<close>

definition uart_ok :: "uart \<Rightarrow> bool" where
  "uart_ok u \<longleftrightarrow> (init_done u \<longrightarrow> \<not> dlab_after False (written u))"

lemma sent_bytes_append: "sent_bytes d (ws @ vs) = sent_bytes d ws @ sent_bytes (dlab_after d ws) vs"
  by (induction d ws rule: sent_bytes.induct) auto

lemma dlab_after_append: "dlab_after d (ws @ vs) = dlab_after (dlab_after d ws) vs"
  by (induction d ws rule: dlab_after.induct) auto

lemma init_serial_line:
  assumes "uart_ok u"
  shows "uart_ok (init_serial u)" "init_done (init_serial u)" "uart_line (init_serial u) = uart_line u"
    "data_reads (init_serial u) = data_reads u"
  using assms
  by (auto simp: init_serial_def uart_ok_def uart_line_def outb_def Let_def sent_bytes_append dlab_after_append)

lemma wait_sent_returns: "wait_sent st \<noteq> None \<longleftrightarrow> (\<exists>c\<in>set st. c div 32 mod 2 = 1)"
  by (induction st rule: wait_sent.induct) auto

lemma wait_received_returns: "wait_received st \<noteq> None \<longleftrightarrow> (\<exists>c\<in>set st. c div 2 mod 16 = 0 \<and> c mod 2 = 1)"
  by (induction st rule: wait_received.induct) auto

text \<open>C29: the driver of the port refines the serial line that the stub assumes: a byte written goes out after all
  bytes before it, also when the first one initialises the port; a byte read is the next one of the line; and both
  return as soon as the status register ever reports that the port is ready.\<close>

theorem port_refines_line:
  assumes "uart_ok u"
  shows "((\<exists>c\<in>set (status_reads u). c div 32 mod 2 = 1) \<longrightarrow>
      (\<exists>u'. write_com1 (int ch) u = Some u' \<and> uart_ok u' \<and> uart_line u' = gdb_send ch (uart_line u)))
    \<and> ((\<exists>c\<in>set (status_reads u). c div 2 mod 16 = 0 \<and> c mod 2 = 1) \<and> data_reads u \<noteq> [] \<longrightarrow>
      (\<exists>c u'. read_com1 u = Some (c, u') \<and> uart_ok u' \<and> gdb_recv (uart_line u) = Some (c, uart_line u')))"
proof (intro conjI impI)
  note i = init_serial_line [OF assms]
  have st: "status_reads (init_serial u) = status_reads u" by (simp add: init_serial_def outb_def Let_def)
  have dlab: "\<not> dlab_after False (written (init_serial u))" using i(1,2) by (simp add: uart_ok_def)
  {
    assume "\<exists>c\<in>set (status_reads u). c div 32 mod 2 = 1"
    then obtain st' where "wait_sent (status_reads u) = Some st'" using wait_sent_returns by fastforce
    moreover have "nat (int ch mod 256) = ch mod 256" by (simp add: nat_mod_distrib)
    ultimately have "write_com1 (int ch) u
        = Some (init_serial u\<lparr>status_reads := st', written := written (init_serial u) @ [(0x3f8, ch mod 256)]\<rparr>)"
      using st by (simp add: write_com1_def outb_def Let_def)
    then show "\<exists>u'. write_com1 (int ch) u = Some u' \<and> uart_ok u' \<and> uart_line u' = gdb_send ch (uart_line u)"
      using dlab i(3) by (simp add: uart_ok_def uart_line_def gdb_send_def sent_bytes_append dlab_after_append)
  next
    assume "(\<exists>c\<in>set (status_reads u). c div 2 mod 16 = 0 \<and> c mod 2 = 1) \<and> data_reads u \<noteq> []"
    then have "wait_received (status_reads u) \<noteq> None" "data_reads u \<noteq> []"
      by (intro iffD2 [OF wait_received_returns], rule conjunct1, rule conjunct2)
    then obtain st' c cs where "wait_received (status_reads u) = Some st'" "data_reads u = c # cs"
      by (cases "data_reads u") auto
    then have "read_com1 u = Some (c, init_serial u\<lparr>status_reads := st', data_reads := cs\<rparr>)"
      using i(4) st by (simp add: read_com1_def Let_def)
    then show "\<exists>c u'. read_com1 u = Some (c, u') \<and> uart_ok u' \<and> gdb_recv (uart_line u) = Some (c, uart_line u')"
      using i dlab \<open>data_reads u = c # cs\<close> by (simp add: uart_ok_def uart_line_def gdb_recv_def)
  }
qed

definition sample_uart :: uart where
  "sample_uart = \<lparr>status_reads = [0, 0x61], data_reads = [36], written = [], init_done = False\<rparr>"

theorem port_refines_line_witness:
  "(\<exists>u'. write_com1 65 sample_uart = Some u' \<and> uart_line u' = \<lparr>rx = [36], tx = [65]\<rparr>)
    \<and> (\<exists>u'. read_com1 sample_uart = Some (36, u') \<and> uart_line u' = \<lparr>rx = [], tx = []\<rparr>)"
proof -
  have "uart_ok sample_uart" by (simp add: uart_ok_def sample_uart_def)
  from port_refines_line [OF this, of 65] show ?thesis
    by (auto simp: sample_uart_def uart_line_def gdb_send_def gdb_recv_def)
qed

end
