(* ===== verification/Debugger.thy ===== *)
theory Debugger
  imports Gdb_Stub Descriptors Serial_Port
begin

unbundle bit_operations_syntax

text \<open>
  Exceptions (\<^verbatim>\<open>kernel/debugger.c\<close>): the report on the screen, and the entry into the remote debugger.

  \<open>trap\<close> is the state of a handler task: the flag \<open>do_debug\<close>, the stub, the video memory as bytes from
  \<open>screen_base\<close> on, the task state segments by address, and the values that the following reads of the keyboard
  port give. \<open>None\<close> is waiting for ever; \<open>Inl\<close> is a reboot, which does not return. The text of the report
  (\<open>task_dump_screen\<close>) and the registers \<open>cr0\<close>, \<open>cr4\<close> and \<open>tr\<close> are arguments. The memory that the remote debugger
  reads and writes is kept apart from the video memory and the task state segments.
\<close>

record trap =
  do_debug :: bool
  stub :: stub
  screen :: memory
  tss_at :: "32 word \<Rightarrow> x86_tss"
  keys :: "nat list"

subsection \<open>The remote debugger\<close>

definition trap_signal :: "nat \<Rightarrow> nat" where
  "trap_signal trapno =
     (if trapno \<in> {0, 4, 5, 7, 8, 9, 15} then 8
      else if trapno \<in> {1, 3} then 5
      else if trapno \<in> {10, 11, 12, 13, 14} then 11
      else 4)"

definition tss_state :: "x86_tss \<Rightarrow> gdb_state" where
  "tss_state t = \<lparr>r_eax = t_eax t, r_ecx = t_ecx t, r_edx = t_edx t, r_ebx = t_ebx t, r_esp = t_esp t, r_ebp = t_ebp t,
     r_esi = t_esi t, r_edi = t_edi t, r_eip = t_eip t, r_eflags = t_eflags t, r_cs = t_cs t, r_ss = t_ss t,
     r_ds = t_ds t, r_es = t_es t, r_fs = t_fs t, r_gs = t_gs t\<rparr>"

definition state_tss :: "gdb_state \<Rightarrow> x86_tss \<Rightarrow> x86_tss" where
  "state_tss r t = t\<lparr>t_eax := r_eax r, t_ecx := r_ecx r, t_edx := r_edx r, t_ebx := r_ebx r, t_esp := r_esp r,
     t_ebp := r_ebp r, t_esi := r_esi r, t_edi := r_edi r, t_eip := r_eip r, t_eflags := r_eflags r, t_cs := r_cs r,
     t_ss := r_ss r, t_ds := r_ds r, t_es := r_es r, t_fs := r_fs r, t_gs := r_gs r\<rparr>"

definition reboot :: "trap \<Rightarrow> (trap + 'a) option" where
  "reboot d = do { s \<leftarrow> gdb_serial_exit 0 (stub d); Some (Inl (d\<lparr>stub := s\<rparr>)) }"

definition debugger :: "32 word \<Rightarrow> 32 word \<Rightarrow> nat \<Rightarrow> 32 word \<Rightarrow> trap \<Rightarrow> (trap + trap) option" where
  "debugger cr0 cr4 trapno t d =
     (let s = (stub d)\<lparr>params := \<lparr>thread_id = - 1, signo = trap_signal trapno, regs = tss_state (tss_at d t), regs_changed = False\<rparr>,
            paging := copy_client_paging_registers cr0 (t_cr3 (tss_at d t)) cr4 (paging (stub d))\<rparr>
      in do {
        (action, s) \<leftarrow> gdb_serial_converse None s;
        let d = d\<lparr>stub := s\<rparr>;
        if action = GDB_KILL then reboot d
        else
          (let d = (if action = GDB_DETACH then d\<lparr>do_debug := False\<rparr> else d)
           in Some (Inr (d\<lparr>tss_at := (tss_at d)(t := state_tss (regs (params s)) (tss_at d t))\<rparr>)))
      })"

definition enable_debugger :: "trap \<Rightarrow> trap" where
  "enable_debugger d = d\<lparr>do_debug := True, stub := (stub d)\<lparr>line_set := True\<rparr>\<rparr>"

subsection \<open>The report on the screen\<close>

text \<open>The cells of a field, from its last digit to its first: \<open>p\<close> is the position behind the digit.\<close>

fun write_hex_loop :: "nat \<Rightarrow> nat \<Rightarrow> 32 word \<Rightarrow> memory \<Rightarrow> memory" where
  "write_hex_loop 0 p value m = m"
| "write_hex_loop (Suc n) p value m =
     (let p = p - 2; d = unat (value AND 15)
      in write_hex_loop n p (drop_bit 4 value) (m(p := (if d < 10 then 48 + d else 65 + (d - 10)))))"

definition write_hex :: "nat \<Rightarrow> nat \<Rightarrow> nat \<Rightarrow> 32 word \<Rightarrow> memory \<Rightarrow> memory" where
  "write_hex row col n value m = write_hex_loop n ((row - 1) * 160 + (col + n - 1) * 2) value m"

definition dump_text :: "(nat \<Rightarrow> nat) \<Rightarrow> memory \<Rightarrow> memory" where
  "dump_text txt m = fold (\<lambda>i m. fold (\<lambda>j m. m(i * 160 + j * 2 := txt (i * 81 + j))) [0..<80] m) [0..<25] m"

definition dump_colours :: "memory \<Rightarrow> memory" where
  "dump_colours m =
     fold (\<lambda>i m. m(2 * i + 1 := 0x34)) [161..<239] (fold (\<lambda>i m. m(2 * i + 1 := 0x30)) [0..<80 * 25] m)"

definition dump_fields :: "nat \<Rightarrow> nat \<Rightarrow> 32 word \<Rightarrow> x86_tss \<Rightarrow> (nat \<times> nat \<times> nat \<times> 32 word) list" where
  "dump_fields trapno error_code a t =
     [(7, 21, 2, of_nat trapno), (7, 60, 8, of_nat error_code), (9, 21, 8, a), (9, 69, 4, back_link t),
      (11, 11, 8, t_esp t), (11, 32, 4, t_ss t), (11, 52, 8, t_esp0 t), (11, 74, 4, t_ss0 t),
      (13, 11, 8, t_esp1 t), (13, 32, 4, t_ss1 t), (13, 52, 8, t_esp2 t), (13, 74, 4, t_ss2 t),
      (15, 15, 8, t_eip t), (15, 41, 4, t_cs t), (15, 66, 8, t_eflags t),
      (17, 10, 8, t_eax t), (17, 30, 8, t_ebx t), (17, 50, 8, t_ecx t), (17, 70, 8, t_edx t),
      (19, 10, 8, t_esi t), (19, 30, 8, t_edi t), (19, 50, 8, t_ebp t), (19, 72, 4, t_ldt t),
      (21, 12, 4, t_ds t), (21, 32, 4, t_es t), (21, 52, 4, t_fs t), (21, 72, 4, t_gs t),
      (23, 30, 8, t_cr3 t), (23, 70, 1, ucast (trace_trap t AND 1))]"

definition dump_registers :: "(nat \<Rightarrow> nat) \<Rightarrow> nat \<Rightarrow> nat \<Rightarrow> 32 word \<Rightarrow> x86_tss \<Rightarrow> memory \<Rightarrow> memory" where
  "dump_registers txt trapno error_code a t m =
     fold (\<lambda>(row, col, n, value). write_hex row col n value) (dump_fields trapno error_code a t)
       (dump_colours (dump_text txt m))"

subsection \<open>The handler\<close>

fun wait_release :: "nat \<Rightarrow> nat list \<Rightarrow> nat list option" where
  "wait_release k [] = None"
| "wait_release k (c # cs) = (if c = k then wait_release k cs else Some cs)"

definition copy_screen :: "memory \<Rightarrow> memory \<Rightarrow> memory" where
  "copy_screen video m = (\<lambda>a. if a < 4000 then video a else m a)"

text \<open>The loop of \<open>trap_handler\<close>, on the flag \<open>shown\<close> (\<open>d\<close> in the source) and the saved screen.\<close>

partial_function (option) trap_loop ::
  "(nat \<Rightarrow> nat) \<Rightarrow> 32 word \<Rightarrow> 32 word \<Rightarrow> nat \<Rightarrow> nat \<Rightarrow> 32 word \<Rightarrow> memory \<Rightarrow> bool \<Rightarrow> trap \<Rightarrow> (trap + trap) option" where
  "trap_loop txt cr0 cr4 trapno error_code t video shown d =
     (case keys d of
        [] \<Rightarrow> None
      | c # ks \<Rightarrow>
          let d = d\<lparr>keys := ks\<rparr>
          in if c = 0x39 then
               (let shown = (\<not> shown);
                    d = d\<lparr>screen := (if shown then dump_registers txt trapno error_code t (tss_at d t) (screen d)
                                    else copy_screen video (screen d))\<rparr>
                in do {
                  ks \<leftarrow> wait_release 0x39 (keys d);
                  trap_loop txt cr0 cr4 trapno error_code t video shown (d\<lparr>keys := ks\<rparr>)
                })
             else if c = 1 then reboot d
             else if c = 0x17 then do {
               ks \<leftarrow> wait_release 0x17 (keys d);
               Some (Inr (d\<lparr>screen := copy_screen video (screen d), keys := ks\<rparr>))
             }
             else if c = 0x20 then do {
               ks \<leftarrow> wait_release 0x20 (keys d);
               debugger cr0 cr4 trapno t (enable_debugger (d\<lparr>screen := copy_screen video (screen d), keys := ks\<rparr>))
             }
             else trap_loop txt cr0 cr4 trapno error_code t video shown d)"

definition trap_handler ::
  "(nat \<Rightarrow> nat) \<Rightarrow> (nat \<Rightarrow> 64 word) \<Rightarrow> 32 word \<Rightarrow> 32 word \<Rightarrow> 16 word \<Rightarrow> nat \<Rightarrow> nat \<Rightarrow> trap \<Rightarrow> (trap + trap) option" where
  "trap_handler txt g cr0 cr4 tr trapno error_code d =
     (let t = tss_sel_2_tss g (ucast (back_link (tss_at d (tss_sel_2_tss g tr))))
      in if do_debug d then debugger cr0 cr4 trapno t d
         else
           (let video = screen d
            in trap_loop txt cr0 cr4 trapno error_code t video True
                 (d\<lparr>screen := dump_registers txt trapno error_code t (tss_at d t) (screen d)\<rparr>)))"

subsection \<open>The report stays on the screen\<close>

definition keeps_beyond :: "nat \<Rightarrow> (memory \<Rightarrow> memory) \<Rightarrow> bool" where
  "keeps_beyond n f \<longleftrightarrow> (\<forall>m a. n \<le> a \<longrightarrow> f m a = m a)"

lemma fold_keeps: "\<forall>x\<in>set xs. keeps_beyond n (f x) \<Longrightarrow> keeps_beyond n (fold f xs)"
  by (induction xs) (auto simp: keeps_beyond_def)

lemma write_hex_loop_keeps: "p \<le> n \<Longrightarrow> 0 < p \<Longrightarrow> keeps_beyond n (write_hex_loop k p v)"
proof (induction k arbitrary: p v)
  case (Suc k)
  show ?case
  proof (cases "p - 2 = 0")
    case True
    have "write_hex_loop k 0 v m a = m a" if "0 < a" for v m a
      using that by (induction k arbitrary: v m) (simp_all add: Let_def)
    then show ?thesis using True Suc.prems by (simp add: keeps_beyond_def Let_def)
  next
    case False
    moreover have "\<not> n \<le> p - 2" using Suc.prems by linarith
    ultimately show ?thesis using Suc.IH [of "p - 2"] Suc.prems by (auto simp: keeps_beyond_def Let_def)
  qed
qed (simp add: keeps_beyond_def)

lemma write_hex_keeps:
  "0 < (row - 1) * 160 + (col + n - 1) * 2 \<Longrightarrow> (row - 1) * 160 + (col + n - 1) * 2 \<le> 4000 \<Longrightarrow>
    keeps_beyond 4000 (write_hex row col n v)"
  unfolding write_hex_def [abs_def] by (rule write_hex_loop_keeps)

lemma dump_keeps: "4000 \<le> b \<Longrightarrow> dump_registers txt trapno e a t m b = m b"
proof -
  assume b: "4000 \<le> b"
  have inner: "keeps_beyond 4000 (fold (\<lambda>j m. m(i * 160 + j * 2 := txt (i * 81 + j))) [0..<80])" if "i < 25" for i
    using that by (intro fold_keeps) (auto simp: keeps_beyond_def)
  have "keeps_beyond 4000 (dump_text txt)"
    unfolding dump_text_def by (intro fold_keeps ballI inner) simp
  moreover have "keeps_beyond 4000 (fold (\<lambda>i m. m(2 * i + 1 := 0x30)) [0..<80 * 25])"
    "keeps_beyond 4000 (fold (\<lambda>i m. m(2 * i + 1 := 0x34)) [161..<239])"
    by (intro fold_keeps; auto simp: keeps_beyond_def)+
  moreover have "keeps_beyond 4000 (fold (\<lambda>(row, col, n, value). write_hex row col n value) (dump_fields trapno e a t))"
    by (intro fold_keeps) (simp add: dump_fields_def write_hex_keeps)
  ultimately show ?thesis using b by (simp add: dump_registers_def dump_colours_def keeps_beyond_def)
qed

lemma set_wait_release: "wait_release k cs = Some ds \<Longrightarrow> set ds \<subseteq> set cs"
  by (induction cs) (auto split: if_splits)

lemma trap_loop_restores:
  assumes "trap_loop txt cr0 cr4 trapno e t video shown d = Some (Inr d')" "0x20 \<notin> set (keys d)"
    and "\<forall>a\<ge>4000. screen d a = old a" "\<forall>a<4000. video a = old a"
  shows "screen d' = old \<and> tss_at d' = tss_at d \<and> stub d' = stub d \<and> do_debug d' = do_debug d"
proof -
  let ?P = "\<lambda>video d (r :: trap + trap). \<forall>d'. r = Inr d' \<longrightarrow> 0x20 \<notin> set (keys d) \<longrightarrow> (\<forall>a\<ge>4000. screen d a = old a)
      \<longrightarrow> (\<forall>a<4000. video a = old a)
      \<longrightarrow> screen d' = old \<and> tss_at d' = tss_at d \<and> stub d' = stub d \<and> do_debug d' = do_debug d"
  have "?P video d (Inr d')"
  proof (rule trap_loop.raw_induct [of "\<lambda>txt cr0 cr4 trapno e t video shown d r. ?P video d r", OF _ assms(1)], goal_cases)
    case (1 loop dump cr0 cr4 trapno e t video shown d r)
    note ih = 1(1) and step = 1(2)
    show ?case
    proof (intro allI impI)
      fix d' assume r: "r = Inr d'" and k: "0x20 \<notin> set (keys d)" and s: "\<forall>a\<ge>4000. screen d a = old a"
        and v: "\<forall>a<4000. video a = old a"
      obtain c ks where ks: "keys d = c # ks" using step by (cases "keys d") auto
      consider "c = 0x39" | "c = 1" | "c = 0x17" | "c \<noteq> 0x39" "c \<noteq> 1" "c \<noteq> 0x17" by blast
      then show "screen d' = old \<and> tss_at d' = tss_at d \<and> stub d' = stub d \<and> do_debug d' = do_debug d"
      proof cases
        case 1
        let ?m = "if \<not> shown then dump_registers dump trapno e t (tss_at d t) (screen d) else copy_screen video (screen d)"
        obtain ks' where ks': "wait_release 0x39 ks = Some ks'"
          "loop dump cr0 cr4 trapno e t video (\<not> shown) (d\<lparr>screen := ?m, keys := ks'\<rparr>) = Some r"
          using step ks 1 by (cases shown) (auto simp: Option.bind_eq_Some_conv Let_def)
        have "\<forall>a\<ge>4000. ?m a = old a" using s by (simp add: dump_keeps copy_screen_def)
        moreover have "0x20 \<notin> set ks'" using k ks set_wait_release [OF ks'(1)] by auto
        ultimately show ?thesis using ih [OF ks'(2)] v r by simp
      next
        case 2
        then show ?thesis using step ks r by (auto simp: reboot_def Let_def Option.bind_eq_Some_conv)
      next
        case 3
        then obtain ks' where "d' = d\<lparr>screen := copy_screen video (screen d), keys := ks'\<rparr>"
          using step ks r by (auto simp: Let_def Option.bind_eq_Some_conv)
        moreover have "copy_screen video (screen d) a = old a" for a
          using s v by (cases "a < 4000") (simp_all add: copy_screen_def)
        then have "copy_screen video (screen d) = old" ..
        ultimately show ?thesis by simp
      next
        case 4
        then have "loop dump cr0 cr4 trapno e t video shown (d\<lparr>keys := ks\<rparr>) = Some r"
          using step ks k by (auto simp: Let_def)
        from ih [OF this] show ?thesis using k s v r ks by simp
      qed
    qed
  qed
  then show ?thesis using assms by simp
qed

text \<open>C23: an exception that the user dismisses leaves no trace: whatever keys are pressed, if the handler returns and
  the remote debugger was not chosen, the screen, the task state segments and the debugger are what they were.\<close>

theorem dismissed_trap_leaves_no_trace:
  assumes "trap_handler txt g cr0 cr4 tr trapno e d = Some (Inr d')" "\<not> do_debug d" "0x20 \<notin> set (keys d)"
  shows "screen d' = screen d \<and> tss_at d' = tss_at d \<and> stub d' = stub d \<and> do_debug d' = do_debug d"
proof -
  let ?t = "tss_sel_2_tss g (ucast (back_link (tss_at d (tss_sel_2_tss g tr))))"
  let ?d = "d\<lparr>screen := dump_registers txt trapno e ?t (tss_at d ?t) (screen d)\<rparr>"
  have "trap_loop txt cr0 cr4 trapno e ?t (screen d) True ?d = Some (Inr d')"
    using assms(1,2) by (simp add: trap_handler_def Let_def)
  from trap_loop_restores [OF this, of "screen d"] show ?thesis using assms(3) by (simp add: dump_keeps)
qed

definition sample_trap :: "nat list \<Rightarrow> gdb_io \<Rightarrow> trap" where
  "sample_trap ks l = \<lparr>do_debug = False, stub = sample_stub l, screen = (\<lambda>a. a mod 256), tss_at = (\<lambda>_. zero_tss), keys = ks\<rparr>"

theorem dismissed_trap_leaves_no_trace_witness:
  "\<exists>d'. trap_handler (\<lambda>_. 32) (\<lambda>_. 0) 0 0 0 6 0 (sample_trap [0x39, 0xb9, 0x17, 0x97] \<lparr>rx = [], tx = []\<rparr>) = Some (Inr d')
    \<and> screen d' 0 = 0 \<and> screen d' 3999 = 159"
proof -
  let ?d = "sample_trap [0x39, 0xb9, 0x17, 0x97] \<lparr>rx = [], tx = []\<rparr>"
  obtain d' where d': "trap_handler (\<lambda>_. 32) (\<lambda>_. 0) 0 0 0 6 0 ?d = Some (Inr d')"
    by (simp add: trap_handler_def sample_trap_def Let_def trap_loop.simps)
  have "\<not> do_debug ?d" "0x20 \<notin> set (keys ?d)" by (simp_all add: sample_trap_def)
  from dismissed_trap_leaves_no_trace [OF d' this] d' show ?thesis by (auto simp: sample_trap_def)
qed

subsection \<open>A session of the remote debugger\<close>

lemma state_tss_state: "state_tss (tss_state t) t = t"
  by (simp add: state_tss_def tss_state_def)

text \<open>C22: an exception is reported to the remote debugger by the packet \<open>S\<close> with its signal, and after the command to
  continue the interrupted program gets all its registers back as they were, with the trace flag off, and nothing
  else of its task state segment has changed.\<close>

theorem trap_reported_and_continued:
  assumes "line (stub d) = \<lparr>rx = 43 # packet [99] @ rest, tx = out\<rparr>" "mem (stub d) (inbuf (stub d) + 2) \<noteq> 58"
  shows "\<exists>d'. debugger cr0 cr4 trapno t d = Some (Inr d')
    \<and> line (stub d') = \<lparr>rx = rest, tx = out @ packet [83, 48, hexchars (trap_signal trapno)] @ [43]\<rparr>
    \<and> tss_at d' = (tss_at d)(t := (tss_at d t)\<lparr>t_eflags := t_eflags (tss_at d t) AND NOT 0x100\<rparr>)
    \<and> do_debug d' = do_debug d \<and> screen d' = screen d"
proof -
  let ?t = "tss_at d t"
  let ?s = "(stub d)\<lparr>params := \<lparr>thread_id = - 1, signo = trap_signal trapno, regs = tss_state ?t, regs_changed = False\<rparr>,
      paging := copy_client_paging_registers cr0 (t_cr3 ?t) cr4 (paging (stub d))\<rparr>"
  define s0 where "s0 = ?s"
  have s0: "line s0 = line (stub d)" "mem s0 = mem (stub d)" "inbuf s0 = inbuf (stub d)" "regs (params s0) = tss_state ?t"
    "signo (params s0) = trap_signal trapno" "s0\<lparr>params := (params s0)\<lparr>regs_changed := False\<rparr>\<rparr> = s0"
    by (simp_all add: s0_def)
  let ?s1 = "s0\<lparr>line := \<lparr>rx = packet [99] @ rest, tx = out @ packet [83, 48, hexchars (trap_signal trapno)]\<rparr>\<rparr>"
  have sig: "trap_signal trapno < 16" by (simp add: trap_signal_def)
  have "send_frags [text_frag [83], byte_frag (trap_signal trapno)] = Some [83, 48, hexchars (trap_signal trapno)]"
    using sig by (simp add: text_frag_sent byte_frag_sent hexchars_def)
  then have "put [text_frag [83], byte_frag (trap_signal trapno)] s0 = Some ?s1"
    using put_exact [of _ _ s0 "packet [99] @ rest"] assms(1) s0(1) sig by simp
  then have rep: "send_reply None Reply_report s0 = Some ?s1"
    using s0(5) by (simp add: send_reply_def report_def)
  have "store_bytes (inbuf s0) [99, 0] (mem s0) (inbuf s0 + 2) \<noteq> 58" using assms(2) s0(2,3) by simp
  then obtain s' where s': "converse_loop None ?s1 = Some (GDB_CONT, s')"
    "regs (params s') = (tss_state ?t)\<lparr>r_eflags := r_eflags (tss_state ?t) AND NOT 0x100\<rparr>"
    "line s' = \<lparr>rx = rest, tx = out @ packet [83, 48, hexchars (trap_signal trapno)] @ [43]\<rparr>"
    using continue_ends [of 99 "[]" 0 ?s1 rest None] s0(4) by (auto simp: BUFMAX_def)
  have "state_tss ((tss_state ?t)\<lparr>r_eflags := r_eflags (tss_state ?t) AND NOT 0x100\<rparr>) ?t = ?t\<lparr>t_eflags := t_eflags ?t AND NOT 0x100\<rparr>"
    by (simp add: state_tss_def tss_state_def)
  then show ?thesis
    using s' rep s0(6) by (simp add: debugger_def Let_def gdb_serial_converse_def s0_def [symmetric])
qed

theorem trap_reported_and_continued_witness:
  "\<exists>d'. debugger 0 0 3 0x5000 (sample_trap [] \<lparr>rx = 43 # packet [99] @ [], tx = []\<rparr>) = Some (Inr d')
    \<and> tx (line (stub d')) = packet [83, 48, 53] @ [43] \<and> tss_at d' = (\<lambda>_. zero_tss)"
proof -
  let ?d = "sample_trap [] \<lparr>rx = 43 # packet [99] @ [], tx = []\<rparr>"
  have "mem (stub ?d) (inbuf (stub ?d) + 2) \<noteq> 58" by (simp add: sample_trap_def sample_tables_def)
  from trap_reported_and_continued [OF _ this, of "[]" "[]" 0 0 3 "0x5000"] show ?thesis
    by (auto simp: sample_trap_def trap_signal_def hexchars_def zero_tss_def)
qed

definition hex_digit_cell :: "nat \<Rightarrow> nat" where
  "hex_digit_cell d = (if d < 10 then 48 + d else 55 + d)"

lemma write_hex_loop_beyond: "2 * n \<le> p \<Longrightarrow> p \<le> a \<Longrightarrow> write_hex_loop n p v m a = m a"
  by (induction n arbitrary: p v m) (auto simp: Let_def)

lemma write_hex_loop_digits:
  "2 * n \<le> p \<Longrightarrow> i < n \<Longrightarrow> write_hex_loop n p v m (p - 2 * (i + 1)) = hex_digit_cell (unat v div 16 ^ i mod 16)"
proof (induction n arbitrary: p v m i)
  case (Suc n)
  note ih = Suc.IH and prems = Suc.prems
  have d: "unat (v AND 15) = unat v mod 16"
    using unat_and_mask [of v 4] by (simp add: mask_eq_decr_exp)
  let ?m = "m(p - 2 := hex_digit_cell (unat v mod 16))"
  have step: "write_hex_loop (Suc n) p v m = write_hex_loop n (p - 2) (drop_bit 4 v) ?m"
    by (simp add: Let_def d hex_digit_cell_def)
  show ?case
  proof (cases i)
    case 0
    have "write_hex_loop n (p - 2) (drop_bit 4 v) ?m (p - 2) = ?m (p - 2)"
      using Suc.prems(1) by (intro write_hex_loop_beyond) simp_all
    then show ?thesis unfolding step using 0 by simp
  next
    case (Suc j)
    have "p - 2 - 2 * (j + 1) = p - 2 * (i + 1)" using Suc by simp
    moreover have "write_hex_loop n (p - 2) (drop_bit 4 v) ?m (p - 2 - 2 * (j + 1))
        = hex_digit_cell (unat (drop_bit 4 v) div 16 ^ j mod 16)"
      using prems Suc by (intro ih) simp_all
    moreover have "unat v div 16 div 16 ^ j = unat v div 16 ^ i" using Suc by (simp add: div_mult2_eq)
    then have "unat (drop_bit 4 v) div 16 ^ j = unat v div 16 ^ i" by (simp add: unat_drop_bit)
    ultimately show ?thesis unfolding step by simp
  qed
qed simp

text \<open>a field of the report shows its value: the digit \<open>i\<close> places from the right end of a field of \<open>n\<close> cells that
  begins in column \<open>col\<close> of line \<open>row\<close> is the hexadecimal digit \<open>i\<close> of the value.\<close>

theorem report_field_shows_value:
  assumes "0 < col" "i < n"
  shows "write_hex row col n v m ((row - 1) * 160 + (col + n - 2 - i) * 2) = hex_digit_cell (unat v div 16 ^ i mod 16)"
proof -
  have "(row - 1) * 160 + (col + n - 2 - i) * 2 = (row - 1) * 160 + (col + n - 1) * 2 - 2 * (i + 1)"
    using assms by simp
  moreover have "2 * n \<le> (row - 1) * 160 + (col + n - 1) * 2" using assms(1) by simp
  ultimately show ?thesis
    using write_hex_loop_digits [of n "(row - 1) * 160 + (col + n - 1) * 2" i v m] assms(2) by (simp add: write_hex_def)
qed

theorem report_field_shows_value_witness:
  "write_hex 17 10 8 0x12ab (\<lambda>_. 0) ((17 - 1) * 160 + (10 + 8 - 2 - 1) * 2) = 65"
  using report_field_shows_value [of 10 1 8 17 "0x12ab" "\<lambda>_. 0"] by (simp add: hex_digit_cell_def)

end
