(* ===== verification/Spec2Isabelle.thy ===== *)
theory Spec2Isabelle
  imports Prelude Ring Prio_Queue Message_Queue Console Doprnt Timer Process Kernel Scheduling Process_Calls Ipc
    Kmem Allocator Kstring Numconv Scancode Keymap Keyboard Keyboard_Props Kbd Syscall Boot
    Ipc_Invariant Bitops Gdb_Packet Gdb_Memory Gdb_Stub Descriptors Serial_Port Debugger
begin

text \<open>
  \<^bold>\<open>SchlagOS\<close>: a model of the kernel (\<^verbatim>\<open>src/kernel\<close>) and of the C library it shares with the user programs
  (\<^verbatim>\<open>src/shared\<close>), with the theorems that make it correct.

  \<^bold>\<open>The program.\<close> A small preemptive kernel for the i386. Processes have priorities and are kept in a
  table of 512 entries; \<open>schedule\<close> gives the processor to the ready process of the highest priority. They
  communicate by bounded message queues, sleep on the clock, wait for their children and use a terminal: the
  keyboard driver turns scancodes into characters, which an interrupt puts into the message queue of
  \<open>stdin\<close>; \<open>cons_read\<close> takes them from there; the console driver draws on the video memory.
  User processes enter the kernel by a system call interrupt. Interrupts are off while kernel code runs.

  \<^bold>\<open>Theories, sources and what is shown.\<close>

  \<^item> \<open>Prelude\<close>: assertions (\<open>kassert\<close>; a failed assertion, a fault or an access outside an array is \<open>None\<close>), 32-bit
    counters, byte memory, lists.
  \<^item> \<open>Ring\<close>: the interface of a bounded first-in first-out buffer (locale \<open>bounded_fifo\<close>), and of the rings with a
    consume and a produce index of which one is locked at -1 (locale \<open>lock_ring\<close>, which gives the former). The
    kernel has three such rings; each is an interpretation on its own operations: the messages of a queue and
    the free queue identifiers (\<open>Message_Queue\<close>), the free process identifiers (\<open>Process\<close>).
  \<^item> \<open>Prio_Queue\<close> (\<^verbatim>\<open>shared/queue.h\<close>): the queue macros on explicit links, their list view, and the locale
    \<open>priority_queue\<close> interpreted on both; the macros refine the lists and sort stably.
  \<^item> \<open>Message_Queue\<close> (\<^verbatim>\<open>kernel/message_queue.c\<close>): queue table, buffers, lists of blocked processes, with the
    invariant \<open>mqt_inv\<close>. \<open>Ipc\<close>: \<open>psend\<close>, \<open>preceive\<close>, \<open>preset\<close>, \<open>pdelete\<close>, \<open>pcount\<close> on the whole kernel state, on every branch.
    \<open>Ipc_Invariant\<close>: one invariant of the queue table, the ready queue and the blocked processes, kept by all these calls
    and by the scheduler, in which no call fails an assertion.
  \<^item> \<open>Process\<close>, \<open>Kernel\<close> (\<^verbatim>\<open>kernel/process.c\<close>): process table, children, zombies, destruction, \<open>schedule\<close>, \<open>start\<close>, \<open>exit\<close>,
    \<open>kill\<close>, \<open>waitpid\<close>, \<open>wait_clock\<close>, \<open>chprio\<close>, the clock interrupt. \<open>Scheduling\<close>: kernel code ends, the choice of
    the scheduler, creation of processes. \<open>Process_Calls\<close>: sleeping, waiting, killing.
  \<^item> \<open>Timer\<close> (\<^verbatim>\<open>kernel/timer.c\<close>): tick counter and time of day. \<open>Console\<close> (\<^verbatim>\<open>kernel/console.c\<close>): video memory, cursor,
    escape sequences; no byte string makes it fail.
  \<^item> \<open>Doprnt\<close> (\<^verbatim>\<open>shared/doprnt.c\<close>, \<^verbatim>\<open>printf.c\<close>, \<^verbatim>\<open>sprintf.c\<close>): the formatter and its sinks. \<open>Numconv\<close> (\<^verbatim>\<open>shared/strtol.c\<close>,
    \<^verbatim>\<open>strtoul.c\<close>, \<^verbatim>\<open>div64.c\<close>): what is printed is read back; 64-bit division.
  \<^item> \<open>Kmem\<close>, \<open>Kstring\<close> (\<^verbatim>\<open>shared/string.c\<close>): block and string functions against byte-by-byte specifications.
  \<^item> \<open>Allocator\<close> (the ends of \<^verbatim>\<open>shared/malloc.c.h\<close>): \<open>sbrk\<close> and the framed blocks of \<open>mem_alloc\<close> and \<open>mem_free\<close>.
  \<^item> \<open>Scancode\<close>, \<open>Keymap\<close>, \<open>Keyboard\<close> (\<^verbatim>\<open>kernel/kbd-linux/scancode.c\<close>, \<^verbatim>\<open>defkeymap.c\<close>, \<^verbatim>\<open>keyboard.c\<close>, \<^verbatim>\<open>kernel/keyboard-glue.c\<close>):
    the keyboard driver with its tables. \<open>Keyboard_Props\<close>: no sequence of scancodes leads outside an array, and a
    character key sends the character of its key map; the key symbols are well typed. \<open>Bitops\<close>
    (\<^verbatim>\<open>kernel/kbd-linux/asm/bitops.h\<close>): the bit operations on words implement sets of bits, as \<open>Keyboard\<close> uses them.
  \<^item> \<open>Kbd\<close> (\<^verbatim>\<open>kernel/kbd.c\<close>): delivery of the characters and the line editor \<open>cons_read\<close>, which refines \<open>line_edit\<close>.
  \<^item> \<open>Syscall\<close> (\<^verbatim>\<open>kernel/syscall_handler.c\<close>): the dispatcher and its pointer checks; which memory a call can write.
  \<^item> \<open>Boot\<close> (\<^verbatim>\<open>kernel/start.c\<close>, \<^verbatim>\<open>handlers_functions.c\<close>): interrupt gates and the start of the system. \<open>Descriptors\<close>
    (\<^verbatim>\<open>kernel/boot/processor_structs.c\<close>): descriptor tables and task state segments; every exception reaches its task.
  \<^item> \<open>Gdb_Packet\<close>, \<open>Gdb_Stub\<close> (\<^verbatim>\<open>kernel/gdb_serial.c\<close>), \<open>Gdb_Memory\<close> (\<^verbatim>\<open>gdb_serial_support.c\<close>), \<open>Serial_Port\<close>
    (\<^verbatim>\<open>serial.c\<close>): the remote debugger stub. Packets survive noise and damaged copies, the commands read and write the
    memory that the page tables of the program give, and the port driver refines the line that the stub is built on.
  \<^item> \<open>Debugger\<close> (\<^verbatim>\<open>kernel/debugger.c\<close>): the handler of exceptions, its report on the screen, and the debugger session.

  \<^bold>\<open>Process switches.\<close> A kernel function that calls \<open>schedule\<close> stops in the middle and goes on when its process is
  chosen again. The rest of such a function is a \<open>frame\<close> on the kernel stack of the process; \<open>kstep\<close> executes
  the topmost frame, \<open>context_switch\<close> exchanges the stacks, \<open>krun\<close> iterates. The loops of \<^verbatim>\<open>kbd.c\<close> lie below these
  frames (\<open>io\<close> in \<open>Kbd\<close>, \<open>sys_step\<close>). The number given to \<open>krun\<close> and \<open>sys_run\<close> is only a number of steps: that enough
  steps reach the end of the kernel code is proved (\<open>Scheduling\<close>), and the theorems about \<open>cons_read\<close>, \<open>keyboard_data\<close> and
  \<open>kernel_start\<close> assert that a number exists, or name it. Every other loop is a total function;
  following the links of a damaged queue may not end and is \<open>None\<close>.

  \<^bold>\<open>Memory.\<close> The allocators answer from an arbitrary sequence (\<open>heap\<close>); theorems that need memory say which
  answers are not null. Reading a freed node gives an arbitrary value (\<open>residue\<close>). Words written through result
  pointers and the initial stacks are the \<open>memory\<close> of the kernel; character buffers are byte memory. Function
  addresses are parameters.

  \<^bold>\<open>Not modelled.\<close> The third-party allocator between the two ends of \<^verbatim>\<open>shared/malloc.c.h\<close> (a parameter of \<open>Allocator\<close>);
  the assembly of \<^verbatim>\<open>crt0.S\<close>, \<^verbatim>\<open>handlers*.S\<close> and \<^verbatim>\<open>context_switch.S\<close> except for the effect of \<open>context_switch\<close>, and of
  \<^verbatim>\<open>setup_pgtab\<close>, an argument of \<open>cpu_init\<close>; the loop of \<^verbatim>\<open>panic.c\<close> (a failed assertion is \<open>None\<close>); the test
  programs. The strings that the driver of \<open>Keyboard\<close> sends are delivered by \<open>Kbd\<close> one string at a time; a process
  switch inside one scancode, between two strings, is not followed into the variables of the driver. The memory that
  the remote debugger reads and writes is kept apart from the video memory and the task state segments of \<open>Debugger\<close>,
  and from the structures of the kernel.
\<close>

end
